(* ===== verification/Go_Prelude.thy ===== *)
theory Go_Prelude
  imports Main "HOL-Library.Word"
begin

text \<open>
  What the components of the development share: the integer types of the Go sources as words,
  Go's error values with their wrapping, the outcome of a call that may return an error, panic
  or run out of the model's fuel, state-passing computations over such outcomes with the rules
  that reason about them, and the big-endian byte codec.
\<close>

unbundle bit_operations_syntax

section \<open>Types and collections of facts\<close>

type_synonym byte = "8 word"
type_synonym u64 = "64 word"

named_theorems res_simps \<open>evaluation of outcomes and of state-passing computations\<close>
named_theorems returns_intros \<open>a computation returns: the model's fuel is enough\<close>
named_theorems keeps_intros \<open>a computation keeps a state predicate\<close>

section \<open>Error values\<close>

text \<open>
  \<open>Sentinel n\<close> is a package-level error variable (its identity is its name), \<open>ErrNew m\<close> an error
  made on the spot, \<open>ErrWrap m e\<close> the value of \<open>fmt.Errorf("m: %w", e)\<close>.
\<close>

datatype goerr = Sentinel string | ErrNew string | ErrWrap string goerr

text \<open>\<open>errors.Is\<close> for a sentinel: the error or something it wraps is that variable.\<close>

fun errors_is :: "goerr \<Rightarrow> string \<Rightarrow> bool" where
  "errors_is (Sentinel n) t = (n = t)"
| "errors_is (ErrNew m) t = False"
| "errors_is (ErrWrap m e) t = errors_is e t"

section \<open>Outcomes of calls\<close>

text \<open>
  \<open>Ok\<close> and \<open>Fail\<close> are the two ways a Go function with an error result returns; \<open>Panic\<close> is a
  panic, a nil dereference, or \<open>log.Crit\<close>, which exits the process. \<open>Diverge\<close> says that
  the model's fuel ran out: nothing is claimed of such a run.
\<close>

datatype 'a res = Ok (res_val: 'a) | Fail (res_err: goerr) | Panic string | Diverge

fun bindR :: "'a res \<Rightarrow> ('a \<Rightarrow> 'b res) \<Rightarrow> 'b res" where
  "bindR (Ok a) f = f a"
| "bindR (Fail e) f = Fail e"
| "bindR (Panic m) f = Panic m"
| "bindR Diverge f = Diverge"

fun wrapR :: "string \<Rightarrow> 'a res \<Rightarrow> 'a res" where
  "wrapR m (Fail e) = Fail (ErrWrap m e)"
| "wrapR m r = r"

text \<open>Dereferencing a pointer that may be nil.\<close>

fun derefR :: "'a option \<Rightarrow> 'a res" where
  "derefR (Some a) = Ok a"
| "derefR None = Panic ''nil pointer dereference''"

definition is_ok :: "'a res \<Rightarrow> bool" where
  "is_ok r = (case r of Ok _ \<Rightarrow> True | _ \<Rightarrow> False)"

lemma is_ok_simps [simp]:
  "is_ok (Ok a)" "\<not> is_ok (Fail e)" "\<not> is_ok (Panic m)" "\<not> is_ok Diverge"
  by (simp_all add: is_ok_def)

lemma is_ok_iff: "is_ok r \<longleftrightarrow> (\<exists>a. r = Ok a)"
  by (cases r) simp_all

lemma bindR_Ok_iff: "bindR r f = Ok b \<longleftrightarrow> (\<exists>a. r = Ok a \<and> f a = Ok b)"
  by (cases r) simp_all

lemma bindR_assoc: "bindR (bindR r f) g = bindR r (\<lambda>a. bindR (f a) g)"
  by (cases r) simp_all

lemma wrapR_Ok_iff [simp]: "wrapR m r = Ok a \<longleftrightarrow> r = Ok a"
  by (cases r) simp_all

lemma wrapR_Diverge_iff [simp]: "wrapR m r = Diverge \<longleftrightarrow> r = Diverge"
  by (cases r) simp_all

lemma is_ok_wrapR [simp]: "is_ok (wrapR m r) = is_ok r"
  by (cases r) simp_all

section \<open>State-passing computations\<close>

text \<open>
  A method with a pointer receiver: it maps the state to an outcome and the state it leaves.
  A failing call keeps the updates made before it failed, as the Go code does.
\<close>

type_synonym ('s, 'a) sm = "'s \<Rightarrow> 'a res \<times> 's"

definition retM :: "'a \<Rightarrow> ('s, 'a) sm" where
  [res_simps]: "retM a s = (Ok a, s)"

definition failM :: "goerr \<Rightarrow> ('s, 'a) sm" where
  [res_simps]: "failM e s = (Fail e, s)"

definition panicM :: "string \<Rightarrow> ('s, 'a) sm" where
  [res_simps]: "panicM m s = (Panic m, s)"

definition getsM :: "('s \<Rightarrow> 'a) \<Rightarrow> ('s, 'a) sm" where
  [res_simps]: "getsM f s = (Ok (f s), s)"

definition modM :: "('s \<Rightarrow> 's) \<Rightarrow> ('s, unit) sm" where
  [res_simps]: "modM f s = (Ok (), f s)"

definition liftR :: "'a res \<Rightarrow> ('s, 'a) sm" where
  [res_simps]: "liftR r s = (r, s)"

definition bindM :: "('s, 'a) sm \<Rightarrow> ('a \<Rightarrow> ('s, 'b) sm) \<Rightarrow> ('s, 'b) sm" where
  "bindM m f s = (case m s of
       (Ok a, s') \<Rightarrow> f a s'
     | (Fail e, s') \<Rightarrow> (Fail e, s')
     | (Panic p, s') \<Rightarrow> (Panic p, s')
     | (Diverge, s') \<Rightarrow> (Diverge, s'))"

definition seqM :: "('s, 'a) sm \<Rightarrow> ('s, 'b) sm \<Rightarrow> ('s, 'b) sm" where
  [res_simps]: "seqM m n = bindM m (\<lambda>_. n)"

definition wrapM :: "string \<Rightarrow> ('s, 'a) sm \<Rightarrow> ('s, 'a) sm" where
  [res_simps]: "wrapM msg m s = (case m s of (r, s') \<Rightarrow> (wrapR msg r, s'))"

text \<open>\<open>attemptM m\<close> hands an error to the caller as a value: \<open>x, err := m()\<close>.\<close>

definition attemptM :: "('s, 'a) sm \<Rightarrow> ('s, goerr + 'a) sm" where
  "attemptM m s = (case m s of
       (Ok a, s') \<Rightarrow> (Ok (Inr a), s')
     | (Fail e, s') \<Rightarrow> (Ok (Inl e), s')
     | (Panic p, s') \<Rightarrow> (Panic p, s')
     | (Diverge, s') \<Rightarrow> (Diverge, s'))"

lemma bindM_simps [res_simps]:
  "m s = (Ok a, s') \<Longrightarrow> bindM m f s = f a s'"
  "m s = (Fail e, s') \<Longrightarrow> bindM m f s = (Fail e, s')"
  "m s = (Panic p, s') \<Longrightarrow> bindM m f s = (Panic p, s')"
  "m s = (Diverge, s') \<Longrightarrow> bindM m f s = (Diverge, s')"
  by (simp_all add: bindM_def)

lemma bindM_basic [simp]:
  "bindM (retM a) f s = f a s"
  "bindM (failM e) f s = (Fail e, s)"
  "bindM (panicM p) f s = (Panic p, s)"
  "bindM (getsM g) f s = f (g s) s"
  "bindM (modM h) f' s = f' () (h s)"
  by (simp_all add: bindM_def res_simps)

lemma bindM_attemptM:
  "m s = (Ok a, s') \<Longrightarrow> bindM (attemptM m) f s = f (Inr a) s'"
  "m s = (Fail e, s') \<Longrightarrow> bindM (attemptM m) f s = f (Inl e) s'"
  "m s = (Panic p, s') \<Longrightarrow> bindM (attemptM m) f s = (Panic p, s')"
  "m s = (Diverge, s') \<Longrightarrow> bindM (attemptM m) f s = (Diverge, s')"
  by (simp_all add: bindM_def attemptM_def)

lemma bindM_liftR [simp]:
  "bindM (liftR (Ok a)) f s = f a s"
  "bindM (liftR (Fail e)) f s = (Fail e, s)"
  "bindM (liftR (Panic p)) f s = (Panic p, s)"
  "bindM (liftR Diverge) f s = (Diverge, s)"
  by (simp_all add: bindM_def res_simps)

lemma seqM_modM [simp]: "seqM (modM h) m s = m (h s)"
  by (simp add: seqM_def)

lemma seqM_failM: "fst (seqM m (failM e) s) \<noteq> Ok a"
  by (simp add: seqM_def bindM_def failM_def case_prod_unfold split: res.split)

lemma bindM_OkE:
  assumes "bindM m f s = (Ok b, s')"
  obtains a s1 where "m s = (Ok a, s1)" and "f a s1 = (Ok b, s')"
  using assms by (auto simp: bindM_def split: prod.splits res.splits)

lemma wrapM_Ok_iff [simp]: "wrapM msg m s = (Ok a, s') \<longleftrightarrow> m s = (Ok a, s')"
  by (auto simp: wrapM_def split: prod.splits)

subsection \<open>Loops\<close>

text \<open>\<open>for _, x := range xs { if err := body(x); err != nil { return err } }\<close>\<close>

fun forM :: "'x list \<Rightarrow> ('x \<Rightarrow> ('s, unit) sm) \<Rightarrow> ('s, unit) sm" where
  "forM [] body = retM ()"
| "forM (x # xs) body = bindM (body x) (\<lambda>_. forM xs body)"

text \<open>
  \<open>for i := a; i <= b; i++\<close> over \<open>uint64\<close>. At \<open>b = 2^64 - 1\<close> the counter wraps and the condition
  never fails, so the loop has no normal exit.
\<close>

definition u64_range :: "u64 \<Rightarrow> u64 \<Rightarrow> u64 list" where
  "u64_range a b = map of_nat [unat a ..< Suc (unat b)]"

definition rangeM :: "u64 \<Rightarrow> u64 \<Rightarrow> (u64 \<Rightarrow> ('s, unit) sm) \<Rightarrow> ('s, unit) sm" where
  "rangeM a b body = bindM (forM (u64_range a b) body)
     (\<lambda>_. if b = - 1 then liftR Diverge else retM ())"

lemma u64_range_empty: "b < a \<Longrightarrow> u64_range a b = []"
  by (simp add: u64_range_def word_less_nat_alt)

lemma unat_add_one: "(a :: u64) \<noteq> - 1 \<Longrightarrow> unat (a + 1) = Suc (unat a)"
  using unatSuc [of a] by (simp add: add.commute add_eq_0_iff)

lemma uint_of_int_u64: "0 \<le> n \<Longrightarrow> n < 2 ^ 64 \<Longrightarrow> uint (of_int n :: u64) = n"
  by (simp only: uint_word_of_int_eq) (simp add: take_bit_int_eq_self)

lemma u64_range_Cons:
  assumes "a \<le> b" and "b \<noteq> - 1"
  shows "u64_range a b = a # u64_range (a + 1) b"
proof -
  have le: "unat a \<le> unat b" using assms(1) by (simp add: word_le_nat_alt)
  have "a \<noteq> - 1" using assms by (metis word_order.extremum_uniqueI)
  then have suc: "unat (a + 1) = Suc (unat a)" by (rule unat_add_one)
  have "[unat a ..< Suc (unat b)] = unat a # [Suc (unat a) ..< Suc (unat b)]"
    using le by (simp add: upt_conv_Cons)
  then show ?thesis by (simp add: u64_range_def suc)
qed

lemma rangeM_diverges: "rangeM a (- 1) body s \<noteq> (Ok (), s')"
  by (auto simp: rangeM_def liftR_def elim!: bindM_OkE)

lemma rangeM_Cons:
  assumes "a \<le> b" and "b \<noteq> - 1"
  shows "rangeM a b body = bindM (body a) (\<lambda>_. rangeM (a + 1) b body)"
  by (rule ext) (auto simp: rangeM_def u64_range_Cons [OF assms] bindM_def split: prod.splits res.splits)

lemma rangeM_Ok_induct:
  assumes "rangeM a b body s = (Ok (), s')" and "a \<le> b" and "P a s"
    and step: "\<And>i s s'. a \<le> i \<Longrightarrow> i \<le> b \<Longrightarrow> P i s \<Longrightarrow> body i s = (Ok (), s') \<Longrightarrow> P (i + 1) s'"
  shows "P (b + 1) s'"
  using assms
proof (induction "unat b - unat a" arbitrary: a s)
  case 0
  then have "b \<le> a" by (simp add: word_le_nat_alt)
  with 0(3) have "a = b" by simp
  moreover have "b \<noteq> - 1" using 0(2) rangeM_diverges by metis
  moreover have "rangeM (b + 1) b body = retM ()"
    using \<open>b \<noteq> - 1\<close> by (simp add: rangeM_def u64_range_def unat_add_one fun_eq_iff bindM_def retM_def)
  ultimately show ?case using 0 rangeM_Cons [of a b body] by (auto simp: retM_def elim!: bindM_OkE)
next
  case (Suc n)
  have b: "b \<noteq> - 1" using Suc(3) rangeM_diverges by metis
  then obtain u where u: "body a s = (Ok (), u)" and r: "rangeM (a + 1) b body u = (Ok (), s')"
    using Suc(3,4) rangeM_Cons [of a b body] by (auto elim!: bindM_OkE)
  have "a \<noteq> - 1" using Suc(4) b by (metis word_order.extremum_uniqueI)
  then have a: "unat (a + 1) = Suc (unat a)" by (rule unat_add_one)
  have le: "a + 1 \<le> b" using Suc(2) a by (simp add: word_le_nat_alt)
  have "a \<le> a + 1" using a by (simp add: word_le_nat_alt)
  show ?case
  proof (rule Suc(1) [OF _ r le])
    show "n = unat b - unat (a + 1)" using Suc(2) a by simp
    show "P (a + 1) u" using Suc(4-6) u by blast
    fix i s s' assume "a + 1 \<le> i" "i \<le> b" "P i s" "body i s = (Ok (), s')"
    then show "P (i + 1) s'" using Suc(6) \<open>a \<le> a + 1\<close> by (meson order_trans)
  qed
qed

subsection \<open>What a computation keeps\<close>

definition keeps :: "('s \<Rightarrow> bool) \<Rightarrow> ('s, 'a) sm \<Rightarrow> bool" where
  "keeps P m \<longleftrightarrow> (\<forall>s. P s \<longrightarrow> P (snd (m s)))"

lemma keepsD: "keeps P m \<Longrightarrow> P s \<Longrightarrow> P (snd (m s))"
  by (simp add: keeps_def)

lemma keeps_step: "keeps P m \<Longrightarrow> P s \<Longrightarrow> m s = (r, s') \<Longrightarrow> P s'"
  by (metis keepsD snd_conv)

lemma keeps_basic [keeps_intros]:
  "keeps P (retM a)" "keeps P (failM e)" "keeps P (panicM p)" "keeps P (getsM g)"
  "keeps P (liftR r)"
  by (simp_all add: keeps_def res_simps)

lemma keeps_modM: "(\<And>s. P s \<Longrightarrow> P (h s)) \<Longrightarrow> keeps P (modM h)"
  by (simp add: keeps_def res_simps)

lemma keeps_bindM [keeps_intros]:
  assumes "keeps P m" and "\<And>a. keeps P (f a)"
  shows "keeps P (bindM m f)"
  unfolding keeps_def
proof (intro allI impI)
  fix s assume "P s"
  then have "P (snd (m s))" by (rule keepsD [OF assms(1)])
  then show "P (snd (bindM m f s))"
    using assms(2) by (auto simp: bindM_def keeps_def split: prod.splits res.splits)
qed

lemma keeps_seqM [keeps_intros]: "keeps P m \<Longrightarrow> keeps P n \<Longrightarrow> keeps P (seqM m n)"
  by (simp add: seqM_def keeps_bindM)

lemma keeps_wrapM [keeps_intros]: "keeps P m \<Longrightarrow> keeps P (wrapM msg m)"
  by (simp add: keeps_def wrapM_def case_prod_unfold)

lemma keeps_attemptM [keeps_intros]: "keeps P m \<Longrightarrow> keeps P (attemptM m)"
  by (simp add: keeps_def attemptM_def case_prod_unfold split: res.split)

lemma keeps_if [keeps_intros]:
  "(b \<Longrightarrow> keeps P m) \<Longrightarrow> (\<not> b \<Longrightarrow> keeps P n) \<Longrightarrow> keeps P (if b then m else n)"
  by simp

lemma keeps_case_option [keeps_intros]:
  "keeps P n \<Longrightarrow> (\<And>x. keeps P (f x)) \<Longrightarrow> keeps P (case x of None \<Rightarrow> n | Some y \<Rightarrow> f y)"
  by (simp split: option.splits)

lemma keeps_case_sum [keeps_intros]:
  "(\<And>e. keeps P (f e)) \<Longrightarrow> (\<And>y. keeps P (g y)) \<Longrightarrow> keeps P (case x of Inl e \<Rightarrow> f e | Inr y \<Rightarrow> g y)"
  by (simp split: sum.splits)

lemma keeps_forM [keeps_intros]: "(\<And>x. keeps P (body x)) \<Longrightarrow> keeps P (forM xs body)"
  by (induction xs) (simp_all add: keeps_intros)

lemma keeps_rangeM [keeps_intros]: "(\<And>x. keeps P (body x)) \<Longrightarrow> keeps P (rangeM a b body)"
  by (simp add: rangeM_def keeps_intros)

lemma keeps_case_prod [keeps_intros]: "(\<And>x y. keeps P (f x y)) \<Longrightarrow> keeps P (case p of (x, y) \<Rightarrow> f x y)"
  by (cases p) simp

lemma keeps_case_list [keeps_intros]: "keeps P n \<Longrightarrow> (\<And>y ys. keeps P (f y ys)) \<Longrightarrow> keeps P (case xs of [] \<Rightarrow> n | y # ys \<Rightarrow> f y ys)"
  by (cases xs) simp_all

lemma keeps_bindM_value:
  assumes "keeps P m" and "\<And>s a s'. m s = (Ok a, s') \<Longrightarrow> Q a" and "\<And>a. Q a \<Longrightarrow> keeps P (f a)"
  shows "keeps P (bindM m f)"
  unfolding keeps_def
proof (intro allI impI)
  fix s assume "P s"
  obtain r t where t: "m s = (r, t)" by fastforce
  with \<open>P s\<close> keepsD [OF assms(1)] have "P t" by fastforce
  with t assms(2,3) show "P (snd (bindM m f s))" by (cases r) (auto simp: bindM_def keeps_def)
qed

lemma keeps_forM_in: "(\<And>x. x \<in> set xs \<Longrightarrow> keeps P (body x)) \<Longrightarrow> keeps P (forM xs body)"
  by (induction xs) (simp_all add: keeps_intros)

lemma seqM_run: "m s = (Ok a, s') \<Longrightarrow> seqM m n s = n s'"
  by (simp add: seqM_def bindM_def)

lemma bindM_run: "m s = (Ok a, s') \<Longrightarrow> bindM m f s = f a s'"
  by (simp add: bindM_def)

lemma bindM_gets: "bindM (getsM g) f s = f (g s) s"
  by simp

lemma bindM_liftOk: "bindM (liftR (Ok v)) f = f v"
  by (rule ext) (simp add: bindM_def liftR_def)

subsection \<open>What a computation ensures\<close>

text \<open>From a state with \<open>P\<close>, a computation that returns a value ensures \<open>Q\<close> of the value and the
  state; one that fails, panics or does not return leaves a state with \<open>E\<close>.\<close>

definition ensures :: "('s \<Rightarrow> bool) \<Rightarrow> ('s, 'a) sm \<Rightarrow> ('a \<Rightarrow> 's \<Rightarrow> bool) \<Rightarrow> ('s \<Rightarrow> bool) \<Rightarrow> bool" where
  "ensures P m Q E \<longleftrightarrow> (\<forall>s. P s \<longrightarrow> (case m s of (Ok a, s') \<Rightarrow> Q a s' | (_, s') \<Rightarrow> E s'))"

lemma ensures_Ok: "ensures P m Q E \<Longrightarrow> P s \<Longrightarrow> m s = (Ok a, s') \<Longrightarrow> Q a s'"
  by (auto simp: ensures_def)

lemma ensures_snd:
  assumes "ensures P m Q E" and "P s" and "\<And>a s. Q a s \<Longrightarrow> R s" and "\<And>s. E s \<Longrightarrow> R s"
  shows "R (snd (m s))"
proof -
  obtain r t where rt: "m s = (r, t)" by fastforce
  have "case m s of (Ok a, s') \<Rightarrow> Q a s' | (_, s') \<Rightarrow> E s'" using assms(1,2) by (simp add: ensures_def)
  then show ?thesis using rt assms(3,4) by (cases r) simp_all
qed

lemma ensures_weaken:
  "ensures P' m Q' E \<Longrightarrow> (\<And>s. P s \<Longrightarrow> P' s) \<Longrightarrow> (\<And>a s. Q' a s \<Longrightarrow> Q a s) \<Longrightarrow> ensures P m Q E"
  by (fastforce simp: ensures_def split: prod.splits res.splits)

lemma ensures_basic:
  "(\<And>s. P s \<Longrightarrow> Q a s) \<Longrightarrow> ensures P (retM a) Q E"
  "(\<And>s. P s \<Longrightarrow> E s) \<Longrightarrow> ensures P (panicM p) Q E"
  "(\<And>s. P s \<Longrightarrow> Q (g s) s) \<Longrightarrow> ensures P (getsM g) Q E"
  "(\<And>s. P s \<Longrightarrow> Q () (h s)) \<Longrightarrow> ensures P (modM h) Q E"
  by (auto simp: ensures_def res_simps)

lemma ensures_bindM:
  assumes "ensures P m R E" and "\<And>a. ensures (R a) (f a) Q E"
  shows "ensures P (bindM m f) Q E"
  unfolding ensures_def
proof (intro allI impI)
  fix s assume "P s"
  obtain r t where t: "m s = (r, t)" by fastforce
  then have "case r of Ok a \<Rightarrow> R a t | _ \<Rightarrow> E t" using assms(1) \<open>P s\<close> by (auto simp: ensures_def split: prod.splits res.splits)
  then show "case bindM m f s of (Ok a, s') \<Rightarrow> Q a s' | (_, s') \<Rightarrow> E s'"
    using assms(2) t by (cases r) (auto simp: bindM_def ensures_def)
qed

lemma ensures_seqM: "ensures P m (\<lambda>_. R) E \<Longrightarrow> ensures R n Q E \<Longrightarrow> ensures P (seqM m n) Q E"
  unfolding seqM_def by (rule ensures_bindM)

lemma ensures_if: "(b \<Longrightarrow> ensures P m Q E) \<Longrightarrow> (\<not> b \<Longrightarrow> ensures P n Q E) \<Longrightarrow> ensures P (if b then m else n) Q E"
  by simp

lemma ensures_forM: "(\<And>x. x \<in> set xs \<Longrightarrow> ensures P (body x) (\<lambda>_. P) E) \<Longrightarrow> ensures P (forM xs body) (\<lambda>_. P) E"
proof (induction xs)
  case (Cons x xs)
  have "ensures P (seqM (body x) (forM xs body)) (\<lambda>_. P) E"
    by (rule ensures_seqM [OF Cons.prems Cons.IH]) (simp_all add: Cons.prems)
  then show ?case by (simp add: seqM_def)
qed (simp add: ensures_basic)

lemma ensures_use: "ensures P m Q E \<Longrightarrow> P s \<Longrightarrow> (case m s of (Ok a, s') \<Rightarrow> Q a s' | (_, s') \<Rightarrow> E s')"
  by (simp add: ensures_def)

lemma ensures_getsM: "(\<And>s. P s \<Longrightarrow> ensures (\<lambda>t. t = s) (f (g s)) Q E) \<Longrightarrow> ensures P (bindM (getsM g) f) Q E"
  by (auto simp: ensures_def)

lemma ensures_gets_any: "(\<And>x. ensures P (f x) Q E) \<Longrightarrow> ensures P (bindM (getsM g) f) Q E"
  by (auto simp: ensures_def)

lemma forM_Ok_keeps:
  assumes "forM xs body s = (Ok (), s')" and "P s" and "\<And>x s s'. x \<in> set xs \<Longrightarrow> P s \<Longrightarrow> body x s = (Ok (), s') \<Longrightarrow> P s'"
  shows "P s'"
  using assms
proof (induction xs arbitrary: s)
  case (Cons x xs)
  from Cons.prems(1) obtain t where t: "body x s = (Ok (), t)" "forM xs body t = (Ok (), s')"
    by (auto simp: bindM_def split: prod.splits res.splits)
  have "P t" by (rule Cons.prems(3) [OF _ Cons.prems(2) t(1)]) simp
  then show ?case
  proof (rule Cons.IH [OF t(2)])
    fix y u u' assume "y \<in> set xs" "P u" "body y u = (Ok (), u')"
    then show "P u'" by (intro Cons.prems(3) [of y u u']) auto
  qed
qed (simp add: retM_def)

lemma forM_each:
  assumes "forM xs body s = (Ok (), s')" and "\<And>x s s'. x \<in> set xs \<Longrightarrow> body x s = (Ok (), s') \<Longrightarrow> G x s'"
    and "\<And>x y s s'. x \<in> set xs \<Longrightarrow> G y s \<Longrightarrow> body x s = (Ok (), s') \<Longrightarrow> G y s'"
  shows "\<forall>x \<in> set xs. G x s'"
  using assms
proof (induction xs arbitrary: s)
  case (Cons x xs)
  from Cons.prems(1) obtain t where t: "body x s = (Ok (), t)" "forM xs body t = (Ok (), s')"
    by (auto simp: bindM_def split: prod.splits res.splits)
  have "G x t" by (rule Cons.prems(2) [OF _ t(1)]) simp
  with t(2) have "G x s'"
  proof (rule forM_Ok_keeps)
    fix y u u' assume "y \<in> set xs" "G x u" "body y u = (Ok (), u')"
    then show "G x u'" by (intro Cons.prems(3) [of y x u u']) auto
  qed
  moreover from t(2) have "\<forall>x \<in> set xs. G x s'"
  proof (rule Cons.IH)
    fix y z u u' assume y: "y \<in> set xs" and run: "body y u = (Ok (), u')"
    show "G y u'" by (rule Cons.prems(2) [OF _ run]) (simp add: y)
    show "G z u'" if "G z u" by (rule Cons.prems(3) [OF _ that run]) (simp add: y)
  qed
  ultimately show ?case by simp
qed simp

subsection \<open>Computations that return\<close>

definition returns :: "('s, 'a) sm \<Rightarrow> bool" where
  "returns m \<longleftrightarrow> (\<forall>s. fst (m s) \<noteq> Diverge)"

lemma returnsD: "returns m \<Longrightarrow> m s \<noteq> (Diverge, s')"
  unfolding returns_def by (metis fst_conv)

lemma returns_basic [returns_intros]:
  "returns (retM a)" "returns (failM e)" "returns (panicM p)" "returns (getsM g)" "returns (modM h)"
  by (simp_all add: returns_def res_simps)

lemma returns_liftR: "r \<noteq> Diverge \<Longrightarrow> returns (liftR r)"
  by (simp add: returns_def res_simps)

lemma returns_bindM [returns_intros]:
  "returns m \<Longrightarrow> (\<And>a. returns (f a)) \<Longrightarrow> returns (bindM m f)"
  by (auto simp: returns_def bindM_def split: prod.splits res.splits) (metis fst_conv)+

lemma returns_seqM [returns_intros]: "returns m \<Longrightarrow> returns n \<Longrightarrow> returns (seqM m n)"
  by (simp add: seqM_def returns_bindM)

lemma returns_wrapM [returns_intros]: "returns m \<Longrightarrow> returns (wrapM msg m)"
  by (simp add: returns_def wrapM_def case_prod_unfold)

lemma returns_attemptM [returns_intros]: "returns m \<Longrightarrow> returns (attemptM m)"
  by (simp add: returns_def attemptM_def case_prod_unfold split: res.split)

lemma returns_if [returns_intros]:
  "(b \<Longrightarrow> returns m) \<Longrightarrow> (\<not> b \<Longrightarrow> returns n) \<Longrightarrow> returns (if b then m else n)"
  by simp

lemma returns_case_option [returns_intros]:
  "returns n \<Longrightarrow> (\<And>x. returns (f x)) \<Longrightarrow> returns (case x of None \<Rightarrow> n | Some y \<Rightarrow> f y)"
  by (simp split: option.splits)

lemma returns_case_sum [returns_intros]:
  "(\<And>e. returns (f e)) \<Longrightarrow> (\<And>y. returns (g y)) \<Longrightarrow> returns (case x of Inl e \<Rightarrow> f e | Inr y \<Rightarrow> g y)"
  by (simp split: sum.splits)

lemma returns_forM [returns_intros]: "(\<And>x. returns (body x)) \<Longrightarrow> returns (forM xs body)"
  by (induction xs) (simp_all add: returns_intros)

lemma returns_rangeM: "(\<And>x. returns (body x)) \<Longrightarrow> b \<noteq> - 1 \<Longrightarrow> returns (rangeM a b body)"
  by (simp add: rangeM_def returns_intros)

text \<open>
  The frame of a preorder on states: computations that only move up in the preorder compose.
  A component interprets it on the order its own operations respect.
\<close>

locale state_preorder =
  fixes below :: "'s \<Rightarrow> 's \<Rightarrow> bool"
  assumes below_refl: "below s s"
    and below_trans: "below s t \<Longrightarrow> below t u \<Longrightarrow> below s u"
begin

definition climbs :: "('s \<Rightarrow> 'a res \<times> 's) \<Rightarrow> bool" where
  "climbs m \<longleftrightarrow> (\<forall>s. below s (snd (m s)))"

lemma climbs_keeps: "climbs m \<Longrightarrow> keeps (below s) m"
  by (auto simp: climbs_def keeps_def intro: below_trans)

lemma keeps_climbs: "(\<And>s. keeps (below s) m) \<Longrightarrow> climbs m"
  by (auto simp: climbs_def keeps_def intro: below_refl)

lemma climbs_bindM: "climbs m \<Longrightarrow> (\<And>a. climbs (f a)) \<Longrightarrow> climbs (bindM m f)"
  by (rule keeps_climbs, rule keeps_bindM) (simp_all add: climbs_keeps)

lemma climbs_basic:
  "climbs (retM a)" "climbs (failM e)" "climbs (panicM p)" "climbs (getsM g)" "climbs (liftR r)"
  by (simp_all add: climbs_def res_simps below_refl)

lemma climbs_seqM: "climbs m \<Longrightarrow> climbs n \<Longrightarrow> climbs (seqM m n)"
  unfolding seqM_def by (rule climbs_bindM)

lemma climbs_wrapM: "climbs m \<Longrightarrow> climbs (wrapM msg m)"
  by (simp add: climbs_def wrapM_def case_prod_unfold)

lemma climbs_attemptM: "climbs m \<Longrightarrow> climbs (attemptM m)"
  by (simp add: climbs_def attemptM_def case_prod_unfold split: res.split)

lemma climbs_if: "climbs m \<Longrightarrow> climbs n \<Longrightarrow> climbs (if b then m else n)"
  by simp

lemma climbs_option: "climbs n \<Longrightarrow> (\<And>y. climbs (f y)) \<Longrightarrow> climbs (case x of None \<Rightarrow> n | Some y \<Rightarrow> f y)"
  by (cases x) simp_all

lemma climbs_sum: "(\<And>e. climbs (f e)) \<Longrightarrow> (\<And>y. climbs (g y)) \<Longrightarrow> climbs (case x of Inl e \<Rightarrow> f e | Inr y \<Rightarrow> g y)"
  by (cases x) simp_all

lemma climbs_forM: "(\<And>x. climbs (body x)) \<Longrightarrow> climbs (forM xs body)"
  by (rule keeps_climbs, rule keeps_forM) (simp_all add: climbs_keeps)

lemma climbs_rangeM: "(\<And>x. climbs (body x)) \<Longrightarrow> climbs (rangeM a b body)"
  by (rule keeps_climbs, rule keeps_rangeM) (simp_all add: climbs_keeps)

lemma climbs_modM: "(\<And>s. below s (h s)) \<Longrightarrow> climbs (modM h)"
  by (simp add: climbs_def res_simps)

end

section \<open>Big-endian byte strings\<close>

text \<open>\<open>be_bytes n v\<close> are the low \<open>n\<close> bytes of \<open>v\<close>, most significant first
  (\<open>binary.BigEndian.PutUint64\<close> writes \<open>be_bytes 8 v\<close>), \<open>be_val\<close> reads a byte string back
  (\<open>binary.BigEndian.Uint64\<close>).\<close>

primrec be_bytes :: "nat \<Rightarrow> u64 \<Rightarrow> byte list" where
  "be_bytes 0 v = []"
| "be_bytes (Suc k) v = ucast (drop_bit (8 * k) v) # be_bytes k v"

definition be_val :: "byte list \<Rightarrow> u64" where
  "be_val bs = foldl (\<lambda>a b. push_bit 8 a OR ucast b) 0 bs"

lemma length_be_bytes [simp]: "length (be_bytes n v) = n"
  by (induction n) simp_all

lemma drop_be_bytes: "drop k (be_bytes (k + n) v) = be_bytes n v"
  by (induction k) simp_all

lemma be_shift_in:
  "push_bit (8 * n) (push_bit 8 a OR ucast (ucast (drop_bit (8 * n) v) :: byte)) OR take_bit (8 * n) v
     = push_bit (8 * Suc n) a OR take_bit (8 * Suc n) (v :: u64)" (is "?l = ?r")
proof (rule bit_word_eqI)
  fix i assume i: "i < LENGTH(64)"
  consider "i < 8 * n" | "8 * n \<le> i" "i < 8 * n + 8" | "8 * n + 8 \<le> i" by linarith
  then show "bit ?l i = bit ?r i"
    using i by cases (auto simp: bit_simps add.commute)
qed

lemma be_fold_bytes:
  "foldl (\<lambda>a b. push_bit 8 a OR ucast b) a (be_bytes n v) =
     push_bit (8 * n) a OR take_bit (8 * n) (v :: u64)"
proof (induction n arbitrary: a)
  case 0
  then show ?case by simp
next
  case (Suc n)
  with be_shift_in [of n a v] show ?case by simp
qed

lemma be_val_bytes: "be_val (be_bytes n v) = take_bit (8 * n) v"
  by (simp add: be_val_def be_fold_bytes)

lemma take_bit_small: "unat v < 2 ^ n \<Longrightarrow> take_bit n v = (v :: u64)"
proof -
  assume "unat v < 2 ^ n"
  then have "drop_bit n (unat v) = 0" by (simp add: drop_bit_eq_div)
  then have "drop_bit n v = 0" by (simp only: flip: unat_drop_bit_eq) (simp add: unat_eq_zero)
  then show ?thesis by (simp add: take_bit_eq_self_iff_drop_bit_eq_0)
qed

lemma be_val_zeros: "be_val (replicate k 0 @ bs) = be_val bs"
  by (induction k) (simp_all add: be_val_def)

section \<open>Readers\<close>

text \<open>
  A reader holds the bytes not yet read and the error that follows them: \<open>io.EOF\<close> for a
  \<open>bytes.Reader\<close>, the stream error for a corrupt compressed stream. As in \<open>bytes.Reader.Read\<close>,
  a read at the end fails, and a read that finds fewer bytes than asked for succeeds with
  those.
\<close>

record reader =
  r_buf :: "byte list"
  r_end :: goerr

definition io_EOF :: goerr where
  "io_EOF = Sentinel ''io.EOF''"

definition bytes_reader :: "byte list \<Rightarrow> reader" where
  "bytes_reader bs = \<lparr>r_buf = bs, r_end = io_EOF\<rparr>"

definition reader_Read :: "nat \<Rightarrow> (reader, byte list) sm" where
  "reader_Read n r =
     (if r_buf r = [] then (Fail (r_end r), r)
      else (Ok (take n (r_buf r)), r\<lparr>r_buf := drop n (r_buf r)\<rparr>))"

text \<open>\<open>io.ReadFull\<close>: all \<open>n\<close> bytes or an error; a partial read is \<open>io.ErrUnexpectedEOF\<close>.\<close>

definition io_ErrUnexpectedEOF :: goerr where
  "io_ErrUnexpectedEOF = Sentinel ''io.ErrUnexpectedEOF''"

definition io_ReadFull :: "nat \<Rightarrow> (reader, byte list) sm" where
  "io_ReadFull n r =
     (if n \<le> length (r_buf r) then (Ok (take n (r_buf r)), r\<lparr>r_buf := drop n (r_buf r)\<rparr>)
      else if r_buf r = [] then (Fail (r_end r), r)
      else (Fail (if r_end r = io_EOF then io_ErrUnexpectedEOF else r_end r), r\<lparr>r_buf := []\<rparr>))"

lemma io_ReadFull_app [simp]:
  "length xs = n \<Longrightarrow> io_ReadFull n (r\<lparr>r_buf := xs @ ys\<rparr>) = (Ok xs, r\<lparr>r_buf := ys\<rparr>)"
  by (simp add: io_ReadFull_def)

lemma io_ReadFull_buf:
  "r_buf r = xs @ ys \<Longrightarrow> length xs = n \<Longrightarrow> io_ReadFull n r = (Ok xs, r\<lparr>r_buf := ys\<rparr>)"
  by (simp add: io_ReadFull_def)

section \<open>Arbitrary-precision integers as bytes\<close>

text \<open>\<open>big.Int.Bytes\<close> (no leading zero byte, zero is empty) and \<open>big.Int.SetBytes\<close>.\<close>

fun big_bytes :: "nat \<Rightarrow> byte list" where
  "big_bytes n = (if n = 0 then [] else big_bytes (n div 256) @ [of_nat (n mod 256)])"

declare big_bytes.simps [simp del]

definition big_val :: "byte list \<Rightarrow> nat" where
  "big_val bs = foldl (\<lambda>a b. a * 256 + unat b) 0 bs"

lemma big_bytes_0 [simp]: "big_bytes 0 = []"
  by (simp add: big_bytes.simps)

lemma big_val_bytes [simp]: "big_val (big_bytes n) = n"
proof (induction n rule: big_bytes.induct)
  case (1 n)
  show ?case
  proof (cases "n = 0")
    case False
    then have "big_val (big_bytes (n div 256)) = n div 256" using 1 by simp
    then show ?thesis
      using False by (simp add: big_bytes.simps [of n] big_val_def unat_of_nat)
  qed (simp add: big_val_def)
qed

lemma big_bytes_not_null [simp]: "big_bytes n \<noteq> [0]"
  using big_val_bytes [of n] by (auto simp: big_val_def)

lemma length_big_bytes_le: "n < 256 ^ k \<Longrightarrow> length (big_bytes n) \<le> k"
proof (induction k arbitrary: n)
  case 0
  then show ?case by simp
next
  case (Suc k)
  then have "n div 256 < 256 ^ k" by (simp add: less_mult_imp_div_less mult.commute)
  then have "length (big_bytes (n div 256)) \<le> k" by (rule Suc.IH)
  then show ?case by (subst big_bytes.simps) simp
qed

lemma length_big_bytes_u64: "length (big_bytes (unat (v :: u64))) \<le> 8"
  by (rule length_big_bytes_le) (use unsigned_less [of v, where 'a = nat] in simp)

section \<open>Field codecs\<close>

text \<open>
  A field decoder takes the bytes of a valid value off the front of a stream and nothing else; a
  codec also has a writer that appends those bytes, or panics for a value it cannot encode.
\<close>

locale wire_reader =
  fixes get :: "(reader, 'a) sm"
    and valid :: "'a \<Rightarrow> bool"
    and wire :: "'a \<Rightarrow> byte list"
  assumes get_wire: "r_buf r = wire x @ rest \<Longrightarrow> valid x \<Longrightarrow> get r = (Ok x, r\<lparr>r_buf := rest\<rparr>)"
begin

lemma get_then: "r_buf r = wire x @ rest \<Longrightarrow> valid x \<Longrightarrow> bindM get f r = f x (r\<lparr>r_buf := rest\<rparr>)"
  by (simp add: get_wire bindM_simps)

lemma get_bytes_reader: "valid x \<Longrightarrow> get (bytes_reader (wire x @ rest)) = (Ok x, bytes_reader rest)"
  using get_wire [of "bytes_reader (wire x @ rest)" x rest] by (simp add: bytes_reader_def)

lemma wire_inj: "valid x \<Longrightarrow> valid y \<Longrightarrow> wire x = wire y \<Longrightarrow> x = y"
  using get_bytes_reader [of x "[]"] get_bytes_reader [of y "[]"] by simp

end

locale wire_codec = wire_reader +
  fixes put :: "'a \<Rightarrow> byte list \<Rightarrow> byte list res"
  assumes put_valid: "valid x \<Longrightarrow> put x w = Ok (w @ wire x)"
    and put_invalid: "\<not> valid x \<Longrightarrow> put x w = Panic ''cannot encode value''"
begin

lemma put_Ok_iff: "put x w = Ok w' \<longleftrightarrow> valid x \<and> w' = w @ wire x"
  using put_valid put_invalid by (cases "valid x") auto

lemma put_get:
  assumes "put x w = Ok w'"
  shows "\<exists>bs. w' = w @ bs \<and> get (bytes_reader (bs @ rest)) = (Ok x, bytes_reader rest)"
  using assms by (auto simp: put_Ok_iff get_bytes_reader)

end

end
