(* ===== verification/Batch_Encoding.thy ===== *)
theory Batch_Encoding
  imports Go_Prelude
begin

text \<open>
  The wire format of the batches that the batch submitter posts to the canonical transaction
  chain (\<open>batch-submitter/drivers/sequencer/encoding.go\<close> and \<open>cached_tx.go\<close>): batch contexts,
  batch types and the serialisation and parsing of \<open>AppendSequencerBatchParams\<close>.

  The RLP codec of a transaction and zlib are parameters: \<open>enc\<close> is \<open>tx.EncodeRLP\<close>, \<open>dec n\<close> is
  \<open>tx.DecodeRLP\<close> on a stream limited to \<open>n\<close> bytes, \<open>inflate\<close> is \<open>zlib.NewReader\<close>.
\<close>

section \<open>Fixed-width integers\<close>

definition TxLenSize :: nat where
  "TxLenSize = 3"

text \<open>\<open>writeUint64\<close>: the buffer after the bottom \<open>n\<close> bytes of \<open>val\<close> were appended.\<close>

definition writeUint64 :: "byte list \<Rightarrow> u64 \<Rightarrow> nat \<Rightarrow> byte list res" where
  "writeUint64 w val n =
     (if n < 1 \<or> n > 8 then Panic ''invalid number of bytes''
      else let maxVal = drop_bit (8 * (8 - n)) (- 1 :: u64) in
        if val > maxVal then Panic ''cannot encode value''
        else Ok (w @ drop (8 - n) (be_bytes 8 val)))"

definition readUint64 :: "nat \<Rightarrow> (reader, u64) sm" where
  "readUint64 n =
     (if n > 8 then failM (ErrNew ''bytes shift out of range'')
      else bindM (reader_Read n) (\<lambda>got.
        let buf = replicate (8 - n) 0 @ got @ replicate (n - length got) 0
        in retM (be_val buf)))"

section \<open>Batch contexts and batch types\<close>

record BatchContext =
  NumSequencedTxs :: u64
  NumSubsequentQueueTxs :: u64
  Timestamp :: u64
  BlockNumber :: u64

text \<open>\<open>BatchType\<close> is an \<open>int8\<close>.\<close>

type_synonym BatchType = "8 word"

definition BatchTypeLegacy :: BatchType where
  "BatchTypeLegacy = - 1"

definition BatchTypeZlib :: BatchType where
  "BatchTypeZlib = 0"

definition IsMarkerContext :: "BatchContext \<Rightarrow> bool" where
  "IsMarkerContext c = (Timestamp c = 0)"

definition MarkerBatchType :: "BatchContext \<Rightarrow> BatchType" where
  "MarkerBatchType c = (if BlockNumber c = 0 then BatchTypeZlib else BatchTypeLegacy)"

definition BatchContext_Write :: "BatchContext \<Rightarrow> byte list \<Rightarrow> byte list res" where
  "BatchContext_Write c w =
     bindR (writeUint64 w (NumSequencedTxs c) 3) (\<lambda>w.
     bindR (writeUint64 w (NumSubsequentQueueTxs c) 3) (\<lambda>w.
     bindR (writeUint64 w (Timestamp c) 5) (\<lambda>w.
     writeUint64 w (BlockNumber c) 5)))"

definition BatchContext_Read :: "(reader, BatchContext) sm" where
  "BatchContext_Read =
     bindM (readUint64 3) (\<lambda>ns.
     bindM (readUint64 3) (\<lambda>nq.
     bindM (readUint64 5) (\<lambda>ts.
     bindM (readUint64 5) (\<lambda>bn.
     retM \<lparr>NumSequencedTxs = ns, NumSubsequentQueueTxs = nq, Timestamp = ts, BlockNumber = bn\<rparr>))))"

definition BatchTypeFromString :: "string \<Rightarrow> BatchType" where
  "BatchTypeFromString s =
     (if s = ''zlib'' \<or> s = ''ZLIB'' then BatchTypeZlib
      else if s = ''legacy'' \<or> s = ''LEGACY'' then BatchTypeLegacy
      else BatchTypeLegacy)"

definition BatchType_String :: "BatchType \<Rightarrow> string" where
  "BatchType_String b =
     (if b = BatchTypeLegacy then ''LEGACY'' else if b = BatchTypeZlib then ''ZLIB'' else '''')"

definition MarkerContext :: "BatchType \<Rightarrow> BatchContext option" where
  "MarkerContext b =
     (if b = BatchTypeLegacy then None
      else if b = BatchTypeZlib then
        Some \<lparr>NumSequencedTxs = 0, NumSubsequentQueueTxs = 0, Timestamp = 0, BlockNumber = 0\<rparr>
      else None)"

section \<open>Cached transactions\<close>

record 'tx CachedTx =
  ctx_tx :: 'tx
  ctx_rawTx :: "byte list"

definition NewCachedTx :: "('tx \<Rightarrow> byte list res) \<Rightarrow> 'tx \<Rightarrow> 'tx CachedTx res" where
  "NewCachedTx enc tx = (case enc tx of
       Ok raw \<Rightarrow> Ok \<lparr>ctx_tx = tx, ctx_rawTx = raw\<rparr>
     | Fail e \<Rightarrow> Panic ''Unable to encode tx''
     | Panic m \<Rightarrow> Panic m
     | Diverge \<Rightarrow> Diverge)"

definition CachedTx_Size :: "'tx CachedTx \<Rightarrow> nat" where
  "CachedTx_Size t = length (ctx_rawTx t)"

section \<open>Batch parameters\<close>

record 'tx AppendSequencerBatchParams =
  ShouldStartAtElement :: u64
  TotalElementsToAppend :: u64
  Contexts :: "BatchContext list"
  Txs :: "'tx CachedTx list"

definition ErrMalformedBatch :: goerr where
  "ErrMalformedBatch = Sentinel ''ErrMalformedBatch''"

fun writeContexts :: "BatchContext list \<Rightarrow> byte list \<Rightarrow> byte list res" where
  "writeContexts [] w = Ok w"
| "writeContexts (c # cs) w = bindR (BatchContext_Write c w) (writeContexts cs)"

definition WriteNoTxn :: "'tx AppendSequencerBatchParams \<Rightarrow> byte list \<Rightarrow> BatchType \<Rightarrow> byte list res" where
  "WriteNoTxn p w batchType =
     bindR (writeUint64 w (ShouldStartAtElement p) 5) (\<lambda>w.
     bindR (writeUint64 w (TotalElementsToAppend p) 3) (\<lambda>w.
     let contexts = (case MarkerContext batchType of None \<Rightarrow> [] | Some m \<Rightarrow> [m]) @ Contexts p in
     bindR (writeUint64 w (of_nat (length contexts)) 3) (\<lambda>w.
     writeContexts contexts w)))"

definition Serialize :: "'tx AppendSequencerBatchParams \<Rightarrow> BatchType \<Rightarrow> byte list res" where
  "Serialize p batchType = WriteNoTxn p [] batchType"

text \<open>The state of \<open>Read\<close>: the parameters being filled in and the reader.\<close>

type_synonym 'tx parse = "'tx AppendSequencerBatchParams \<times> reader"

definition onReader :: "(reader, 'a) sm \<Rightarrow> ('tx parse, 'a) sm" where
  "onReader m = (\<lambda>(p, r). case m r of (x, r') \<Rightarrow> (x, (p, r')))"

definition modParams :: "('tx AppendSequencerBatchParams \<Rightarrow> 'tx AppendSequencerBatchParams)
    \<Rightarrow> ('tx parse, unit) sm" where
  "modParams f = modM (\<lambda>(p, r). (f p, r))"

fun readContexts :: "nat \<Rightarrow> nat \<Rightarrow> BatchType \<Rightarrow> ('tx parse, BatchType) sm" where
  "readContexts 0 i bt = retM bt"
| "readContexts (Suc n) i bt =
     bindM (onReader BatchContext_Read) (\<lambda>c.
       if i = 0 \<and> IsMarkerContext c then readContexts n (Suc i) (MarkerBatchType c)
       else seqM (modParams (\<lambda>p. p\<lparr>Contexts := Contexts p @ [c]\<rparr>)) (readContexts n (Suc i) bt))"

definition readHeader :: "('tx parse, BatchType) sm" where
  "readHeader =
     bindM (onReader (readUint64 5)) (\<lambda>v.
     seqM (modParams (\<lambda>p. p\<lparr>ShouldStartAtElement := v\<rparr>)) (
     bindM (onReader (readUint64 3)) (\<lambda>v.
     seqM (modParams (\<lambda>p. p\<lparr>TotalElementsToAppend := v\<rparr>)) (
     bindM (onReader (readUint64 3)) (\<lambda>numContexts.
     seqM (modParams (\<lambda>p. p\<lparr>Contexts := []\<rparr>)) (
     readContexts (unat numContexts) 0 BatchTypeLegacy))))))"

text \<open>
  \<open>inflate\<close> stands for \<open>zlib.NewReader\<close>: an error for a bad stream header, otherwise a reader of
  the decompressed bytes. Closing it after its end was reached without an error succeeds.
\<close>

definition openReader :: "(byte list \<Rightarrow> reader res) \<Rightarrow> BatchType \<Rightarrow> ('tx parse, unit) sm" where
  "openReader inflate bt =
     (if bt = BatchTypeZlib then
        (\<lambda>(p, r). case inflate (r_buf r) of
            Ok r' \<Rightarrow> (Ok (), (p, r'))
          | Fail e \<Rightarrow> (Fail e, (p, r))
          | Panic m \<Rightarrow> (Panic m, (p, r))
          | Diverge \<Rightarrow> (Diverge, (p, r)))
      else retM ())"

fun readTxs :: "(u64 \<Rightarrow> (reader, 'tx) sm) \<Rightarrow> ('tx \<Rightarrow> byte list res) \<Rightarrow> nat \<Rightarrow> ('tx parse, unit) sm" where
  "readTxs dec enc 0 = liftR Diverge"
| "readTxs dec enc (Suc fuel) =
     bindM (attemptM (onReader (readUint64 TxLenSize))) (\<lambda>x. case x of
       Inl err \<Rightarrow>
         (if err = io_EOF then
            bindM (getsM fst) (\<lambda>p.
              if Contexts p = [] \<and> Txs p \<noteq> [] then failM ErrMalformedBatch
              else if Txs p = [] \<and> Contexts p \<noteq> [] then failM ErrMalformedBatch
              else retM ())
          else failM err)
     | Inr txLen \<Rightarrow>
         bindM (onReader (dec txLen)) (\<lambda>tx.
         bindM (liftR (NewCachedTx enc tx)) (\<lambda>ctx.
         seqM (modParams (\<lambda>p. p\<lparr>Txs := Txs p @ [ctx]\<rparr>)) (readTxs dec enc fuel))))"

text \<open>
  \<open>AppendSequencerBatchParams.Read\<close>. Every round of the transaction loop reads at least one byte,
  so a fuel of one more than the bytes left is enough when \<open>dec\<close> gives no bytes back.
\<close>

definition Read_batch :: "(byte list \<Rightarrow> reader res) \<Rightarrow> (u64 \<Rightarrow> (reader, 'tx) sm)
    \<Rightarrow> ('tx \<Rightarrow> byte list res) \<Rightarrow> ('tx parse, unit) sm" where
  "Read_batch inflate dec enc =
     bindM readHeader (\<lambda>bt.
     bindM (openReader inflate bt) (\<lambda>_.
     bindM (getsM (\<lambda>(p, r). Suc (length (r_buf r)))) (\<lambda>fuel.
     readTxs dec enc fuel)))"


section \<open>Round trips\<close>

definition fits :: "nat \<Rightarrow> u64 \<Rightarrow> bool" where
  "fits n v \<longleftrightarrow> unat v < 2 ^ (8 * n)"

lemma le_drop_bit_max:
  assumes "1 \<le> n" and "n \<le> 8"
  shows "\<not> val > drop_bit (8 * (8 - n)) (- 1 :: u64) \<longleftrightarrow> fits n val"
proof -
  have "unat (drop_bit (8 * (8 - n)) (- 1 :: u64)) = (2 ^ 64 - 1) div 2 ^ (8 * (8 - n))"
    by (simp only: unat_drop_bit_eq) (simp add: drop_bit_eq_div unsigned_minus_1_eq_mask mask_eq_exp_minus_1)
  moreover have "n \<in> {1, 2, 3, 4, 5, 6, 7, 8}" using assms by auto
  ultimately show ?thesis
    by (auto simp: fits_def not_less word_le_nat_alt)
qed

lemma drop_be_bytes_8: "n \<le> 8 \<Longrightarrow> drop (8 - n) (be_bytes 8 v) = be_bytes n v"
  using drop_be_bytes [of "8 - n" n v] by simp

lemma writeUint64_fits:
  "1 \<le> n \<Longrightarrow> n \<le> 8 \<Longrightarrow> fits n v \<Longrightarrow> writeUint64 w v n = Ok (w @ be_bytes n v)"
  using le_drop_bit_max [of n v] by (simp add: writeUint64_def Let_def drop_be_bytes_8)

lemma writeUint64_unfit:
  "1 \<le> n \<Longrightarrow> n \<le> 8 \<Longrightarrow> \<not> fits n v \<Longrightarrow> writeUint64 w v n = Panic ''cannot encode value''"
  using le_drop_bit_max [of n v] by (simp add: writeUint64_def Let_def)

lemma take_bit_fits: "fits n v \<Longrightarrow> take_bit (8 * n) v = v"
  by (simp add: fits_def take_bit_small)

lemma readUint64_bytes:
  assumes "1 \<le> n" and "n \<le> 8" and "fits n v" and "r_buf r = be_bytes n v @ rest"
  shows "readUint64 n r = (Ok v, r\<lparr>r_buf := rest\<rparr>)"
proof -
  have "be_bytes n v \<noteq> []" using assms(1) by (cases n) auto
  with assms have "reader_Read n r = (Ok (be_bytes n v), r\<lparr>r_buf := rest\<rparr>)"
    by (simp add: reader_Read_def)
  then show ?thesis
    using assms by (simp add: readUint64_def be_val_zeros be_val_bytes take_bit_fits res_simps)
qed


lemma u64_codec: "1 \<le> n \<Longrightarrow> n \<le> 8 \<Longrightarrow>
    wire_codec (readUint64 n) (fits n) (be_bytes n) (\<lambda>v w. writeUint64 w v n)"
  by unfold_locales (auto simp: writeUint64_fits writeUint64_unfit readUint64_bytes)

interpretation u24: wire_codec "readUint64 3" "fits 3" "be_bytes 3" "\<lambda>v w. writeUint64 w v 3"
  by (rule u64_codec) simp_all

interpretation u40: wire_codec "readUint64 5" "fits 5" "be_bytes 5" "\<lambda>v w. writeUint64 w v 5"
  by (rule u64_codec) simp_all

definition ctx_fits :: "BatchContext \<Rightarrow> bool" where
  "ctx_fits c \<longleftrightarrow> fits 3 (NumSequencedTxs c) \<and> fits 3 (NumSubsequentQueueTxs c) \<and>
     fits 5 (Timestamp c) \<and> fits 5 (BlockNumber c)"

definition ctx_wire :: "BatchContext \<Rightarrow> byte list" where
  "ctx_wire c = be_bytes 3 (NumSequencedTxs c) @ be_bytes 3 (NumSubsequentQueueTxs c) @
     be_bytes 5 (Timestamp c) @ be_bytes 5 (BlockNumber c)"

lemma length_ctx_wire [simp]: "length (ctx_wire c) = 16"
  by (simp add: ctx_wire_def)

interpretation ctx: wire_codec BatchContext_Read ctx_fits ctx_wire BatchContext_Write
proof
  fix c w assume "ctx_fits c"
  then show "BatchContext_Write c w = Ok (w @ ctx_wire c)"
    by (simp add: BatchContext_Write_def ctx_fits_def ctx_wire_def u24.put_valid u40.put_valid)
next
  fix c w assume "\<not> ctx_fits c"
  then consider "\<not> fits 3 (NumSequencedTxs c)"
    | "fits 3 (NumSequencedTxs c)" "\<not> fits 3 (NumSubsequentQueueTxs c)"
    | "fits 3 (NumSequencedTxs c)" "fits 3 (NumSubsequentQueueTxs c)" "\<not> fits 5 (Timestamp c)"
    | "fits 3 (NumSequencedTxs c)" "fits 3 (NumSubsequentQueueTxs c)" "fits 5 (Timestamp c)"
      "\<not> fits 5 (BlockNumber c)"
    by (auto simp: ctx_fits_def)
  then show "BatchContext_Write c w = Panic ''cannot encode value''"
    by cases (simp_all add: BatchContext_Write_def u24.put_valid u40.put_valid
        u24.put_invalid u40.put_invalid)
next
  fix c and r :: reader and rest assume "ctx_fits c" and "r_buf r = ctx_wire c @ rest"
  then show "BatchContext_Read r = (Ok c, r\<lparr>r_buf := rest\<rparr>)"
    by (simp add: BatchContext_Read_def ctx_fits_def ctx_wire_def u24.get_wire u40.get_wire
        res_simps)
qed

lemma writeContexts_Ok_iff:
  "writeContexts cs w = Ok w' \<longleftrightarrow> list_all ctx_fits cs \<and> w' = w @ concat (map ctx_wire cs)"
  by (induction cs arbitrary: w) (auto simp: bindR_Ok_iff ctx.put_Ok_iff)

lemma writeContexts_fits:
  "list_all ctx_fits cs \<Longrightarrow> writeContexts cs w = Ok (w @ concat (map ctx_wire cs))"
  by (simp add: writeContexts_Ok_iff)

lemma bindM_onReader:
  assumes "m r = (Ok a, r')"
  shows "bindM (onReader m) f (p, r) = f a (p, r')"
  using assms by (simp add: bindM_def onReader_def)

lemma modParams_app [simp]: "seqM (modParams f) m (p, r) = m (f p, r)"
  by (simp add: modParams_def)

lemma readContexts_later:
  "list_all ctx_fits cs \<Longrightarrow> r_buf r = concat (map ctx_wire cs) @ rest \<Longrightarrow>
   readContexts (length cs) (Suc i) bt (p, r) =
     (Ok bt, (p\<lparr>Contexts := Contexts p @ cs\<rparr>, r\<lparr>r_buf := rest\<rparr>))"
proof (induction cs arbitrary: i p r)
  case Nil
  then show ?case by (simp add: res_simps)
next
  case (Cons c cs)
  then have "BatchContext_Read r = (Ok c, r\<lparr>r_buf := concat (map ctx_wire cs) @ rest\<rparr>)"
    by (simp add: ctx.get_wire)
  with Cons show ?case by (simp add: bindM_onReader)
qed

text \<open>The contexts as \<open>Read\<close> sees them: a leading marker selects the batch type and is dropped.\<close>

fun split_marker :: "BatchContext list \<Rightarrow> BatchType \<times> BatchContext list" where
  "split_marker [] = (BatchTypeLegacy, [])"
| "split_marker (c # cs) =
     (if IsMarkerContext c then (MarkerBatchType c, cs) else (BatchTypeLegacy, c # cs))"

lemma readContexts_all:
  assumes "list_all ctx_fits cs" and "r_buf r = concat (map ctx_wire cs) @ rest" and "Contexts p = []"
  shows "readContexts (length cs) 0 BatchTypeLegacy (p, r) =
     (Ok (fst (split_marker cs)), (p\<lparr>Contexts := snd (split_marker cs)\<rparr>, r\<lparr>r_buf := rest\<rparr>))"
proof (cases cs)
  case Nil
  with assms show ?thesis by (simp add: res_simps)
next
  case (Cons c cs')
  with assms have "BatchContext_Read r = (Ok c, r\<lparr>r_buf := concat (map ctx_wire cs') @ rest\<rparr>)"
    by (simp add: ctx.get_wire)
  with Cons assms show ?thesis by (simp add: bindM_onReader readContexts_later)
qed


definition batch_contexts :: "'tx AppendSequencerBatchParams \<Rightarrow> BatchType \<Rightarrow> BatchContext list" where
  "batch_contexts p bt = (case MarkerContext bt of None \<Rightarrow> [] | Some m \<Rightarrow> [m]) @ Contexts p"

definition header_wire :: "'tx AppendSequencerBatchParams \<Rightarrow> BatchType \<Rightarrow> byte list" where
  "header_wire p bt = be_bytes 5 (ShouldStartAtElement p) @ be_bytes 3 (TotalElementsToAppend p) @
     be_bytes 3 (of_nat (length (batch_contexts p bt))) @ concat (map ctx_wire (batch_contexts p bt))"

definition header_fits :: "'tx AppendSequencerBatchParams \<Rightarrow> BatchType \<Rightarrow> bool" where
  "header_fits p bt \<longleftrightarrow> fits 5 (ShouldStartAtElement p) \<and> fits 3 (TotalElementsToAppend p) \<and>
     fits 3 (of_nat (length (batch_contexts p bt))) \<and> list_all ctx_fits (batch_contexts p bt)"

lemma Serialize_Ok_iff: "Serialize p bt = Ok bs \<longleftrightarrow> header_fits p bt \<and> bs = header_wire p bt"
  by (auto simp: Serialize_def WriteNoTxn_def header_fits_def header_wire_def bindR_Ok_iff Let_def
      u24.put_Ok_iff u40.put_Ok_iff writeContexts_Ok_iff simp flip: batch_contexts_def)

lemma readHeader_wire:
  assumes fit: "header_fits p bt" and len: "length (batch_contexts p bt) < 2 ^ 64"
    and r: "r_buf r = header_wire p bt @ rest"
  shows "readHeader (q, r) =
     (Ok (fst (split_marker (batch_contexts p bt))),
      (q\<lparr>ShouldStartAtElement := ShouldStartAtElement p, TotalElementsToAppend := TotalElementsToAppend p,
         Contexts := snd (split_marker (batch_contexts p bt))\<rparr>, r\<lparr>r_buf := rest\<rparr>))"
proof -
  have n: "unat (of_nat (length (batch_contexts p bt)) :: u64) = length (batch_contexts p bt)"
    using len by (simp add: unat_of_nat)
  show ?thesis
    using fit r
    by (simp add: readHeader_def header_fits_def header_wire_def bindM_onReader u24.get_wire u40.get_wire
        n readContexts_all)
qed

definition typed_ok :: "'tx AppendSequencerBatchParams \<Rightarrow> BatchType \<Rightarrow> bool" where
  "typed_ok p bt \<longleftrightarrow> bt = BatchTypeZlib \<or>
     bt = BatchTypeLegacy \<and> (Contexts p = [] \<or> Timestamp (hd (Contexts p)) \<noteq> 0)"

lemma split_marker_typed:
  assumes "typed_ok p bt"
  shows "split_marker (batch_contexts p bt) = (bt, Contexts p)"
proof (cases "bt = BatchTypeZlib")
  case True
  then show ?thesis
    by (simp add: batch_contexts_def MarkerContext_def BatchTypeLegacy_def BatchTypeZlib_def
        IsMarkerContext_def MarkerBatchType_def)
next
  case False
  with assms show ?thesis
    by (cases "Contexts p") (auto simp: typed_ok_def batch_contexts_def MarkerContext_def IsMarkerContext_def)
qed

lemma length_batch_contexts: "length (batch_contexts p bt) \<le> Suc (length (Contexts p))"
  by (simp add: batch_contexts_def split: option.split)

lemma readHeader_serialized:
  assumes "Serialize p bt = Ok bs" and "typed_ok p bt" and "length (Contexts p) < 2 ^ 63"
  shows "readHeader (q, bytes_reader (bs @ rest)) =
     (Ok bt, (q\<lparr>ShouldStartAtElement := ShouldStartAtElement p,
        TotalElementsToAppend := TotalElementsToAppend p, Contexts := Contexts p\<rparr>, bytes_reader rest))"
proof -
  have "header_fits p bt" and bs: "bs = header_wire p bt"
    using assms(1) by (simp_all add: Serialize_Ok_iff)
  moreover have "length (batch_contexts p bt) < 2 ^ 64"
    using assms(3) length_batch_contexts [of p bt] by simp
  ultimately show ?thesis
    using readHeader_wire [of p bt "bytes_reader (bs @ rest)" rest q] split_marker_typed [OF assms(2)]
    by (simp add: bytes_reader_def)
qed

section \<open>Properties of the codec\<close>

text \<open>a batch context written to a buffer is read back unchanged, and the reader is left at the
  bytes that follow it; \<open>Write\<close> panics exactly when a field does not fit its width.\<close>

theorem context_roundtrip:
  assumes "BatchContext_Write c w = Ok w'"
  shows "\<exists>bs. w' = w @ bs \<and> length bs = 16 \<and>
    BatchContext_Read (bytes_reader (bs @ rest)) = (Ok c, bytes_reader rest)"
proof -
  have "w' = w @ ctx_wire c" using assms by (simp add: ctx.put_Ok_iff)
  then show ?thesis using ctx.put_get [OF assms, of rest] by auto
qed

theorem context_roundtrip_witness:
  "\<exists>bs. ctx_wire \<lparr>NumSequencedTxs = 258, NumSubsequentQueueTxs = 7, Timestamp = 1600000000, BlockNumber = 9\<rparr> = [] @ bs
    \<and> length bs = 16 \<and> BatchContext_Read (bytes_reader (bs @ [5])) =
      (Ok \<lparr>NumSequencedTxs = 258, NumSubsequentQueueTxs = 7, Timestamp = 1600000000, BlockNumber = 9\<rparr>,
       bytes_reader [5])"
  by (rule context_roundtrip) (simp add: ctx.put_Ok_iff ctx_fits_def fits_def)

text \<open>what \<open>Serialize\<close> writes, the header part of \<open>Read\<close> parses back: the start element, the
  element count, all contexts and the batch type, leaving the bytes that follow the header.\<close>

theorem header_roundtrip:
  assumes "Serialize p bt = Ok bs" and "typed_ok p bt" and "length (Contexts p) < 2 ^ 63"
  shows "readHeader (q, bytes_reader (bs @ rest)) =
     (Ok bt, (q\<lparr>ShouldStartAtElement := ShouldStartAtElement p,
        TotalElementsToAppend := TotalElementsToAppend p, Contexts := Contexts p\<rparr>, bytes_reader rest))"
  by (rule readHeader_serialized [OF assms])

definition sample_context :: BatchContext where
  "sample_context = \<lparr>NumSequencedTxs = 2, NumSubsequentQueueTxs = 1, Timestamp = 1600000000, BlockNumber = 9\<rparr>"

definition sample_params :: "nat AppendSequencerBatchParams" where
  "sample_params = \<lparr>ShouldStartAtElement = 1000, TotalElementsToAppend = 3, Contexts = [sample_context], Txs = []\<rparr>"

lemma sample_params_Serialize:
  "Serialize sample_params BatchTypeLegacy = Ok (header_wire sample_params BatchTypeLegacy)"
  by (simp add: Serialize_Ok_iff header_fits_def batch_contexts_def MarkerContext_def
      sample_params_def sample_context_def ctx_fits_def fits_def)

lemma sample_params_typed: "typed_ok sample_params BatchTypeLegacy"
  by (simp add: typed_ok_def sample_params_def sample_context_def)

theorem header_roundtrip_witness:
  "readHeader (sample_params\<lparr>Contexts := []\<rparr>, bytes_reader (header_wire sample_params BatchTypeLegacy @ [7])) =
     (Ok BatchTypeLegacy, (sample_params, bytes_reader [7]))"
  using header_roundtrip [OF sample_params_Serialize sample_params_typed, of "sample_params\<lparr>Contexts := []\<rparr>" "[7]"]
  by (simp add: sample_params_def)

text \<open>\<open>BatchContext.Read\<close> does not need the 16 bytes of a context: it succeeds exactly when at
  least 12 bytes are left, since a short read of the last field is not an error.\<close>

theorem context_read_short:
  "is_ok (fst (BatchContext_Read (bytes_reader bs))) \<longleftrightarrow> 12 \<le> length bs"
  by (simp add: BatchContext_Read_def readUint64_def reader_Read_def bytes_reader_def bindM_def
      res_simps Let_def)


section \<open>Parsing whole batches\<close>

definition cached :: "('tx \<Rightarrow> byte list) \<Rightarrow> 'tx \<Rightarrow> 'tx CachedTx" where
  "cached raw t = \<lparr>ctx_tx = t, ctx_rawTx = raw t\<rparr>"

definition tx_wire :: "('tx \<Rightarrow> byte list) \<Rightarrow> 'tx \<Rightarrow> byte list" where
  "tx_wire raw t = be_bytes 3 (of_nat (length (raw t))) @ raw t"

text \<open>What the parser relies on of the RLP codec for the transactions at hand.\<close>

definition rlp_inverse :: "(u64 \<Rightarrow> (reader, 'tx) sm) \<Rightarrow> ('tx \<Rightarrow> byte list res) \<Rightarrow> ('tx \<Rightarrow> byte list)
    \<Rightarrow> 'tx list \<Rightarrow> bool" where
  "rlp_inverse dec enc raw ts \<longleftrightarrow> (\<forall>t \<in> set ts. enc t = Ok (raw t) \<and> fits 3 (of_nat (length (raw t))) \<and>
     (\<forall>r rest. r_buf r = raw t @ rest \<longrightarrow>
        dec (of_nat (length (raw t))) r = (Ok t, r\<lparr>r_buf := rest\<rparr>)))"

lemma readUint64_empty: "r_buf r = [] \<Longrightarrow> n \<le> 8 \<Longrightarrow> readUint64 n r = (Fail (r_end r), r)"
  by (simp add: readUint64_def reader_Read_def bindM_def)

lemma attempt_onReader:
  "m r = (Ok a, r') \<Longrightarrow> bindM (attemptM (onReader m)) f (p, r) = f (Inr a) (p, r')"
  "m r = (Fail e, r') \<Longrightarrow> bindM (attemptM (onReader m)) f (p, r) = f (Inl e) (p, r')"
  by (simp_all add: bindM_def attemptM_def onReader_def)

lemma readTxs_wire:
  assumes "rlp_inverse dec enc raw ts" and "r_buf r = concat (map (tx_wire raw) ts)"
    and "r_end r = io_EOF" and "length ts < fuel"
    and "Contexts p = [] \<longleftrightarrow> Txs p @ map (cached raw) ts = []"
  shows "readTxs dec enc fuel (p, r) =
    (Ok (), (p\<lparr>Txs := Txs p @ map (cached raw) ts\<rparr>, r\<lparr>r_buf := []\<rparr>))"
  using assms
proof (induction ts arbitrary: fuel p r)
  case Nil
  then obtain k where "fuel = Suc k" by (cases fuel) auto
  moreover have "readUint64 TxLenSize r = (Fail io_EOF, r)"
    using Nil by (simp add: readUint64_empty TxLenSize_def)
  ultimately show ?case
    using Nil by (auto simp: attempt_onReader res_simps)
next
  case (Cons t ts)
  then obtain k where k: "fuel = Suc k" by (cases fuel) auto
  let ?r1 = "r\<lparr>r_buf := raw t @ concat (map (tx_wire raw) ts)\<rparr>"
  let ?r2 = "r\<lparr>r_buf := concat (map (tx_wire raw) ts)\<rparr>"
  have len: "readUint64 TxLenSize r = (Ok (of_nat (length (raw t))), ?r1)"
    using Cons.prems by (simp add: TxLenSize_def tx_wire_def [of raw t] rlp_inverse_def u24.get_wire)
  have dec: "dec (of_nat (length (raw t))) ?r1 = (Ok t, ?r2)"
    using Cons.prems by (simp add: rlp_inverse_def)
  have new: "NewCachedTx enc t = Ok (cached raw t)"
    using Cons.prems by (simp add: rlp_inverse_def NewCachedTx_def cached_def)
  have "readTxs dec enc fuel (p, r) = readTxs dec enc k (p\<lparr>Txs := Txs p @ [cached raw t]\<rparr>, ?r2)"
    by (simp add: k attempt_onReader len bindM_onReader dec new)
  also have "\<dots> = (Ok (), (p\<lparr>Txs := Txs p @ map (cached raw) (t # ts)\<rparr>, r\<lparr>r_buf := []\<rparr>))"
    using Cons.prems k by (subst Cons.IH) (auto simp: rlp_inverse_def)
  finally show ?case .
qed

text \<open>The stream after the header: the transactions themselves, or their compressed form.\<close>

definition body_ok :: "(byte list \<Rightarrow> reader res) \<Rightarrow> BatchType \<Rightarrow> byte list \<Rightarrow> byte list \<Rightarrow> bool" where
  "body_ok inflate bt body plain \<longleftrightarrow>
     bt = BatchTypeLegacy \<and> body = plain \<or>
     bt = BatchTypeZlib \<and> inflate body = Ok (bytes_reader plain)"

lemma openReader_body:
  assumes "body_ok inflate bt body plain"
  shows "bindM (openReader inflate bt) f (p, bytes_reader body) = f () (p, bytes_reader plain)"
  using assms
  by (auto simp: body_ok_def openReader_def BatchTypeLegacy_def BatchTypeZlib_def bytes_reader_def bindM_def
      res_simps)

lemma length_le_tx_wires: "length ts \<le> length (concat (map (tx_wire raw) ts))"
  by (induction ts) (simp_all add: tx_wire_def)



definition one_byte_raw :: "nat \<Rightarrow> byte list" where
  "one_byte_raw t = [of_nat t]"

definition one_byte_dec :: "u64 \<Rightarrow> (reader, nat) sm" where
  "one_byte_dec n r = (case r_buf r of
       [] \<Rightarrow> (Fail io_EOF, r)
     | b # bs \<Rightarrow> (Ok (unat b), r\<lparr>r_buf := bs\<rparr>))"

lemma one_byte_inverse: "rlp_inverse one_byte_dec (Ok \<circ> one_byte_raw) one_byte_raw [5, 6]"
  by (simp add: rlp_inverse_def one_byte_raw_def one_byte_dec_def fits_def)


text \<open>\<open>Serialize\<close> writes no transactions, so its own output is not a batch \<open>Read\<close> accepts:
  parsing a serialised legacy batch that has a context ends with \<open>ErrMalformedBatch\<close>, after
  the header was recovered.\<close>

theorem serialized_batch_malformed:
  assumes "Serialize p BatchTypeLegacy = Ok bs" and "typed_ok p BatchTypeLegacy"
    and "length (Contexts p) < 2 ^ 63" and "Contexts p \<noteq> []" and "Txs q = []"
  shows "fst (Read_batch inflate dec enc (q, bytes_reader bs)) = Fail ErrMalformedBatch"
proof -
  let ?q = "q\<lparr>ShouldStartAtElement := ShouldStartAtElement p,
     TotalElementsToAppend := TotalElementsToAppend p, Contexts := Contexts p\<rparr>"
  have hdr: "readHeader (q, bytes_reader bs) = (Ok BatchTypeLegacy, (?q, bytes_reader []))"
    using readHeader_serialized [OF assms(1-3), of q "[]"] by simp
  have body: "body_ok inflate BatchTypeLegacy [] []" by (simp add: body_ok_def)
  have eof: "readUint64 TxLenSize (bytes_reader []) = (Fail io_EOF, bytes_reader [])"
    by (simp add: readUint64_empty bytes_reader_def TxLenSize_def)
  have "Read_batch inflate dec enc (q, bytes_reader bs) =
    readTxs dec enc (Suc 0) (?q, bytes_reader [])"
    by (simp add: Read_batch_def bindM_simps(1) [of readHeader, OF hdr] openReader_body [OF body])
      (simp add: bytes_reader_def)
  also have "fst \<dots> = Fail ErrMalformedBatch"
    using assms(4,5) by (simp add: attempt_onReader eof res_simps)
  finally show ?thesis .
qed

theorem serialized_batch_malformed_witness:
  "fst (Read_batch (\<lambda>_. Fail io_EOF) one_byte_dec (Ok \<circ> one_byte_raw)
     (sample_params, bytes_reader (header_wire sample_params BatchTypeLegacy))) = Fail ErrMalformedBatch"
  by (rule serialized_batch_malformed [OF sample_params_Serialize sample_params_typed])
    (simp_all add: sample_params_def)

lemma readUint64_shrinks:
  "readUint64 n r = (Ok v, r') \<Longrightarrow> 1 \<le> n \<Longrightarrow> length (r_buf r') < length (r_buf r)"
  by (auto simp: readUint64_def reader_Read_def bindM_def res_simps Let_def split: if_splits)

lemma returns_readUint64 [returns_intros]: "returns (readUint64 n)"
  by (simp add: returns_def readUint64_def reader_Read_def bindM_def res_simps Let_def)

lemma returns_onReader [returns_intros]: "returns m \<Longrightarrow> returns (onReader m)"
  by (auto simp: returns_def onReader_def case_prod_unfold)

lemma returns_modParams [returns_intros]: "returns (modParams f)"
  by (simp add: modParams_def returns_intros)

lemma returns_readContexts [returns_intros]: "returns (readContexts n i bt)"
  by (induction n arbitrary: i bt) (simp_all add: returns_intros BatchContext_Read_def)

lemma returns_readHeader [returns_intros]: "returns readHeader"
  unfolding readHeader_def by (intro returns_intros)

definition no_lookback :: "(u64 \<Rightarrow> (reader, 'tx) sm) \<Rightarrow> bool" where
  "no_lookback dec \<longleftrightarrow> (\<forall>n. returns (dec n)) \<and>
     (\<forall>n r. length (r_buf (snd (dec n r))) \<le> length (r_buf r))"

lemma NewCachedTx_returns: "enc t \<noteq> Diverge \<Longrightarrow> NewCachedTx enc t \<noteq> Diverge"
  by (simp add: NewCachedTx_def split: res.splits)

lemma readTxs_returns:
  assumes "no_lookback dec" and "\<forall>t. enc t \<noteq> Diverge"
  shows "length (r_buf r) < fuel \<Longrightarrow> fst (readTxs dec enc fuel (p, r)) \<noteq> Diverge"
proof (induction fuel arbitrary: p r)
  case 0
  then show ?case by simp
next
  case (Suc fuel)
  show ?case
  proof (cases "readUint64 TxLenSize r")
    case (Pair x r1)
    show ?thesis
    proof (cases x)
      case (Ok len)
      with Pair have lt: "length (r_buf r1) < length (r_buf r)"
        by (auto simp: TxLenSize_def dest: readUint64_shrinks)
      obtain y r2 where y: "dec len r1 = (y, r2)" by (cases "dec len r1")
      have "y \<noteq> Diverge" and le: "length (r_buf r2) \<le> length (r_buf r1)"
        using assms(1) y unfolding no_lookback_def returns_def by (metis fst_conv, metis snd_conv)
      moreover have "length (r_buf r2) < fuel" using le lt Suc.prems by simp
      moreover have "readTxs dec enc (Suc fuel) (p, r) = bindM (onReader (dec len)) (\<lambda>tx.
          bindM (liftR (NewCachedTx enc tx)) (\<lambda>ctx.
          seqM (modParams (\<lambda>p. p\<lparr>Txs := Txs p @ [ctx]\<rparr>)) (readTxs dec enc fuel))) (p, r1)"
        using Pair Ok by (simp add: attempt_onReader)
      ultimately show ?thesis
        using y Suc.IH assms(2) NewCachedTx_returns [of enc]
        by (cases y) (auto simp: bindM_def onReader_def liftR_def split: res.split)
    next
      case (Fail e)
      with Pair show ?thesis by (auto simp: attempt_onReader res_simps)
    next
      case (Panic m)
      with Pair show ?thesis by (simp add: bindM_def attemptM_def onReader_def)
    next
      case Diverge
      with Pair show ?thesis using returns_readUint64 [of TxLenSize] by (auto dest: returnsD)
    qed
  qed
qed

text \<open>C29: \<open>Read\<close> always returns: whatever bytes it is given, header and transaction loop end with
  a result, an error or a panic, as long as the RLP decoder returns and never hands bytes back
  to the stream.\<close>

theorem batch_read_returns:
  assumes "no_lookback dec" and "\<forall>t. enc t \<noteq> Diverge" and "\<forall>z. inflate z \<noteq> Diverge"
  shows "fst (Read_batch inflate dec enc (p, r)) \<noteq> Diverge"
proof -
  have "readHeader (p, r) \<noteq> (Diverge, s)" for s :: "'a parse"
    by (rule returnsD) (rule returns_readHeader)
  moreover have "openReader inflate bt (p', r') \<noteq> (Diverge, s)" for bt p' r' and s :: "'a parse"
    using assms(3) by (auto simp: openReader_def retM_def split: res.splits)
  moreover have "fst (readTxs dec enc (Suc (length (r_buf r'))) (p', r')) \<noteq> Diverge" for p' r'
    by (rule readTxs_returns [OF assms(1,2)]) simp
  ultimately show ?thesis
    by (auto simp: Read_batch_def bindM_def getsM_def simp del: readTxs.simps split: prod.splits res.splits)
qed

theorem batch_read_returns_witness:
  "fst (Read_batch (\<lambda>_. Fail io_EOF) one_byte_dec (Ok \<circ> one_byte_raw) (sample_params, bytes_reader [1, 2]))
     \<noteq> Diverge"
  by (rule batch_read_returns)
    (simp_all add: no_lookback_def returns_def one_byte_dec_def split: list.split)

end
