(* ===== verification/Tx_Meta.thy ===== *)
theory Tx_Meta
  imports Go_Prelude
begin

text \<open>
  The rollup metadata that l2geth attaches to a transaction and its binary form in the database:
  variable-length integers and byte strings (\<open>l2geth/common/varbytes.go\<close>), the metadata record
  with its codec (\<open>l2geth/core/types/transaction_meta.go\<close>) and the accessors of \<open>Transaction\<close> that
  read and write it (\<open>l2geth/core/types/transaction.go\<close>).
\<close>

section \<open>Variable-length integers and byte strings\<close>

text \<open>
  The buffers that \<open>binaryFreeList\<close> hands out are scratch space; what its methods do is to read
  or write 1, 2, 4 or 8 bytes in little-endian order.
\<close>

definition le_bytes :: "nat \<Rightarrow> u64 \<Rightarrow> byte list" where
  "le_bytes n v = rev (be_bytes n v)"

definition le_val :: "byte list \<Rightarrow> u64" where
  "le_val bs = be_val (rev bs)"

definition getUint8 :: "(reader, byte) sm" where
  "getUint8 = bindM (io_ReadFull 1) (\<lambda>buf. retM (buf ! 0))"

definition getUint16 :: "(reader, u64) sm" where
  "getUint16 = bindM (io_ReadFull 2) (\<lambda>buf. retM (le_val buf))"

definition getUint32 :: "(reader, u64) sm" where
  "getUint32 = bindM (io_ReadFull 4) (\<lambda>buf. retM (le_val buf))"

definition getUint64 :: "(reader, u64) sm" where
  "getUint64 = bindM (io_ReadFull 8) (\<lambda>buf. retM (le_val buf))"

definition putUint8 :: "byte list \<Rightarrow> byte \<Rightarrow> byte list" where
  "putUint8 w v = w @ [v]"

definition putUint16 :: "byte list \<Rightarrow> u64 \<Rightarrow> byte list" where
  "putUint16 w v = w @ le_bytes 2 v"

definition putUint32 :: "byte list \<Rightarrow> u64 \<Rightarrow> byte list" where
  "putUint32 w v = w @ le_bytes 4 v"

definition putUint64 :: "byte list \<Rightarrow> u64 \<Rightarrow> byte list" where
  "putUint64 w v = w @ le_bytes 8 v"

definition errNonCanonicalVarInt :: goerr where
  "errNonCanonicalVarInt = ErrNew ''ReadVarInt: non-canonical varint''"

definition ReadVarInt :: "(reader, u64) sm" where
  "ReadVarInt = bindM getUint8 (\<lambda>discriminant.
     if discriminant = 0xff then
       bindM getUint64 (\<lambda>rv. if rv < 0x100000000 then failM errNonCanonicalVarInt else retM rv)
     else if discriminant = 0xfe then
       bindM getUint32 (\<lambda>rv. if rv < 0x10000 then failM errNonCanonicalVarInt else retM rv)
     else if discriminant = 0xfd then
       bindM getUint16 (\<lambda>rv. if rv < 0xfd then failM errNonCanonicalVarInt else retM rv)
     else retM (ucast discriminant))"

definition WriteVarInt :: "byte list \<Rightarrow> u64 \<Rightarrow> byte list" where
  "WriteVarInt w val =
     (if val < 0xfd then putUint8 w (ucast val)
      else if val \<le> 0xffff then putUint16 (putUint8 w 0xfd) val
      else if val \<le> 0xffffffff then putUint32 (putUint8 w 0xfe) val
      else putUint64 (putUint8 w 0xff) val)"

definition VarIntSerializeSize :: "u64 \<Rightarrow> nat" where
  "VarIntSerializeSize val =
     (if val < 0xfd then 1 else if val \<le> 0xffff then 3 else if val \<le> 0xffffffff then 5 else 9)"

definition ReadVarBytes :: "u64 \<Rightarrow> string \<Rightarrow> (reader, byte list) sm" where
  "ReadVarBytes maxAllowed fieldName = bindM ReadVarInt (\<lambda>count.
     if count > maxAllowed then failM (ErrNew (''ReadVarBytes: '' @ fieldName @ '' is larger than the max allowed size''))
     else io_ReadFull (unat count))"

definition WriteVarBytes :: "byte list \<Rightarrow> byte list \<Rightarrow> byte list" where
  "WriteVarBytes w bytes = WriteVarInt w (of_nat (length bytes)) @ bytes"

section \<open>Transaction metadata\<close>

type_synonym address = "byte list"

type_synonym QueueOrigin = "8 word"

definition QueueOriginSequencer :: QueueOrigin where
  "QueueOriginSequencer = 0"

definition QueueOriginL1ToL2 :: QueueOrigin where
  "QueueOriginL1ToL2 = 1"

definition QueueOrigin_String :: "QueueOrigin \<Rightarrow> string" where
  "QueueOrigin_String q =
     (if q = QueueOriginSequencer then ''sequencer'' else if q = QueueOriginL1ToL2 then ''l1'' else '''')"

text \<open>\<open>None\<close> is a nil pointer or a nil slice.\<close>

record TransactionMeta =
  m_L1BlockNumber :: "int option"
  m_L1Timestamp :: u64
  m_L1MessageSender :: "address option"
  m_QueueOrigin :: QueueOrigin
  m_Index :: "u64 option"
  m_QueueIndex :: "u64 option"
  m_RawTransaction :: "byte list option"

definition nullValue :: "byte list" where
  "nullValue = [0]"

definition isNullValue :: "byte list \<Rightarrow> bool" where
  "isNullValue b = (b = nullValue)"

definition zeroAddress :: address where
  "zeroAddress = replicate 20 0"

text \<open>\<open>binary.Read\<close> into a 20-byte address or an eight-byte integer; its error on a short input is
  ignored by the caller, and the target keeps its zero value.\<close>

definition readAddress :: "byte list \<Rightarrow> address" where
  "readAddress b = (if length b < 20 then zeroAddress else take 20 b)"

definition readTimestamp :: "byte list \<Rightarrow> u64" where
  "readTimestamp b = (if length b < 8 then 0 else le_val (take 8 b))"

definition TxMetaDecode :: "byte list \<Rightarrow> TransactionMeta res" where
  "TxMetaDecode input = fst (
     bindM (ReadVarBytes 1024 ''l1BlockNumber'') (\<lambda>lb.
     let l1BlockNumber = (if isNullValue lb then None else Some (int (big_val lb))) in
     bindM (ReadVarBytes 1024 ''L1MessageSender'') (\<lambda>mb.
     let l1MessageSender = (if isNullValue mb then None else Some (readAddress mb)) in
     bindM (ReadVarBytes 1024 ''QueueOrigin'') (\<lambda>qo.
     let queueOrigin = (if isNullValue qo then 0 else ucast (of_nat (big_val qo) :: u64)) in
     bindM (ReadVarBytes 1024 ''L1Timestamp'') (\<lambda>l.
     let l1Timestamp = readTimestamp l in
     bindM (ReadVarBytes 1024 ''Index'') (\<lambda>i.
     let index = (if isNullValue i then None else Some (of_nat (big_val i))) in
     bindM (ReadVarBytes 1024 ''QueueIndex'') (\<lambda>qi.
     let queueIndex = (if isNullValue qi then None else Some (of_nat (big_val qi))) in
     bindM (ReadVarBytes 130000 ''RawTransaction'') (\<lambda>raw.
     let rawTransaction = (if isNullValue raw then None else Some raw) in
     retM \<lparr>m_L1BlockNumber = l1BlockNumber, m_L1Timestamp = l1Timestamp,
       m_L1MessageSender = l1MessageSender, m_QueueOrigin = queueOrigin, m_Index = index,
       m_QueueIndex = queueIndex, m_RawTransaction = rawTransaction\<rparr>)))))))
     (bytes_reader input))"

definition TxMetaEncode :: "TransactionMeta \<Rightarrow> byte list" where
  "TxMetaEncode meta =
     (let b = [];
          b = WriteVarBytes b (case m_L1BlockNumber meta of None \<Rightarrow> nullValue | Some n \<Rightarrow> big_bytes (nat \<bar>n\<bar>));
          b = WriteVarBytes b (case m_L1MessageSender meta of None \<Rightarrow> nullValue | Some a \<Rightarrow> a);
          b = WriteVarBytes b [m_QueueOrigin meta];
          b = WriteVarBytes b (le_bytes 8 (m_L1Timestamp meta));
          b = WriteVarBytes b (case m_Index meta of None \<Rightarrow> nullValue | Some i \<Rightarrow> big_bytes (unat i));
          b = WriteVarBytes b (case m_QueueIndex meta of None \<Rightarrow> nullValue | Some i \<Rightarrow> big_bytes (unat i));
          b = WriteVarBytes b (case m_RawTransaction meta of None \<Rightarrow> nullValue | Some r \<Rightarrow> r)
      in b)"

section \<open>Transactions\<close>

text \<open>\<open>txdata\<close> and the metadata; the memo fields (hash, size, sender) hold nothing of their own.\<close>

record Transaction =
  tx_AccountNonce :: u64
  tx_Price :: int
  tx_GasLimit :: u64
  tx_Recipient :: "address option"
  tx_Amount :: int
  tx_Payload :: "byte list"
  tx_V :: int
  tx_R :: int
  tx_S :: int
  tx_meta :: TransactionMeta

definition NewTransactionMeta :: "int option \<Rightarrow> u64 \<Rightarrow> address option \<Rightarrow> QueueOrigin \<Rightarrow> u64 option
    \<Rightarrow> u64 option \<Rightarrow> byte list option \<Rightarrow> TransactionMeta" where
  "NewTransactionMeta l1BlockNumber l1timestamp l1MessageSender queueOrigin index queueIndex rawTransaction =
     \<lparr>m_L1BlockNumber = l1BlockNumber, m_L1Timestamp = l1timestamp, m_L1MessageSender = l1MessageSender,
      m_QueueOrigin = queueOrigin, m_Index = index, m_QueueIndex = queueIndex,
      m_RawTransaction = rawTransaction\<rparr>"

definition newTransaction :: "u64 \<Rightarrow> address option \<Rightarrow> int option \<Rightarrow> u64 \<Rightarrow> int option \<Rightarrow> byte list \<Rightarrow> Transaction" where
  "newTransaction nonce to amount gasLimit gasPrice data =
     \<lparr>tx_AccountNonce = nonce, tx_Price = (case gasPrice of None \<Rightarrow> 0 | Some g \<Rightarrow> g), tx_GasLimit = gasLimit,
      tx_Recipient = to, tx_Amount = (case amount of None \<Rightarrow> 0 | Some a \<Rightarrow> a), tx_Payload = data,
      tx_V = 0, tx_R = 0, tx_S = 0,
      tx_meta = NewTransactionMeta None 0 None QueueOriginSequencer None None None\<rparr>"

definition NewTransaction :: "u64 \<Rightarrow> address \<Rightarrow> int option \<Rightarrow> u64 \<Rightarrow> int option \<Rightarrow> byte list \<Rightarrow> Transaction" where
  "NewTransaction nonce to amount gasLimit gasPrice data = newTransaction nonce (Some to) amount gasLimit gasPrice data"

definition NewContractCreation :: "u64 \<Rightarrow> int option \<Rightarrow> u64 \<Rightarrow> int option \<Rightarrow> byte list \<Rightarrow> Transaction" where
  "NewContractCreation nonce amount gasLimit gasPrice data = newTransaction nonce None amount gasLimit gasPrice data"

definition SetTransactionMeta :: "TransactionMeta option \<Rightarrow> Transaction \<Rightarrow> Transaction" where
  "SetTransactionMeta meta t = (case meta of None \<Rightarrow> t | Some m \<Rightarrow> t\<lparr>tx_meta := m\<rparr>)"

definition SetIndex :: "u64 \<Rightarrow> Transaction \<Rightarrow> Transaction" where
  "SetIndex index t = t\<lparr>tx_meta := (tx_meta t)\<lparr>m_Index := Some index\<rparr>\<rparr>"

definition SetL1Timestamp :: "u64 \<Rightarrow> Transaction \<Rightarrow> Transaction" where
  "SetL1Timestamp ts t = t\<lparr>tx_meta := (tx_meta t)\<lparr>m_L1Timestamp := ts\<rparr>\<rparr>"

definition L1Timestamp :: "Transaction \<Rightarrow> u64" where
  "L1Timestamp t = m_L1Timestamp (tx_meta t)"

definition SetL1BlockNumber :: "u64 \<Rightarrow> Transaction \<Rightarrow> Transaction" where
  "SetL1BlockNumber bn t = t\<lparr>tx_meta := (tx_meta t)\<lparr>m_L1BlockNumber := Some (uint bn)\<rparr>\<rparr>"

definition L1BlockNumber :: "Transaction \<Rightarrow> int option" where
  "L1BlockNumber t = m_L1BlockNumber (tx_meta t)"

definition tx_QueueOrigin :: "Transaction \<Rightarrow> QueueOrigin" where
  "tx_QueueOrigin t = m_QueueOrigin (tx_meta t)"

definition L1MessageSender :: "Transaction \<Rightarrow> address option" where
  "L1MessageSender t = m_L1MessageSender (tx_meta t)"

text \<open>\<open>big.Int.Uint64\<close> keeps the low 64 bits of the absolute value.\<close>

definition big_Uint64 :: "int \<Rightarrow> u64" where
  "big_Uint64 n = of_nat (nat \<bar>n\<bar>)"

lemma big_Uint64_uint [simp]: "big_Uint64 (uint v) = v"
  by (simp add: big_Uint64_def flip: unat_eq_nat_uint)

lemmas tx_access = SetIndex_def SetL1Timestamp_def SetL1BlockNumber_def L1Timestamp_def L1BlockNumber_def
  tx_QueueOrigin_def L1MessageSender_def


section \<open>Round trips\<close>

lemma length_le_bytes [simp]: "length (le_bytes n v) = n"
  by (simp add: le_bytes_def)

lemma le_val_bytes: "unat v < 2 ^ (8 * n) \<Longrightarrow> le_val (le_bytes n v) = v"
  by (simp add: le_val_def le_bytes_def be_val_bytes take_bit_small)

lemma WriteVarInt_app: "WriteVarInt w v = w @ WriteVarInt [] v"
  by (simp add: WriteVarInt_def putUint8_def putUint16_def putUint32_def putUint64_def)

lemma getUint8_Cons: "r_buf r = b # rest \<Longrightarrow> bindM getUint8 f r = f b (r\<lparr>r_buf := rest\<rparr>)"
  using io_ReadFull_buf [of r "[b]" rest 1] by (simp add: getUint8_def bindM_def res_simps)

lemma getUint_le:
  "r_buf r = le_bytes 2 v @ rest \<Longrightarrow> unat v < 2 ^ 16 \<Longrightarrow> bindM getUint16 f r = f v (r\<lparr>r_buf := rest\<rparr>)"
  "r_buf r = le_bytes 4 v @ rest \<Longrightarrow> unat v < 2 ^ 32 \<Longrightarrow> bindM getUint32 f r = f v (r\<lparr>r_buf := rest\<rparr>)"
  "r_buf r = le_bytes 8 v @ rest \<Longrightarrow> unat v < 2 ^ 64 \<Longrightarrow> bindM getUint64 f r = f v (r\<lparr>r_buf := rest\<rparr>)"
  by (simp_all add: getUint16_def getUint32_def getUint64_def bindM_def res_simps
      io_ReadFull_buf le_val_bytes)

lemma small_byte:
  assumes "(v :: u64) < 0xfd"
  shows "ucast (ucast v :: byte) = v" and "ucast v < (0xfd :: byte)"
proof -
  have "unat v < 0xfd" using assms by (simp add: word_less_nat_alt)
  then have b: "unat (ucast v :: byte) = unat v"
    by (simp add: unsigned_ucast_eq take_bit_eq_mod)
  have "take_bit 8 v = v" by (rule take_bit_small) (use \<open>unat v < 0xfd\<close> in simp)
  then show "ucast (ucast v :: byte) = v"
    by (simp add: word_unat_eq_iff unsigned_ucast_eq)
  show "ucast v < (0xfd :: byte)" by (simp add: word_less_nat_alt b \<open>unat v < 0xfd\<close>)
qed

lemma ReadVarInt_wire:
  assumes r: "r_buf r = WriteVarInt [] v @ rest"
  shows "ReadVarInt r = (Ok v, r\<lparr>r_buf := rest\<rparr>)"
proof -
  consider "v < 0xfd" | "\<not> v < 0xfd" "v \<le> 0xffff" | "\<not> v \<le> 0xffff" "v \<le> 0xffffffff"
    | "\<not> v \<le> 0xffffffff" by blast
  then show ?thesis
  proof cases
    case 1
    with r have "r_buf r = ucast v # rest" by (simp add: WriteVarInt_def putUint8_def)
    with 1 small_byte [of v] show ?thesis
      by (auto simp: ReadVarInt_def getUint8_Cons res_simps)
  next
    case 2
    with r have "r_buf r = 0xfd # le_bytes 2 v @ rest"
      by (simp add: WriteVarInt_def putUint8_def putUint16_def)
    with 2 show ?thesis
      by (simp add: ReadVarInt_def getUint8_Cons getUint_le word_le_nat_alt res_simps)
  next
    case 3
    then have "\<not> v < 0xfd" by (auto simp: word_less_nat_alt word_le_nat_alt)
    with 3 r have "r_buf r = 0xfe # le_bytes 4 v @ rest"
      by (simp add: WriteVarInt_def putUint8_def putUint32_def)
    with 3 show ?thesis
      by (simp add: ReadVarInt_def getUint8_Cons getUint_le word_le_nat_alt word_less_nat_alt res_simps)
  next
    case 4
    then have "\<not> v < 0xfd" and "\<not> v \<le> 0xffff" by (auto simp: word_less_nat_alt word_le_nat_alt)
    with 4 r have "r_buf r = 0xff # le_bytes 8 v @ rest"
      by (simp add: WriteVarInt_def putUint8_def putUint64_def)
    with 4 show ?thesis
      using unsigned_less [of v, where 'a = nat]
      by (simp add: ReadVarInt_def getUint8_Cons getUint_le word_le_nat_alt word_less_nat_alt res_simps)
  qed
qed

interpretation varint: wire_reader ReadVarInt "\<lambda>_. True" "WriteVarInt []"
  by unfold_locales (rule ReadVarInt_wire)

lemma varbytes_reader:
  assumes "unat m < 2 ^ 32"
  shows "wire_reader (ReadVarBytes m name) (\<lambda>bs. length bs \<le> unat m) (WriteVarBytes [])"
proof
  fix r :: reader and bs rest
  assume r: "r_buf r = WriteVarBytes [] bs @ rest" and len: "length bs \<le> unat m"
  then have n: "unat (of_nat (length bs) :: u64) = length bs"
    using assms by (simp add: unat_of_nat)
  have "\<not> m < of_nat (length bs)" using len by (simp add: word_less_nat_alt n)
  moreover have "r_buf r = WriteVarInt [] (of_nat (length bs)) @ bs @ rest"
    using r by (simp add: WriteVarBytes_def)
  ultimately show "ReadVarBytes m name r = (Ok bs, r\<lparr>r_buf := rest\<rparr>)"
    by (simp add: ReadVarBytes_def varint.get_then n io_ReadFull_buf)
qed

interpretation field: wire_reader "ReadVarBytes 1024 name" "\<lambda>bs. length bs \<le> unat (1024 :: u64)" "WriteVarBytes []"
  for name by (rule varbytes_reader) simp

interpretation rawtx: wire_reader "ReadVarBytes 130000 name" "\<lambda>bs. length bs \<le> unat (130000 :: u64)" "WriteVarBytes []"
  for name by (rule varbytes_reader) simp

lemma WriteVarBytes_app: "WriteVarBytes w bs = w @ WriteVarBytes [] bs"
  using WriteVarInt_app [of w] by (simp add: WriteVarBytes_def)

text \<open>every 64-bit value survives the variable-length encoding: \<open>ReadVarInt\<close> returns what
  \<open>WriteVarInt\<close> wrote, consumes exactly those bytes, and their number is \<open>VarIntSerializeSize\<close>.\<close>

theorem varint_roundtrip:
  "ReadVarInt (bytes_reader (WriteVarInt [] v @ rest)) = (Ok v, bytes_reader rest)
     \<and> length (WriteVarInt [] v) = VarIntSerializeSize v"
proof
  show "length (WriteVarInt [] v) = VarIntSerializeSize v"
    by (simp add: WriteVarInt_def VarIntSerializeSize_def putUint8_def putUint16_def putUint32_def putUint64_def)
qed (rule varint.get_bytes_reader [OF TrueI])

text \<open>The metadata that the codec carries faithfully: a block number that is not negative and not
  absurdly long, a 20-byte sender, and a raw transaction of at most 130000 bytes that is not the
  one byte reserved for nil.\<close>

definition meta_ok :: "TransactionMeta \<Rightarrow> bool" where
  "meta_ok m \<longleftrightarrow>
     (case m_L1BlockNumber m of None \<Rightarrow> True | Some n \<Rightarrow> 0 \<le> n \<and> length (big_bytes (nat n)) \<le> 1024) \<and>
     (case m_L1MessageSender m of None \<Rightarrow> True | Some a \<Rightarrow> length a = 20) \<and>
     (case m_RawTransaction m of None \<Rightarrow> True | Some r \<Rightarrow> r \<noteq> nullValue \<and> length r \<le> 130000)"


definition meta_fields :: "TransactionMeta \<Rightarrow> byte list list" where
  "meta_fields m =
     [case m_L1BlockNumber m of None \<Rightarrow> nullValue | Some n \<Rightarrow> big_bytes (nat \<bar>n\<bar>),
      case m_L1MessageSender m of None \<Rightarrow> nullValue | Some a \<Rightarrow> a,
      [m_QueueOrigin m],
      le_bytes 8 (m_L1Timestamp m),
      case m_Index m of None \<Rightarrow> nullValue | Some i \<Rightarrow> big_bytes (unat i),
      case m_QueueIndex m of None \<Rightarrow> nullValue | Some i \<Rightarrow> big_bytes (unat i),
      case m_RawTransaction m of None \<Rightarrow> nullValue | Some r \<Rightarrow> r]"

lemma TxMetaEncode_fields: "TxMetaEncode m = concat (map (WriteVarBytes []) (meta_fields m))"
  by (simp add: TxMetaEncode_def Let_def meta_fields_def
      WriteVarBytes_app [of "WriteVarBytes x y" for x y] WriteVarBytes_app [of "x @ y" for x y])

lemma read_index_field:
  "(if isNullValue (case x of None \<Rightarrow> nullValue | Some i \<Rightarrow> big_bytes (unat i)) then None
    else Some (of_nat (big_val (case x of None \<Rightarrow> nullValue | Some i \<Rightarrow> big_bytes (unat i))))) = (x :: u64 option)"
  "length (case x of None \<Rightarrow> nullValue | Some i \<Rightarrow> big_bytes (unat i)) \<le> 1024"
  by (auto simp: isNullValue_def nullValue_def split: option.split intro: order_trans [OF length_big_bytes_u64])

lemma read_origin_field:
  "(if isNullValue [q] then 0 else ucast (of_nat (big_val [q]) :: u64)) = (q :: QueueOrigin)"
proof -
  have "ucast (ucast q :: u64) = q" by (rule bit_word_eqI) (auto simp: bit_simps)
  then show ?thesis by (auto simp: isNullValue_def nullValue_def big_val_def)
qed

lemma read_timestamp_field: "readTimestamp (le_bytes 8 v) = v"
  using unsigned_less [of v, where 'a = nat] by (simp add: readTimestamp_def le_val_bytes)

lemma TxMetaDecode_fields:
  assumes "\<forall>f \<in> set [lb, mb, qo, l, i, qi]. length f \<le> 1024" and "length raw \<le> 130000"
  shows "TxMetaDecode (concat (map (WriteVarBytes []) [lb, mb, qo, l, i, qi, raw])) =
    Ok \<lparr>m_L1BlockNumber = (if isNullValue lb then None else Some (int (big_val lb))),
      m_L1Timestamp = readTimestamp l,
      m_L1MessageSender = (if isNullValue mb then None else Some (readAddress mb)),
      m_QueueOrigin = (if isNullValue qo then 0 else ucast (of_nat (big_val qo) :: u64)),
      m_Index = (if isNullValue i then None else Some (of_nat (big_val i))),
      m_QueueIndex = (if isNullValue qi then None else Some (of_nat (big_val qi))),
      m_RawTransaction = (if isNullValue raw then None else Some raw)\<rparr>"
  using assms
  by (simp add: TxMetaDecode_def Let_def bytes_reader_def field.get_then rawtx.get_then [of _ raw "[]"] retM_def)


lemma read_sender_field:
  "length a = 20 \<Longrightarrow> (if isNullValue a then None else Some (readAddress a)) = Some a"
  by (auto simp: isNullValue_def nullValue_def readAddress_def)

lemma meta_fields_fit:
  assumes "meta_ok m"
  obtains lb mb qo l i qi raw where "meta_fields m = [lb, mb, qo, l, i, qi, raw]"
    and "\<forall>f \<in> set [lb, mb, qo, l, i, qi]. length f \<le> 1024" and "length raw \<le> 130000"
proof
  show "\<forall>f \<in> set [case m_L1BlockNumber m of None \<Rightarrow> nullValue | Some n \<Rightarrow> big_bytes (nat \<bar>n\<bar>),
      case m_L1MessageSender m of None \<Rightarrow> nullValue | Some a \<Rightarrow> a, [m_QueueOrigin m], le_bytes 8 (m_L1Timestamp m),
      case m_Index m of None \<Rightarrow> nullValue | Some i \<Rightarrow> big_bytes (unat i),
      case m_QueueIndex m of None \<Rightarrow> nullValue | Some i \<Rightarrow> big_bytes (unat i)]. length f \<le> 1024"
    using assms read_index_field(2) by (auto simp: meta_ok_def nullValue_def split: option.splits)
  show "length (case m_RawTransaction m of None \<Rightarrow> nullValue | Some r \<Rightarrow> r) \<le> 130000"
    using assms by (simp add: meta_ok_def nullValue_def split: option.splits)
qed (simp add: meta_fields_def)

lemma meta_decode_encode:
  assumes "meta_ok m"
  shows "TxMetaDecode (TxMetaEncode m) = Ok m"
proof -
  obtain lb mb qo l i qi raw where f: "meta_fields m = [lb, mb, qo, l, i, qi, raw]"
    and fit: "\<forall>f \<in> set [lb, mb, qo, l, i, qi]. length f \<le> 1024" "length raw \<le> 130000"
    using meta_fields_fit [OF assms] .
  have lb: "lb = (case m_L1BlockNumber m of None \<Rightarrow> nullValue | Some n \<Rightarrow> big_bytes (nat \<bar>n\<bar>))"
    and mb: "mb = (case m_L1MessageSender m of None \<Rightarrow> nullValue | Some a \<Rightarrow> a)"
    and i: "i = (case m_Index m of None \<Rightarrow> nullValue | Some i \<Rightarrow> big_bytes (unat i))"
    and qi: "qi = (case m_QueueIndex m of None \<Rightarrow> nullValue | Some i \<Rightarrow> big_bytes (unat i))"
    and rw: "raw = (case m_RawTransaction m of None \<Rightarrow> nullValue | Some r \<Rightarrow> r)"
    using f by (simp_all add: meta_fields_def)
  have num: "(if isNullValue lb then None else Some (int (big_val lb))) = m_L1BlockNumber m"
    using assms by (cases "m_L1BlockNumber m") (auto simp: lb meta_ok_def isNullValue_def nullValue_def)
  have snd: "(if isNullValue mb then None else Some (readAddress mb)) = m_L1MessageSender m"
    using assms read_sender_field [of mb]
    by (cases "m_L1MessageSender m") (simp_all add: mb meta_ok_def isNullValue_def)
  have raw: "(if isNullValue raw then None else Some raw) = m_RawTransaction m"
    using assms by (cases "m_RawTransaction m") (simp_all add: rw meta_ok_def isNullValue_def)
  have idx: "(if isNullValue i then None else Some (of_nat (big_val i))) = m_Index m"
    "(if isNullValue qi then None else Some (of_nat (big_val qi))) = m_QueueIndex m"
    by (simp_all only: i qi read_index_field(1))
  have "qo = [m_QueueOrigin m]" and "l = le_bytes 8 (m_L1Timestamp m)" using f by (simp_all add: meta_fields_def)
  then show ?thesis
    using TxMetaDecode_fields [OF fit]
    by (simp only: TxMetaEncode_fields f num snd raw idx read_origin_field read_timestamp_field) simp
qed

text \<open>C28: metadata written to the database is read back unchanged: \<open>TxMetaDecode\<close> inverts
  \<open>TxMetaEncode\<close> on every record with a non-negative block number, a 20-byte sender and a raw
  transaction of at most 130000 bytes other than the reserved null byte.\<close>

theorem meta_roundtrip:
  assumes "meta_ok m"
  shows "TxMetaDecode (TxMetaEncode m) = Ok m"
  by (rule meta_decode_encode [OF assms])

theorem meta_roundtrip_witness:
  "TxMetaDecode (TxMetaEncode \<lparr>m_L1BlockNumber = Some 12000000, m_L1Timestamp = 1600000000,
      m_L1MessageSender = Some (replicate 20 7), m_QueueOrigin = QueueOriginL1ToL2, m_Index = Some 0,
      m_QueueIndex = None, m_RawTransaction = Some [0, 1]\<rparr>) =
   Ok \<lparr>m_L1BlockNumber = Some 12000000, m_L1Timestamp = 1600000000,
      m_L1MessageSender = Some (replicate 20 7), m_QueueOrigin = QueueOriginL1ToL2, m_Index = Some 0,
      m_QueueIndex = None, m_RawTransaction = Some [0, 1]\<rparr>"
  by (rule meta_roundtrip)
    (simp add: meta_ok_def nullValue_def order_trans [OF length_big_bytes_le [where k = 4]])

text \<open>the null byte of the codec is ambiguous: a raw transaction that is the single byte 0 is
  stored exactly as a missing one, and is read back as missing.\<close>

theorem meta_null_collision:
  assumes "meta_ok (m\<lparr>m_RawTransaction := None\<rparr>)"
  shows "TxMetaEncode (m\<lparr>m_RawTransaction := Some [0]\<rparr>) = TxMetaEncode (m\<lparr>m_RawTransaction := None\<rparr>)
    \<and> TxMetaDecode (TxMetaEncode (m\<lparr>m_RawTransaction := Some [0]\<rparr>)) = Ok (m\<lparr>m_RawTransaction := None\<rparr>)"
proof -
  have eq: "TxMetaEncode (m\<lparr>m_RawTransaction := Some [0]\<rparr>) = TxMetaEncode (m\<lparr>m_RawTransaction := None\<rparr>)"
    by (simp add: TxMetaEncode_fields meta_fields_def nullValue_def)
  show ?thesis by (simp only: eq meta_decode_encode [OF assms])
qed

definition sample_meta :: TransactionMeta where
  "sample_meta = NewTransactionMeta (Some 5) 9 None QueueOriginSequencer (Some 3) None None"

theorem meta_null_collision_witness:
  "TxMetaEncode (sample_meta\<lparr>m_RawTransaction := Some [0]\<rparr>) = TxMetaEncode (sample_meta\<lparr>m_RawTransaction := None\<rparr>)
    \<and> TxMetaDecode (TxMetaEncode (sample_meta\<lparr>m_RawTransaction := Some [0]\<rparr>)) = Ok (sample_meta\<lparr>m_RawTransaction := None\<rparr>)"
  by (rule meta_null_collision)
    (simp add: meta_ok_def sample_meta_def NewTransactionMeta_def order_trans [OF length_big_bytes_le [where k = 1]])

end
