(* ===== verification/Sequencer_Batch.thy ===== *)
theory Sequencer_Batch
  imports Batch_Encoding Tx_Meta
begin

text \<open>
  The construction of a batch from L2 blocks (\<open>batch-submitter/drivers/sequencer/batch.go\<close>): the
  batch element of a block, the grouping of the elements into batch contexts and the parameters
  of the batch. A reference grouping, \<open>runs\<close>, cuts the elements where two neighbours may not
  share a context; the loop of the code computes it, its contexts describe the elements exactly,
  and no shorter list of contexts does.
\<close>

section \<open>Batch elements\<close>

record L2Block =
  blk_number :: int
  blk_time :: u64
  blk_root :: "byte list"
  blk_gasUsed :: u64
  blk_txs :: "Transaction list"

record 'tx BatchElement =
  el_Timestamp :: u64
  el_BlockNumber :: u64
  el_Tx :: "'tx CachedTx option"

definition IsSequencerTx :: "'tx BatchElement \<Rightarrow> bool" where
  "IsSequencerTx b \<longleftrightarrow> el_Tx b \<noteq> None"

definition BatchElementFromBlock :: "(Transaction \<Rightarrow> byte list res) \<Rightarrow> L2Block \<Rightarrow> Transaction BatchElement res" where
  "BatchElementFromBlock enc block = (case blk_txs block of
       [tx] \<Rightarrow>
         bindR (derefR (L1BlockNumber tx)) (\<lambda>n.
         bindR (if tx_QueueOrigin tx = QueueOriginSequencer
                then bindR (NewCachedTx enc tx) (\<lambda>c. Ok (Some c)) else Ok None) (\<lambda>cachedTx.
         Ok \<lparr>el_Timestamp = blk_time block, el_BlockNumber = big_Uint64 n, el_Tx = cachedTx\<rparr>))
     | _ \<Rightarrow> Panic ''attempting to create batch element from block'')"

section \<open>Batch parameters\<close>

definition ErrBlockWithInvalidContext :: goerr where
  "ErrBlockWithInvalidContext = Sentinel ''ErrBlockWithInvalidContext''"

record 'tx groupedBlock =
  sequenced :: "'tx BatchElement list"
  queued :: "'tx BatchElement list"

text \<open>The variables of \<open>GenSequencerBatchParams\<close> that its first loop updates.\<close>

record 'tx gen =
  groupedBlocks :: "'tx groupedBlock list"
  gen_txs :: "'tx CachedTx list"
  lastBlockIsSequencerTx :: bool
  lastTimestamp :: u64
  lastBlockNumber :: u64

definition gen_start :: "'tx gen" where
  "gen_start = \<lparr>groupedBlocks = [], gen_txs = [], lastBlockIsSequencerTx = False,
     lastTimestamp = 0, lastBlockNumber = 0\<rparr>"

definition groupElement :: "'tx BatchElement \<Rightarrow> 'tx gen \<Rightarrow> 'tx gen" where
  "groupElement el g =
     (let needsNewGroupOnSequencerTx =
            (\<not> lastBlockIsSequencerTx g \<or> el_BlockNumber el \<noteq> lastBlockNumber g);
          groups = (if groupedBlocks g = [] \<or> el_Timestamp el \<noteq> lastTimestamp g
              \<or> IsSequencerTx el \<and> needsNewGroupOnSequencerTx
            then groupedBlocks g @ [\<lparr>sequenced = [], queued = []\<rparr>] else groupedBlocks g);
          cur = length groups - 1
      in g\<lparr>groupedBlocks := (case el_Tx el of
               Some _ \<Rightarrow> groups[cur := (groups ! cur)\<lparr>sequenced := sequenced (groups ! cur) @ [el]\<rparr>]
             | None \<Rightarrow> groups[cur := (groups ! cur)\<lparr>queued := queued (groups ! cur) @ [el]\<rparr>]),
           gen_txs := (case el_Tx el of Some t \<Rightarrow> gen_txs g @ [t] | None \<Rightarrow> gen_txs g),
           lastBlockIsSequencerTx := IsSequencerTx el,
           lastTimestamp := el_Timestamp el,
           lastBlockNumber := el_BlockNumber el\<rparr>)"

definition groupContext :: "'tx groupedBlock \<Rightarrow> BatchContext res" where
  "groupContext block =
     (let numSequencedTxs = of_nat (length (sequenced block));
          numSubsequentQueueTxs = of_nat (length (queued block))
      in if numSequencedTxs = 0 \<and> numSubsequentQueueTxs = 0 then Fail ErrBlockWithInvalidContext
         else let first = (if 0 < numSequencedTxs then sequenced block ! 0 else queued block ! 0)
           in Ok \<lparr>NumSequencedTxs = numSequencedTxs, NumSubsequentQueueTxs = numSubsequentQueueTxs,
                  Timestamp = el_Timestamp first, BlockNumber = el_BlockNumber first\<rparr>)"

fun groupContexts :: "'tx groupedBlock list \<Rightarrow> BatchContext list res" where
  "groupContexts [] = Ok []"
| "groupContexts (b # bs) =
     bindR (groupContext b) (\<lambda>c. bindR (groupContexts bs) (\<lambda>cs. Ok (c # cs)))"

definition GenSequencerBatchParams :: "u64 \<Rightarrow> u64 \<Rightarrow> 'tx BatchElement list
    \<Rightarrow> 'tx AppendSequencerBatchParams res" where
  "GenSequencerBatchParams shouldStartAtElement blockOffset batch =
     (let g = fold groupElement batch gen_start in
      bindR (groupContexts (groupedBlocks g)) (\<lambda>contexts.
        Ok \<lparr>ShouldStartAtElement = shouldStartAtElement - blockOffset,
            TotalElementsToAppend = of_nat (length batch),
            Contexts = contexts, Txs = gen_txs g\<rparr>))"

section \<open>The reference grouping\<close>

text \<open>Whether a context has to end between two neighbouring elements.\<close>

definition new_group :: "'tx BatchElement \<Rightarrow> 'tx BatchElement \<Rightarrow> bool" where
  "new_group a b \<longleftrightarrow> el_Timestamp b \<noteq> el_Timestamp a \<or>
     IsSequencerTx b \<and> (\<not> IsSequencerTx a \<or> el_BlockNumber b \<noteq> el_BlockNumber a)"

fun runs :: "'tx BatchElement list \<Rightarrow> 'tx BatchElement list list" where
  "runs [] = []"
| "runs [x] = [[x]]"
| "runs (x # y # ys) = (if new_group x y then [x] # runs (y # ys)
     else (x # hd (runs (y # ys))) # tl (runs (y # ys)))"

definition group_of :: "'tx BatchElement list \<Rightarrow> 'tx groupedBlock" where
  "group_of els = \<lparr>sequenced = filter IsSequencerTx els, queued = filter (\<lambda>e. \<not> IsSequencerTx e) els\<rparr>"

lemma runs_Nil_iff [simp]: "runs xs = [] \<longleftrightarrow> xs = []"
  by (cases xs rule: runs.cases) simp_all

lemma runs_snoc:
  "runs (xs @ [x]) =
     (if xs = [] then [[x]] else if new_group (last xs) x then runs xs @ [[x]]
      else butlast (runs xs) @ [last (runs xs) @ [x]])"
proof (induction xs rule: runs.induct)
  case (3 a b ys)
  have "runs (b # ys) \<noteq> []" by simp
  then obtain r rs where "runs (b # ys) = r # rs" by (cases "runs (b # ys)") auto
  with 3 show ?case by (cases rs) auto
qed auto

lemma concat_runs [simp]: "concat (runs xs) = xs"
proof (induction xs rule: runs.induct)
  case (3 a b ys)
  have "runs (b # ys) \<noteq> []" by simp
  then obtain r rs where "runs (b # ys) = r # rs" by (cases "runs (b # ys)") auto
  with 3 show ?case by auto
qed simp_all

definition smooth :: "'tx BatchElement list \<Rightarrow> bool" where
  "smooth els \<longleftrightarrow> els \<noteq> [] \<and> successively (\<lambda>a b. \<not> new_group a b) els"

lemma runs_smooth: "els \<in> set (runs xs) \<Longrightarrow> smooth els"
proof (induction xs arbitrary: els rule: rev_induct)
  case (snoc x xs)
  show ?case
  proof (cases "xs = [] \<or> new_group (last xs) x")
    case True
    with snoc show ?thesis by (auto simp: runs_snoc smooth_def split: if_splits)
  next
    case False
    then have ne: "runs xs \<noteq> []" by simp
    then have "last (runs xs) \<in> set (runs xs)" by (rule last_in_set)
    then have sm: "smooth (last (runs xs))" by (rule snoc.IH)
    moreover have "last (last (runs xs)) = last xs"
      using sm concat_runs [of xs] append_butlast_last_id [OF ne]
      by (metis concat.simps concat_append last_append smooth_def append_Nil2)
    ultimately have "smooth (last (runs xs) @ [x])"
      using False by (simp add: smooth_def successively_append_iff)
    with snoc False show ?thesis
      by (auto simp: runs_snoc dest: in_set_butlastD)
  qed
qed simp

lemma groupElement_runs:
  assumes "groupedBlocks g = map group_of (runs xs)"
    and "xs \<noteq> [] \<Longrightarrow> lastBlockIsSequencerTx g = IsSequencerTx (last xs) \<and>
      lastTimestamp g = el_Timestamp (last xs) \<and> lastBlockNumber g = el_BlockNumber (last xs)"
  shows "groupedBlocks (groupElement x g) = map group_of (runs (xs @ [x]))"
proof -
  have grp: "group_of (r @ [x]) = (if IsSequencerTx x
      then (group_of r)\<lparr>sequenced := sequenced (group_of r) @ [x]\<rparr>
      else (group_of r)\<lparr>queued := queued (group_of r) @ [x]\<rparr>)" for r
    by (simp add: group_of_def)
  have one: "group_of [x] = (if IsSequencerTx x then \<lparr>sequenced = [x], queued = []\<rparr>
      else \<lparr>sequenced = [], queued = [x]\<rparr>)"
    by (simp add: group_of_def)
  have app: "(gs @ [p])[length gs := q] = gs @ [q]" "(gs @ [p]) ! length gs = p" for gs p and q :: "'a groupedBlock"
    by simp_all
  show ?thesis
  proof (cases "xs = [] \<or> new_group (last xs) x")
    case True
    then have runs_True: "runs (xs @ [x]) = runs xs @ [[x]]" by (auto simp: runs_snoc)
    from True have "groupedBlocks g = [] \<or> el_Timestamp x \<noteq> lastTimestamp g \<or>
        IsSequencerTx x \<and> (\<not> lastBlockIsSequencerTx g \<or> el_BlockNumber x \<noteq> lastBlockNumber g)"
      using assms by (cases "xs = []") (auto simp: new_group_def)
    then show ?thesis
      using runs_True assms(1) one app [of "map group_of (runs xs)"]
      by (cases "el_Tx x") (simp_all add: groupElement_def Let_def IsSequencerTx_def)
  next
    case False
    then obtain rs r where rs: "runs xs = rs @ [r]" by (metis runs_Nil_iff rev_exhaust)
    from False have "\<not> (groupedBlocks g = [] \<or> el_Timestamp x \<noteq> lastTimestamp g \<or>
        IsSequencerTx x \<and> (\<not> lastBlockIsSequencerTx g \<or> el_BlockNumber x \<noteq> lastBlockNumber g))"
      using assms by (auto simp: new_group_def)
    then show ?thesis
      using False assms(1) grp [of r] app [of "map group_of rs" "group_of r"]
      by (cases "el_Tx x") (simp_all add: groupElement_def Let_def runs_snoc IsSequencerTx_def rs)
  qed
qed

lemma groupElement_rest:
  "gen_txs (groupElement x g) = gen_txs g @ List.map_filter el_Tx [x]"
  "lastBlockIsSequencerTx (groupElement x g) = IsSequencerTx x"
  "lastTimestamp (groupElement x g) = el_Timestamp x"
  "lastBlockNumber (groupElement x g) = el_BlockNumber x"
  by (simp_all add: groupElement_def Let_def List.map_filter_simps split: option.split)

lemma gen_runs:
  "groupedBlocks (fold groupElement xs gen_start) = map group_of (runs xs)"
  "gen_txs (fold groupElement xs gen_start) = List.map_filter el_Tx xs"
proof (induction xs rule: rev_induct)
  case Nil
  show "groupedBlocks (fold groupElement [] gen_start) = map group_of (runs [])"
    and "gen_txs (fold groupElement [] gen_start) = List.map_filter el_Tx []"
    by (simp_all add: gen_start_def List.map_filter_simps)
next
  case (snoc x xs)
  have "xs = [] \<or> (\<exists>ys y. xs = ys @ [y])" by (metis rev_exhaust)
  then show "groupedBlocks (fold groupElement (xs @ [x]) gen_start) = map group_of (runs (xs @ [x]))"
    using groupElement_runs [OF snoc(1), of x] by (auto simp: groupElement_rest)
  show "gen_txs (fold groupElement (xs @ [x]) gen_start) = List.map_filter el_Tx (xs @ [x])"
    using snoc(2) by (simp add: groupElement_rest List.map_filter_def)
qed

section \<open>What a list of contexts says of the elements\<close>

text \<open>
  The chain contract walks the contexts in order: of each it takes the sequenced transactions,
  which get the context's timestamp and block number, and then the queued ones.
\<close>

fun describes :: "BatchContext list \<Rightarrow> 'tx BatchElement list \<Rightarrow> bool" where
  "describes [] els \<longleftrightarrow> els = []"
| "describes (c # cs) els \<longleftrightarrow>
     (let s = unat (NumSequencedTxs c); n = s + unat (NumSubsequentQueueTxs c) in
      0 < n \<and> n \<le> length els \<and>
      el_BlockNumber (hd els) = BlockNumber c \<and>
      list_all (\<lambda>e. IsSequencerTx e \<and> el_Timestamp e = Timestamp c \<and> el_BlockNumber e = BlockNumber c)
        (take s els) \<and>
      list_all (\<lambda>e. \<not> IsSequencerTx e \<and> el_Timestamp e = Timestamp c) (drop s (take n els)) \<and>
      describes cs (drop n els))"

lemma smooth_Cons: "smooth (x # y # ys) \<longleftrightarrow> \<not> new_group x y \<and> smooth (y # ys)"
  by (simp add: smooth_def)

lemma smooth_same:
  assumes "smooth els" and "e \<in> set els"
  shows "el_Timestamp e = el_Timestamp (hd els) \<and>
    (IsSequencerTx e \<longrightarrow> IsSequencerTx (hd els) \<and> el_BlockNumber e = el_BlockNumber (hd els))"
  using assms
proof (induction els rule: induct_list012)
  case (3 x y ys)
  show ?case
  proof (cases "e = x")
    case False
    have sm: "smooth (y # ys)" and nb: "\<not> new_group x y" using 3(3) by (simp_all add: smooth_Cons)
    have "e \<in> set (y # ys)" using 3(4) False by simp
    from 3(2) [OF sm this] nb show ?thesis by (simp only: new_group_def list.sel) metis
  qed simp
qed (simp_all add: smooth_def)

lemma smooth_split:
  "smooth els \<Longrightarrow> filter IsSequencerTx els @ filter (\<lambda>e. \<not> IsSequencerTx e) els = els"
proof (induction els rule: induct_list012)
  case (3 x y ys)
  show ?case
  proof (cases "IsSequencerTx x")
    case True
    have "smooth (y # ys)" using 3(3) by (simp add: smooth_Cons)
    from 3(2) [OF this] True show ?thesis
      by (simp only: filter.simps(2) [of _ x "y # ys"] if_True not_True_eq_False if_False append_Cons)
  next
    case False
    then have no: "\<forall>e \<in> set (x # y # ys). \<not> IsSequencerTx e"
      using smooth_same [OF 3(3)] by (metis list.sel(1))
    have "filter IsSequencerTx (x # y # ys) = []"
      using no by (simp only: filter_empty_conv)
    moreover have "filter (\<lambda>e. \<not> IsSequencerTx e) (x # y # ys) = x # y # ys"
      using no by (simp only: filter_id_conv)
    ultimately show ?thesis by (simp only: append.simps)
  qed
qed simp_all

text \<open>The context of a run, when its length fits the counters.\<close>

definition run_context :: "'tx BatchElement list \<Rightarrow> BatchContext" where
  "run_context els = \<lparr>NumSequencedTxs = of_nat (length (filter IsSequencerTx els)),
     NumSubsequentQueueTxs = of_nat (length (filter (\<lambda>e. \<not> IsSequencerTx e) els)),
     Timestamp = el_Timestamp (hd els), BlockNumber = el_BlockNumber (hd els)\<rparr>"

lemma u64_of_nat_0: "n < 2 ^ 64 \<Longrightarrow> (of_nat n :: u64) = 0 \<longleftrightarrow> n = 0"
proof -
  assume "n < 2 ^ 64"
  then have "unat (of_nat n :: u64) = n" by (simp add: unat_of_nat)
  then show ?thesis using unat_eq_zero [of "of_nat n :: u64"] by (simp only:)
qed

lemma groupContext_group:
  assumes "ss @ qs \<noteq> []" and "length (ss @ qs) < 2 ^ 64"
  shows "groupContext \<lparr>sequenced = ss, queued = qs\<rparr> =
    Ok \<lparr>NumSequencedTxs = of_nat (length ss), NumSubsequentQueueTxs = of_nat (length qs),
        Timestamp = el_Timestamp (hd (ss @ qs)), BlockNumber = el_BlockNumber (hd (ss @ qs))\<rparr>"
proof -
  have "(of_nat (length ss) :: u64) = 0 \<longleftrightarrow> ss = []" "(of_nat (length qs) :: u64) = 0 \<longleftrightarrow> qs = []"
    using assms(2) u64_of_nat_0 [of "length ss"] u64_of_nat_0 [of "length qs"] by simp_all
  with assms(1) show ?thesis
    by (cases "ss = []"; cases "qs = []") (simp_all add: groupContext_def Let_def word_gt_0 hd_conv_nth nth_append)
qed

lemma groupContext_run:
  assumes "smooth els" and "length els < 2 ^ 64"
  shows "groupContext (group_of els) = Ok (run_context els)"
proof -
  define ss qs where "ss = filter IsSequencerTx els" and "qs = filter (\<lambda>e. \<not> IsSequencerTx e) els"
  have els: "ss @ qs = els" using smooth_split [OF assms(1)] by (simp add: ss_def qs_def)
  have "ss @ qs \<noteq> []" and "length (ss @ qs) < 2 ^ 64" using assms els by (auto simp: smooth_def)
  from groupContext_group [OF this] show ?thesis
    by (simp add: run_context_def group_of_def flip: ss_def qs_def) (simp add: els)
qed

lemma length_run: "els \<in> set segs \<Longrightarrow> length els \<le> length (concat segs)"
  by (induction segs) auto

lemma groupContexts_runs:
  "list_all (\<lambda>els. smooth els \<and> length els < 2 ^ 64) segs \<Longrightarrow>
   groupContexts (map group_of segs) = Ok (map run_context segs)"
  by (induction segs) (simp_all add: groupContext_run)

lemma runs_fit: "length batch < 2 ^ 64 \<Longrightarrow> list_all (\<lambda>els. smooth els \<and> length els < 2 ^ 64) (runs batch)"
  using length_run [of _ "runs batch"] runs_smooth [of _ batch] by (fastforce simp: list_all_iff)

lemma gen_params:
  assumes "length batch < 2 ^ 64"
  shows "GenSequencerBatchParams start blockOffset batch =
    Ok \<lparr>ShouldStartAtElement = start - blockOffset, TotalElementsToAppend = of_nat (length batch),
        Contexts = map run_context (runs batch), Txs = List.map_filter el_Tx batch\<rparr>"
  by (simp add: GenSequencerBatchParams_def Let_def gen_runs groupContexts_runs [OF runs_fit [OF assms]])

lemma describes_run:
  assumes "smooth els" and "length els < 2 ^ 64" and "describes cs rest"
  shows "describes (run_context els # cs) (els @ rest)"
proof -
  define ss qs where "ss = filter IsSequencerTx els" and "qs = filter (\<lambda>e. \<not> IsSequencerTx e) els"
  have els: "ss @ qs = els" using smooth_split [OF assms(1)] by (simp add: ss_def qs_def)
  have len: "length ss + length qs = length els" using els by (metis length_append)
  have s: "unat (of_nat (length ss) :: u64) = length ss" and q: "unat (of_nat (length qs) :: u64) = length qs"
    using assms(2) len by (simp_all add: unat_of_nat)
  have ne: "els \<noteq> []" using assms(1) by (simp add: smooth_def)
  have c: "NumSequencedTxs (run_context els) = of_nat (length ss)"
    "NumSubsequentQueueTxs (run_context els) = of_nat (length qs)"
    "Timestamp (run_context els) = el_Timestamp (hd els)" "BlockNumber (run_context els) = el_BlockNumber (hd els)"
    by (simp_all add: run_context_def ss_def qs_def)
  have "list_all (\<lambda>e. IsSequencerTx e \<and> el_Timestamp e = el_Timestamp (hd els) \<and>
      el_BlockNumber e = el_BlockNumber (hd els)) ss"
    unfolding list_all_iff ss_def using smooth_same [OF assms(1)] by simp
  moreover have "list_all (\<lambda>e. \<not> IsSequencerTx e \<and> el_Timestamp e = el_Timestamp (hd els)) qs"
    unfolding list_all_iff qs_def using smooth_same [OF assms(1)] by simp
  moreover have "take (length ss) els = ss" and "drop (length ss) els = qs" and "ss = [] \<longrightarrow> qs \<noteq> []"
    using ne by (simp_all flip: els)
  moreover have "length ss - length els = 0" using len by simp
  ultimately show ?thesis
    using assms(3) ne by (simp add: c s q len Let_def)
qed

lemma describes_runs:
  "list_all (\<lambda>els. smooth els \<and> length els < 2 ^ 64) segs \<Longrightarrow>
   describes (map run_context segs) (concat segs)"
proof (induction segs)
  case (Cons els segs)
  then show ?case
    using describes_run [of els "map run_context segs" "concat segs"]
    by (simp del: describes.simps)
qed simp

text \<open>No context reaches over a cut, so a description has at least as many contexts as there are runs.\<close>

lemma runs_append_smooth: "smooth els \<Longrightarrow> length (runs (els @ rest)) \<le> Suc (length (runs rest))"
proof (induction els rule: induct_list012)
  case (2 x)
  then show ?case by (cases rest) auto
next
  case (3 x y ys)
  then show ?case by (simp add: smooth_Cons)
qed (simp add: smooth_def)

lemma successively_all: "(\<And>a b. a \<in> set xs \<Longrightarrow> b \<in> set xs \<Longrightarrow> P a b) \<Longrightarrow> successively P xs"
  by (induction xs rule: induct_list012) auto

lemma described_smooth:
  assumes "list_all (\<lambda>e. IsSequencerTx e \<and> el_Timestamp e = t \<and> el_BlockNumber e = n) ss"
    and "list_all (\<lambda>e. \<not> IsSequencerTx e \<and> el_Timestamp e = t) qs" and "ss @ qs \<noteq> []"
  shows "smooth (ss @ qs)"
proof -
  have "successively (\<lambda>a b. \<not> new_group a b) ss" "successively (\<lambda>a b. \<not> new_group a b) qs"
    using assms by (auto intro!: successively_all simp: new_group_def list_all_iff)
  moreover have "\<not> new_group (last ss) (hd qs)" if "ss \<noteq> []" "qs \<noteq> []"
    using assms that by (simp add: new_group_def list_all_iff)
  ultimately show ?thesis using assms(3) by (auto simp: smooth_def successively_append_iff)
qed

lemma described_runs: "describes cs els \<Longrightarrow> length (runs els) \<le> length cs"
proof (induction cs arbitrary: els)
  case (Cons c cs)
  define s n where "s = unat (NumSequencedTxs c)" and "n = s + unat (NumSubsequentQueueTxs c)"
  have split: "take s els @ drop s (take n els) = take n els"
    by (metis append_take_drop_id le_add1 min_def n_def take_take)
  have "take n els \<noteq> []" using Cons.prems by (auto simp: Let_def s_def n_def)
  then have "smooth (take s els @ drop s (take n els))"
    using Cons.prems split by (intro described_smooth [of "Timestamp c" "BlockNumber c"])
      (simp_all add: Let_def s_def n_def)
  then have "length (runs (take n els @ drop n els)) \<le> Suc (length (runs (drop n els)))"
    unfolding split by (rule runs_append_smooth)
  moreover have "length (runs (drop n els)) \<le> length cs"
    using Cons.prems by (intro Cons.IH) (simp add: Let_def s_def n_def)
  ultimately show ?case by simp
qed simp

section \<open>Properties of the construction\<close>

text \<open>C12: for every list of batch elements \<open>GenSequencerBatchParams\<close> succeeds: the parameters start at
  the given element less the offset, count the elements, carry the sequencer transactions in
  order, and their contexts, read in order, describe exactly these elements.\<close>

theorem batch_describes_elements:
  assumes "length batch < 2 ^ 64"
  shows "\<exists>p. GenSequencerBatchParams start blockOffset batch = Ok p \<and>
    ShouldStartAtElement p = start - blockOffset \<and> unat (TotalElementsToAppend p) = length batch \<and>
    Txs p = List.map_filter el_Tx batch \<and> describes (Contexts p) batch"
  using describes_runs [OF runs_fit [OF assms]] assms by (simp add: gen_params unat_of_nat)

definition sample_element :: "u64 \<Rightarrow> u64 \<Rightarrow> nat option \<Rightarrow> nat BatchElement" where
  "sample_element t n tx = \<lparr>el_Timestamp = t, el_BlockNumber = n,
     el_Tx = map_option (\<lambda>x. \<lparr>ctx_tx = x, ctx_rawTx = [of_nat x]\<rparr>) tx\<rparr>"

definition sample_elements :: "nat BatchElement list" where
  "sample_elements = [sample_element 10 1 (Some 0), sample_element 10 1 (Some 1), sample_element 10 2 None,
     sample_element 10 1 (Some 2), sample_element 11 1 None]"

theorem batch_describes_elements_witness:
  "\<exists>p. GenSequencerBatchParams 7 1 sample_elements = Ok p \<and>
    ShouldStartAtElement p = 7 - 1 \<and> unat (TotalElementsToAppend p) = length sample_elements \<and>
    Txs p = List.map_filter el_Tx sample_elements \<and> describes (Contexts p) sample_elements"
  by (rule batch_describes_elements) (simp add: sample_elements_def)

text \<open>C13: the grouping is optimal: no list of contexts that describes the same elements is shorter than
  the one \<open>GenSequencerBatchParams\<close> returns.\<close>

theorem batch_contexts_minimal:
  assumes "GenSequencerBatchParams start blockOffset batch = Ok p" and "length batch < 2 ^ 64"
    and "describes cs batch"
  shows "length (Contexts p) \<le> length cs"
  using described_runs [OF assms(3)] assms(1) by (auto simp: gen_params [OF assms(2)])

theorem batch_contexts_minimal_witness:
  "length (map run_context (runs sample_elements)) \<le>
     length [\<lparr>NumSequencedTxs = 2, NumSubsequentQueueTxs = 1, Timestamp = 10, BlockNumber = 1\<rparr>,
       \<lparr>NumSequencedTxs = 1, NumSubsequentQueueTxs = 0, Timestamp = 10, BlockNumber = 1\<rparr>,
       \<lparr>NumSequencedTxs = 0, NumSubsequentQueueTxs = 1, Timestamp = 11, BlockNumber = 1\<rparr>]"
  using batch_contexts_minimal [OF gen_params [of sample_elements 7 1], of
      "[\<lparr>NumSequencedTxs = 2, NumSubsequentQueueTxs = 1, Timestamp = 10, BlockNumber = 1\<rparr>,
       \<lparr>NumSequencedTxs = 1, NumSubsequentQueueTxs = 0, Timestamp = 10, BlockNumber = 1\<rparr>,
       \<lparr>NumSequencedTxs = 0, NumSubsequentQueueTxs = 1, Timestamp = 11, BlockNumber = 1\<rparr>]"]
  by (simp add: sample_elements_def sample_element_def IsSequencerTx_def Let_def)

end
