(* ===== verification/Tx_Manager.thy ===== *)
theory Tx_Manager
  imports Go_Prelude "HOL-Library.Sublist"
begin

text \<open>
  The transaction manager of the batch submitter (\<open>bss-core/txmgr/send_state.go\<close> and \<open>txmgr.go\<close>):
  the publication state of a transaction, the polling loop of \<open>waitMined\<close>, and \<open>Send\<close>, whose main
  loop and background publications run concurrently. \<open>Send\<close> is a step relation on the shared
  state; the steps are labelled with the answers of the L1 backend and of the driver's callbacks.

  What the code reads of go-ethereum's transactions and receipts is a record; \<open>ntl\<close> is the text of
  go-ethereum's \<open>core.ErrNonceTooLow\<close>.
\<close>

section \<open>Errors, transactions and receipts\<close>

definition context_Canceled :: goerr where
  "context_Canceled = Sentinel ''context canceled''"

definition ErrReverted :: goerr where
  "ErrReverted = Sentinel ''transaction reverted''"

text \<open>\<open>err.Error()\<close>: the errors of this component are named by their text.\<close>

fun errText :: "goerr \<Rightarrow> string" where
  "errText (Sentinel n) = n"
| "errText (ErrNew m) = m"
| "errText (ErrWrap m e) = m @ '': '' @ errText e"

text \<open>\<open>strings.Contains\<close>\<close>

fun strings_Contains :: "string \<Rightarrow> string \<Rightarrow> bool" where
  "strings_Contains [] sub \<longleftrightarrow> sub = []"
| "strings_Contains (c # s) sub \<longleftrightarrow> take (length sub) (c # s) = sub \<or> strings_Contains s sub"

type_synonym hash = "byte list"

record L1Tx =
  l1_Hash :: hash
  l1_Nonce :: u64
  l1_GasTipCap :: int
  l1_GasFeeCap :: int
  l1_Gas :: u64
  l1_To :: "byte list"
  l1_Data :: "byte list"

record Receipt =
  rc_TxHash :: hash
  rc_Status :: u64
  rc_BlockNumber :: int
  rc_GasUsed :: u64

definition ReceiptStatusFailed :: u64 where
  "ReceiptStatusFailed = 0"

text \<open>\<open>big.Int.Uint64\<close>\<close>

definition block_height :: "Receipt \<Rightarrow> u64" where
  "block_height r = of_nat (nat \<bar>rc_BlockNumber r\<bar>)"

section \<open>The publication state\<close>

record SendState =
  minedTxs :: "hash list"
  nonceTooLowCount :: u64
  safeAbortNonceTooLowCount :: u64

definition NewSendState :: "u64 \<Rightarrow> SendState res" where
  "NewSendState safeAbort =
     (if safeAbort = 0 then Panic ''txmgr: safeAbortNonceTooLowCount cannot be zero''
      else Ok \<lparr>minedTxs = [], nonceTooLowCount = 0, safeAbortNonceTooLowCount = safeAbort\<rparr>)"

definition ProcessSendError :: "string \<Rightarrow> goerr option \<Rightarrow> SendState \<Rightarrow> SendState" where
  "ProcessSendError ntl err s = (case err of
       None \<Rightarrow> s
     | Some e \<Rightarrow>
         if \<not> strings_Contains (errText e) ntl then s
         else s\<lparr>nonceTooLowCount := nonceTooLowCount s + 1\<rparr>)"

text \<open>The set of mined hashes is a map to empty structs: a list without repetitions here.\<close>

definition TxMined :: "hash \<Rightarrow> SendState \<Rightarrow> SendState" where
  "TxMined txHash s = s\<lparr>minedTxs := List.insert txHash (minedTxs s)\<rparr>"

definition TxNotMined :: "hash \<Rightarrow> SendState \<Rightarrow> SendState" where
  "TxNotMined txHash s =
     (let wasMined = (txHash \<in> set (minedTxs s));
          mined = removeAll txHash (minedTxs s)
      in s\<lparr>minedTxs := mined,
           nonceTooLowCount := (if length mined = 0 \<and> wasMined then 0 else nonceTooLowCount s)\<rparr>)"

definition ShouldAbortImmediately :: "SendState \<Rightarrow> bool" where
  "ShouldAbortImmediately s =
     (if length (minedTxs s) > 0 then False
      else nonceTooLowCount s \<ge> safeAbortNonceTooLowCount s)"

definition IsWaitingForConfirmation :: "SendState \<Rightarrow> bool" where
  "IsWaitingForConfirmation s = (length (minedTxs s) > 0)"

section \<open>The transaction manager\<close>

record TxmgrConfig =
  NumConfirmations :: u64
  SafeAbortNonceTooLowCount :: u64

definition NewSimpleTxManager :: "TxmgrConfig \<Rightarrow> TxmgrConfig res" where
  "NewSimpleTxManager cfg =
     (if NumConfirmations cfg = 0 then Panic ''txmgr: NumConfirmations cannot be zero'' else Ok cfg)"

definition CalcGasFeeCap :: "int \<Rightarrow> int \<Rightarrow> int" where
  "CalcGasFeeCap baseFee gasTipCap = gasTipCap + baseFee * 2"

text \<open>The confirmation test of \<open>waitMined\<close>, in 64-bit arithmetic.\<close>

definition isConfirmed :: "u64 \<Rightarrow> Receipt \<Rightarrow> u64 \<Rightarrow> bool" where
  "isConfirmed numConfirmations receipt tipHeight \<longleftrightarrow>
     block_height receipt + numConfirmations \<le> tipHeight + 1"

text \<open>
  One round of \<open>waitMined\<close>: the answers of \<open>TransactionReceipt\<close> and of \<open>BlockNumber\<close> (asked only when
  there is a receipt), and the error of the context when the wait ends by its cancellation.
\<close>

record waitRound =
  wr_receipt :: "Receipt option"
  wr_err :: "goerr option"
  wr_tip :: "goerr + u64"
  wr_done :: "goerr option"

definition onState :: "(SendState \<Rightarrow> SendState) \<Rightarrow> SendState option \<Rightarrow> SendState option" where
  "onState f sendState = map_option f sendState"

text \<open>\<open>None\<close>: the answers given so far leave \<open>waitMined\<close> waiting.\<close>

fun waitMined :: "u64 \<Rightarrow> L1Tx \<Rightarrow> SendState option \<Rightarrow> waitRound list
    \<Rightarrow> ((goerr + Receipt) \<times> SendState option) option" where
  "waitMined numConfirmations tx sendState [] = None"
| "waitMined numConfirmations tx sendState (r # rs) =
     (let again = (\<lambda>sendState. case wr_done r of
              Some e \<Rightarrow> Some (Inl e, sendState)
            | None \<Rightarrow> waitMined numConfirmations tx sendState rs)
      in case wr_receipt r of
           Some receipt \<Rightarrow>
             (let sendState = onState (TxMined (l1_Hash tx)) sendState in
              case wr_tip r of
                Inl _ \<Rightarrow> again sendState
              | Inr tipHeight \<Rightarrow>
                  if isConfirmed numConfirmations receipt tipHeight then Some (Inr receipt, sendState)
                  else again sendState)
         | None \<Rightarrow> (case wr_err r of
             Some _ \<Rightarrow> again sendState
           | None \<Rightarrow> again (onState (TxNotMined (l1_Hash tx)) sendState)))"

definition WaitMined :: "u64 \<Rightarrow> L1Tx \<Rightarrow> waitRound list \<Rightarrow> (goerr + Receipt) option" where
  "WaitMined numConfirmations tx rounds = map_option fst (waitMined numConfirmations tx None rounds)"

section \<open>Sending\<close>

text \<open>
  The program points of a background publication (\<open>sendTxAsync\<close>) between its calls: before
  \<open>updateGasPrice\<close>, before \<open>sendTx\<close>, after a failed publication and before the abort test, before a
  receipt query, before the query of the tip, in the select between two queries, before the
  report to the main loop, and after its end.
\<close>

datatype task = Start | Publish L1Tx | Refused | Query L1Tx | Mined L1Tx Receipt | Sleep L1Tx
  | Report Receipt | Finished

record sendSys =
  sy_state :: SendState
  sy_tasks :: "task list"
  sy_cancelled :: "goerr option"
  sy_chan :: "Receipt option"
  sy_result :: "(Receipt option \<times> goerr option) option"

text \<open>What a step learns from outside.\<close>

datatype event = Internal | Cancel goerr | Update "goerr + L1Tx" | Send L1Tx "goerr option"
  | Asked L1Tx "Receipt option" "goerr option" | Tip "goerr + u64"

definition goto :: "nat \<Rightarrow> task \<Rightarrow> sendSys \<Rightarrow> sendSys" where
  "goto i t s = s\<lparr>sy_tasks := (sy_tasks s)[i := t]\<rparr>"

text \<open>\<open>cancel()\<close> of the subcontext: the first cancellation decides its error.\<close>

definition cancel :: "sendSys \<Rightarrow> sendSys" where
  "cancel s = (case sy_cancelled s of None \<Rightarrow> s\<lparr>sy_cancelled := Some context_Canceled\<rparr> | Some _ \<Rightarrow> s)"

definition isCanceled :: "goerr \<Rightarrow> bool" where
  "isCanceled err \<longleftrightarrow> err = context_Canceled \<or> strings_Contains (errText err) ''context canceled''"

definition afterUpdate :: "nat \<Rightarrow> goerr + L1Tx \<Rightarrow> sendSys \<Rightarrow> sendSys" where
  "afterUpdate i answer s = (case answer of
       Inl err \<Rightarrow>
         if isCanceled err \<or> errText err = ''execution reverted: EmptyAssertion'' then goto i Finished s
         else cancel (goto i Finished s)
     | Inr tx \<Rightarrow> goto i (Publish tx) s)"

definition afterSend :: "string \<Rightarrow> nat \<Rightarrow> L1Tx \<Rightarrow> goerr option \<Rightarrow> sendSys \<Rightarrow> sendSys" where
  "afterSend ntl i tx err s =
     (let s = s\<lparr>sy_state := ProcessSendError ntl err (sy_state s)\<rparr> in
      case err of
        None \<Rightarrow> goto i (Query tx) s
      | Some e \<Rightarrow> if isCanceled e then goto i Finished s else goto i Refused s)"

definition afterRefusal :: "nat \<Rightarrow> sendSys \<Rightarrow> sendSys" where
  "afterRefusal i s =
     (if ShouldAbortImmediately (sy_state s) then cancel (goto i Finished s) else goto i Finished s)"

definition afterQuery :: "nat \<Rightarrow> L1Tx \<Rightarrow> Receipt option \<Rightarrow> goerr option \<Rightarrow> sendSys \<Rightarrow> sendSys" where
  "afterQuery i tx receipt err s = (case receipt of
       Some r \<Rightarrow> goto i (Mined tx r) (s\<lparr>sy_state := TxMined (l1_Hash tx) (sy_state s)\<rparr>)
     | None \<Rightarrow> (case err of
         Some _ \<Rightarrow> goto i (Sleep tx) s
       | None \<Rightarrow> goto i (Sleep tx) (s\<lparr>sy_state := TxNotMined (l1_Hash tx) (sy_state s)\<rparr>)))"

definition afterTip :: "u64 \<Rightarrow> nat \<Rightarrow> L1Tx \<Rightarrow> Receipt \<Rightarrow> goerr + u64 \<Rightarrow> sendSys \<Rightarrow> sendSys" where
  "afterTip numConfirmations i tx receipt answer s = (case answer of
       Inl _ \<Rightarrow> goto i (Sleep tx) s
     | Inr tipHeight \<Rightarrow>
         if isConfirmed numConfirmations receipt tipHeight then goto i (Report receipt) s
         else goto i (Sleep tx) s)"

text \<open>The non-blocking send on the channel of capacity one.\<close>

definition report :: "nat \<Rightarrow> Receipt \<Rightarrow> sendSys \<Rightarrow> sendSys" where
  "report i r s = (let s = goto i Finished s in
     case sy_chan s of None \<Rightarrow> s\<lparr>sy_chan := Some r\<rparr> | Some _ \<Rightarrow> s)"

definition resubmit :: "sendSys \<Rightarrow> sendSys" where
  "resubmit s = (if IsWaitingForConfirmation (sy_state s) then s
     else s\<lparr>sy_tasks := sy_tasks s @ [Start]\<rparr>)"

definition returnReceipt :: "Receipt \<Rightarrow> sendSys \<Rightarrow> sendSys" where
  "returnReceipt r s =
     cancel (s\<lparr>sy_chan := None,
       sy_result := Some (Some r, if rc_Status r = ReceiptStatusFailed then Some ErrReverted else None)\<rparr>)"

definition send_init :: "TxmgrConfig \<Rightarrow> sendSys res" where
  "send_init cfg = bindR (NewSendState (SafeAbortNonceTooLowCount cfg)) (\<lambda>st.
     Ok \<lparr>sy_state = st, sy_tasks = [Start], sy_cancelled = None, sy_chan = None, sy_result = None\<rparr>)"

text \<open>
  The steps of the main loop need that it has not returned; the background tasks go on until they
  finish, which the deferred \<open>wg.Wait\<close> awaits. \<open>external\<close> is the cancellation of the caller's context.
\<close>

inductive send_step :: "string \<Rightarrow> TxmgrConfig \<Rightarrow> sendSys \<Rightarrow> event \<Rightarrow> sendSys \<Rightarrow> bool"
  for ntl :: string and cfg :: TxmgrConfig where
  update: "i < length (sy_tasks s) \<Longrightarrow> sy_tasks s ! i = Start \<Longrightarrow>
    send_step ntl cfg s (Update a) (afterUpdate i a s)"
| publish: "i < length (sy_tasks s) \<Longrightarrow> sy_tasks s ! i = Publish tx \<Longrightarrow>
    send_step ntl cfg s (Send tx err) (afterSend ntl i tx err s)"
| refused: "i < length (sy_tasks s) \<Longrightarrow> sy_tasks s ! i = Refused \<Longrightarrow>
    send_step ntl cfg s Internal (afterRefusal i s)"
| query: "i < length (sy_tasks s) \<Longrightarrow> sy_tasks s ! i = Query tx \<Longrightarrow>
    send_step ntl cfg s (Asked tx receipt err) (afterQuery i tx receipt err s)"
| tip: "i < length (sy_tasks s) \<Longrightarrow> sy_tasks s ! i = Mined tx r \<Longrightarrow>
    send_step ntl cfg s (Tip a) (afterTip (NumConfirmations cfg) i tx r a s)"
| wake: "i < length (sy_tasks s) \<Longrightarrow> sy_tasks s ! i = Sleep tx \<Longrightarrow>
    send_step ntl cfg s Internal (goto i (Query tx) s)"
| stop: "i < length (sy_tasks s) \<Longrightarrow> sy_tasks s ! i = Sleep tx \<Longrightarrow> sy_cancelled s = Some e \<Longrightarrow>
    send_step ntl cfg s Internal (goto i Finished s)"
| reported: "i < length (sy_tasks s) \<Longrightarrow> sy_tasks s ! i = Report r \<Longrightarrow>
    send_step ntl cfg s Internal (report i r s)"
| resubmission: "sy_result s = None \<Longrightarrow> send_step ntl cfg s Internal (resubmit s)"
| cancelled: "sy_result s = None \<Longrightarrow> sy_cancelled s = Some e \<Longrightarrow>
    send_step ntl cfg s Internal (s\<lparr>sy_result := Some (None, Some e)\<rparr>)"
| received: "sy_result s = None \<Longrightarrow> sy_chan s = Some r \<Longrightarrow>
    send_step ntl cfg s Internal (returnReceipt r s)"
| external: "sy_cancelled s = None \<Longrightarrow>
    send_step ntl cfg s (Cancel e) (s\<lparr>sy_cancelled := Some e\<rparr>)"

inductive_cases send_stepE: "send_step ntl cfg s e s'"

text \<open>The runs of \<open>Send\<close>, with their events in order.\<close>

inductive send_run :: "string \<Rightarrow> TxmgrConfig \<Rightarrow> event list \<Rightarrow> sendSys \<Rightarrow> bool"
  for ntl :: string and cfg :: TxmgrConfig where
  begin_run: "send_init cfg = Ok s \<Longrightarrow> send_run ntl cfg [] s"
| step_run: "send_run ntl cfg es s \<Longrightarrow> send_step ntl cfg s e s' \<Longrightarrow> send_run ntl cfg (es @ [e]) s'"

text \<open>\<open>Send\<close> has returned: the main loop has a result and every background task has ended.\<close>

definition send_returned :: "sendSys \<Rightarrow> bool" where
  "send_returned s \<longleftrightarrow> sy_result s \<noteq> None \<and> list_all (\<lambda>t. t = Finished) (sy_tasks s)"

section \<open>Every receipt was confirmed\<close>

text \<open>The events behind a receipt: its publication, the answer that carried it, and the tip that confirmed it.\<close>

definition settled :: "TxmgrConfig \<Rightarrow> event list \<Rightarrow> Receipt \<Rightarrow> bool" where
  "settled cfg es r \<longleftrightarrow> (\<exists>tx err tip. subseq [Send tx None, Asked tx (Some r) err, Tip (Inr tip)] es \<and>
     isConfirmed (NumConfirmations cfg) r tip)"

fun task_traced :: "TxmgrConfig \<Rightarrow> event list \<Rightarrow> task \<Rightarrow> bool" where
  "task_traced cfg es (Query tx) \<longleftrightarrow> subseq [Send tx None] es"
| "task_traced cfg es (Sleep tx) \<longleftrightarrow> subseq [Send tx None] es"
| "task_traced cfg es (Mined tx r) \<longleftrightarrow> (\<exists>err. subseq [Send tx None, Asked tx (Some r) err] es)"
| "task_traced cfg es (Report r) \<longleftrightarrow> settled cfg es r"
| "task_traced cfg es t \<longleftrightarrow> True"

definition result_of :: "Receipt \<Rightarrow> Receipt option \<times> goerr option" where
  "result_of r = (Some r, if rc_Status r = ReceiptStatusFailed then Some ErrReverted else None)"

definition sys_traced :: "TxmgrConfig \<Rightarrow> event list \<Rightarrow> sendSys \<Rightarrow> bool" where
  "sys_traced cfg es s \<longleftrightarrow> list_all (task_traced cfg es) (sy_tasks s) \<and>
     (\<forall>r. sy_chan s = Some r \<longrightarrow> settled cfg es r) \<and>
     (\<forall>r e. sy_result s = Some (Some r, e) \<longrightarrow> settled cfg es r \<and> (Some r, e) = result_of r)"

lemma subseq_more: "subseq xs es \<Longrightarrow> subseq xs (es @ [e])"
  by (simp add: subseq_rev_drop_many)

lemma subseq_snoc: "subseq xs es \<Longrightarrow> subseq (xs @ [e]) (es @ [e])"
  by (rule list_emb_append_mono) simp_all

lemma subseq_first: "subseq [a, b] es \<Longrightarrow> subseq [a] es"
  by (metis append_Cons append_Nil subseq_append_iff subseq_order.order_refl subseq_order.trans list_emb_append2 subseq_rev_drop_many)

lemma settled_more: "settled cfg es r \<Longrightarrow> settled cfg (es @ [e]) r"
  unfolding settled_def using subseq_more by blast

lemma task_traced_more: "task_traced cfg es t \<Longrightarrow> task_traced cfg (es @ [e]) t"
  by (cases t) (auto intro: subseq_more settled_more)

lemma sys_traced_more: "sys_traced cfg es s \<Longrightarrow> sys_traced cfg (es @ [e]) s"
  by (auto simp: sys_traced_def list_all_iff intro: task_traced_more settled_more)

lemma goto_simps [simp]:
  "sy_state (goto i t s) = sy_state s" "sy_cancelled (goto i t s) = sy_cancelled s"
  "sy_chan (goto i t s) = sy_chan s" "sy_result (goto i t s) = sy_result s"
  "sy_tasks (goto i t s) = (sy_tasks s)[i := t]"
  by (simp_all add: goto_def)

lemma cancel_simps [simp]:
  "sy_state (cancel s) = sy_state s" "sy_tasks (cancel s) = sy_tasks s"
  "sy_chan (cancel s) = sy_chan s" "sy_result (cancel s) = sy_result s"
  "\<exists>e. sy_cancelled (cancel s) = Some e"
  by (simp_all add: cancel_def split: option.split)

lemma list_all_update: "list_all P xs \<Longrightarrow> P x \<Longrightarrow> list_all P (xs[i := x])"
  using set_update_subset_insert [of xs i x] by (auto simp: list_all_iff)

lemma traced_goto:
  assumes "sys_traced cfg es s" and "task_traced cfg es t"
  shows "sys_traced cfg es (goto i t s)"
  using assms by (simp add: sys_traced_def list_all_update)

lemma traced_same:
  assumes "sys_traced cfg es s" and "sy_tasks s' = sy_tasks s" and "sy_chan s' = sy_chan s"
    and "sy_result s' = sy_result s"
  shows "sys_traced cfg es s'"
  using assms by (simp add: sys_traced_def)

lemma traced_cancel [simp]: "sys_traced cfg es (cancel s) \<longleftrightarrow> sys_traced cfg es s"
  by (simp add: sys_traced_def)

lemma traced_state [simp]: "sys_traced cfg es (s\<lparr>sy_state := x\<rparr>) \<longleftrightarrow> sys_traced cfg es s"
  by (simp add: sys_traced_def)

lemma traced_task: "sys_traced cfg es s \<Longrightarrow> i < length (sy_tasks s) \<Longrightarrow> task_traced cfg es (sy_tasks s ! i)"
  by (simp add: sys_traced_def list_all_length)

lemma traced_step:
  assumes "send_step ntl cfg s e s'" and inv: "sys_traced cfg es s"
  shows "sys_traced cfg (es @ [e]) s'"
proof -
  note more = sys_traced_more [OF inv] and task = traced_task [OF inv]
  from assms(1) show ?thesis
  proof cases
    case (update i a)
    then show ?thesis using more by (auto simp: afterUpdate_def traced_goto split: sum.split)
  next
    case (publish i tx err)
    then show ?thesis
      using more subseq_snoc [of "[]" es e]
      by (auto simp: afterSend_def Let_def traced_goto split: option.split)
  next
    case (refused i)
    then show ?thesis using more by (simp add: afterRefusal_def traced_goto)
  next
    case (query i tx receipt err)
    then have "subseq [Send tx None] es" using task [of i] by simp
    then show ?thesis
      using more query subseq_more [of "[Send tx None]" es e] subseq_snoc [of "[Send tx None]" es e]
      by (auto simp: afterQuery_def intro!: traced_goto split: option.split)
  next
    case (tip i tx r a)
    then obtain err where m: "subseq [Send tx None, Asked tx (Some r) err] es" using task [of i] by auto
    then have "subseq [Send tx None] (es @ [e])" by (intro subseq_more) (rule subseq_first)
    moreover have "settled cfg (es @ [e]) r" if "a = Inr t" "isConfirmed (NumConfirmations cfg) r t" for t
      using subseq_snoc [OF m, of e] that tip(1) by (auto simp: settled_def)
    ultimately show ?thesis
      using more tip by (auto simp: afterTip_def intro!: traced_goto split: sum.split)
  next
    case (wake i tx)
    then show ?thesis using task [of i] more by (auto intro!: traced_goto subseq_more)
  next
    case (stop i tx)
    then show ?thesis using more by (auto intro!: traced_goto)
  next
    case (reported i r)
    then have "settled cfg (es @ [e]) r" using task [of i] by (auto intro: settled_more)
    moreover have "sys_traced cfg (es @ [e]) (goto i Finished s)" using more by (simp add: traced_goto)
    ultimately show ?thesis
      using reported by (auto simp: report_def Let_def sys_traced_def split: option.split)
  next
    case resubmission
    then show ?thesis using more by (auto simp: resubmit_def sys_traced_def)
  next
    case (received r)
    then show ?thesis using more by (auto simp: returnReceipt_def sys_traced_def result_of_def)
  qed (use more in \<open>auto simp: sys_traced_def\<close>)
qed

lemma traced_run: "send_run ntl cfg es s \<Longrightarrow> sys_traced cfg es s"
proof (induction rule: send_run.induct)
  case (begin_run s)
  then show ?case by (auto simp: send_init_def bindR_Ok_iff sys_traced_def)
qed (rule traced_step)

section \<open>Why a publication is given up\<close>

definition tooLow :: "string \<Rightarrow> event \<Rightarrow> bool" where
  "tooLow ntl e \<longleftrightarrow> (case e of Send _ (Some err) \<Rightarrow> strings_Contains (errText err) ntl | _ \<Rightarrow> False)"

text \<open>The last answer about a hash that was not an error was a receipt.\<close>

fun knownMined :: "event list \<Rightarrow> hash \<Rightarrow> bool" where
  "knownMined [] h \<longleftrightarrow> False"
| "knownMined (e # later) h \<longleftrightarrow> knownMined later h \<or>
     (\<exists>tx r err. e = Asked tx (Some r) err \<and> l1_Hash tx = h) \<and>
     (\<forall>tx. l1_Hash tx = h \<longrightarrow> Asked tx None None \<notin> set later)"

definition fatalUpdate :: "event \<Rightarrow> bool" where
  "fatalUpdate e \<longleftrightarrow> (\<exists>err. e = Update (Inl err) \<and> \<not> isCanceled err \<and>
     errText err \<noteq> ''execution reverted: EmptyAssertion'')"

text \<open>The manager's own abort: nothing known to be mined and enough refusals of the nonce so far.\<close>

definition aborted :: "string \<Rightarrow> TxmgrConfig \<Rightarrow> event list \<Rightarrow> bool" where
  "aborted ntl cfg es \<longleftrightarrow> (\<exists>es1 es2. es = es1 @ es2 \<and> (\<forall>h. \<not> knownMined es1 h) \<and>
     unat (SafeAbortNonceTooLowCount cfg) \<le> length (filter (tooLow ntl) es1))"

definition justified :: "string \<Rightarrow> TxmgrConfig \<Rightarrow> event list \<Rightarrow> goerr \<Rightarrow> bool" where
  "justified ntl cfg es e \<longleftrightarrow> Cancel e \<in> set es \<or>
     e = context_Canceled \<and> (list_ex fatalUpdate es \<or> aborted ntl cfg es)"

definition sys_justified :: "string \<Rightarrow> TxmgrConfig \<Rightarrow> event list \<Rightarrow> sendSys \<Rightarrow> bool" where
  "sys_justified ntl cfg es s \<longleftrightarrow>
     safeAbortNonceTooLowCount (sy_state s) = SafeAbortNonceTooLowCount cfg \<and>
     set (minedTxs (sy_state s)) = {h. knownMined es h} \<and>
     unat (nonceTooLowCount (sy_state s)) \<le> length (filter (tooLow ntl) es) \<and>
     (\<forall>e. sy_cancelled s = Some e \<longrightarrow> justified ntl cfg es e \<or> (\<exists>r x. sy_result s = Some (Some r, x))) \<and>
     (\<forall>e. sy_result s = Some (None, e) \<longrightarrow> (\<exists>err. e = Some err \<and> justified ntl cfg es err))"

lemma knownMined_snoc:
  "knownMined (es @ [e]) h \<longleftrightarrow>
     (\<exists>tx r err. e = Asked tx (Some r) err \<and> l1_Hash tx = h) \<or>
     knownMined es h \<and> \<not> (\<exists>tx. e = Asked tx None None \<and> l1_Hash tx = h)"
  by (induction es) auto

lemma aborted_more: "aborted ntl cfg es \<Longrightarrow> aborted ntl cfg (es @ [e])"
  unfolding aborted_def by (metis append.assoc)

lemma justified_more: "justified ntl cfg es err \<Longrightarrow> justified ntl cfg (es @ [e]) err"
  by (auto simp: justified_def aborted_more)

lemma unat_succ_le: "unat (x :: u64) \<le> n \<Longrightarrow> unat (x + 1) \<le> Suc n"
  unfolding unat_word_ariths by (rule order_trans [OF mod_less_eq_dividend]) simp

lemma justifiedD:
  assumes "sys_justified ntl cfg es s"
  shows "safeAbortNonceTooLowCount (sy_state s) = SafeAbortNonceTooLowCount cfg"
    and "set (minedTxs (sy_state s)) = {h. knownMined es h}"
    and "unat (nonceTooLowCount (sy_state s)) \<le> length (filter (tooLow ntl) es)"
  using assms by (simp_all add: sys_justified_def)

lemma justified_state:
  assumes "sys_justified ntl cfg es s"
    and "sy_cancelled s' = sy_cancelled s" and "sy_result s' = sy_result s"
    and "safeAbortNonceTooLowCount (sy_state s') = safeAbortNonceTooLowCount (sy_state s)"
    and "set (minedTxs (sy_state s')) = {h. knownMined (es @ [e]) h}"
    and "unat (nonceTooLowCount (sy_state s')) \<le> length (filter (tooLow ntl) (es @ [e]))"
  shows "sys_justified ntl cfg (es @ [e]) s'"
  using assms justified_more [of ntl cfg es _ e] by (auto simp: sys_justified_def)

text \<open>A step that leaves the publication state, the context and the result alone.\<close>

definition quiet :: "event \<Rightarrow> bool" where
  "quiet e \<longleftrightarrow> (\<forall>tx r err. e \<noteq> Asked tx r err \<or> r = None \<and> err \<noteq> None)"

lemma justified_quiet:
  assumes inv: "sys_justified ntl cfg es s" and "quiet e" and "sy_state s' = sy_state s"
    and "sy_cancelled s' = sy_cancelled s" and "sy_result s' = sy_result s"
  shows "sys_justified ntl cfg (es @ [e]) s'"
proof (rule justified_state [OF inv assms(4,5)])
  have "knownMined (es @ [e]) h = knownMined es h" for h
    using assms(2) by (auto simp: knownMined_snoc quiet_def)
  then show "set (minedTxs (sy_state s')) = {h. knownMined (es @ [e]) h}"
    using inv assms(3) by (simp add: sys_justified_def)
  show "unat (nonceTooLowCount (sy_state s')) \<le> length (filter (tooLow ntl) (es @ [e]))"
    using inv assms(3) by (simp add: sys_justified_def)
qed (simp add: assms(3))

lemma justified_cancel:
  assumes inv: "sys_justified ntl cfg es s"
    and "justified ntl cfg es context_Canceled \<or> (\<exists>r x. sy_result s = Some (Some r, x))"
  shows "sys_justified ntl cfg es (cancel s)"
  using assms by (auto simp: sys_justified_def cancel_def split: option.split)

lemma justified_send:
  assumes inv: "sys_justified ntl cfg es s"
  shows "sys_justified ntl cfg (es @ [Send tx err]) (s\<lparr>sy_state := ProcessSendError ntl err (sy_state s)\<rparr>)"
    (is "sys_justified _ _ _ ?s")
proof (rule justified_state [OF inv])
  show "unat (nonceTooLowCount (sy_state ?s)) \<le> length (filter (tooLow ntl) (es @ [Send tx err]))"
    using justifiedD(3) [OF inv] unat_succ_le [of "nonceTooLowCount (sy_state s)"]
    by (auto simp: ProcessSendError_def tooLow_def split: option.split)
  show "set (minedTxs (sy_state ?s)) = {h. knownMined (es @ [Send tx err]) h}"
    using justifiedD(2) [OF inv] by (simp add: ProcessSendError_def knownMined_snoc split: option.split)
qed (simp_all add: ProcessSendError_def split: option.split)

lemma justified_mined:
  assumes inv: "sys_justified ntl cfg es s"
  shows "sys_justified ntl cfg (es @ [Asked tx (Some r) err]) (s\<lparr>sy_state := TxMined (l1_Hash tx) (sy_state s)\<rparr>)"
    (is "sys_justified _ _ _ ?s")
proof (rule justified_state [OF inv])
  have "set (minedTxs (sy_state ?s)) = insert (l1_Hash tx) (set (minedTxs (sy_state s)))"
    by (simp add: TxMined_def)
  then show "set (minedTxs (sy_state ?s)) = {h. knownMined (es @ [Asked tx (Some r) err]) h}"
    unfolding justifiedD(2) [OF inv] by (auto simp: knownMined_snoc)
qed (use justifiedD(3) [OF inv] in \<open>simp_all add: TxMined_def tooLow_def\<close>)

lemma TxNotMined_simps:
  "minedTxs (TxNotMined h st) = removeAll h (minedTxs st)"
  "safeAbortNonceTooLowCount (TxNotMined h st) = safeAbortNonceTooLowCount st"
  "unat (nonceTooLowCount (TxNotMined h st)) \<le> unat (nonceTooLowCount st)"
  by (simp_all add: TxNotMined_def Let_def)

lemma justified_not_mined:
  assumes inv: "sys_justified ntl cfg es s"
  shows "sys_justified ntl cfg (es @ [Asked tx None None]) (s\<lparr>sy_state := TxNotMined (l1_Hash tx) (sy_state s)\<rparr>)"
    (is "sys_justified _ _ _ ?s")
proof (rule justified_state [OF inv])
  have "set (minedTxs (sy_state ?s)) = set (minedTxs (sy_state s)) - {l1_Hash tx}"
    by (auto simp: TxNotMined_simps)
  then show "set (minedTxs (sy_state ?s)) = {h. knownMined (es @ [Asked tx None None]) h}"
    unfolding justifiedD(2) [OF inv] by (auto simp: knownMined_snoc)
  show "unat (nonceTooLowCount (sy_state ?s)) \<le> length (filter (tooLow ntl) (es @ [Asked tx None None]))"
    using justifiedD(3) [OF inv] TxNotMined_simps(3) [of "l1_Hash tx" "sy_state s"] by (simp add: tooLow_def)
qed (simp_all add: TxNotMined_simps)

lemma justified_goto [simp]: "sys_justified ntl cfg es (goto i t s) \<longleftrightarrow> sys_justified ntl cfg es s"
  by (simp add: sys_justified_def)

lemma justified_abort:
  assumes "sys_justified ntl cfg es s" and "ShouldAbortImmediately (sy_state s)"
  shows "justified ntl cfg (es @ [e]) context_Canceled"
proof -
  have "minedTxs (sy_state s) = []" and "safeAbortNonceTooLowCount (sy_state s) \<le> nonceTooLowCount (sy_state s)"
    using assms(2) by (auto simp: ShouldAbortImmediately_def split: if_splits)
  then have "aborted ntl cfg es"
    using assms(1) unfolding aborted_def
    by (intro exI [of _ es] exI [of _ "[]"]) (auto simp: sys_justified_def word_le_nat_alt)
  then show ?thesis by (simp add: justified_def aborted_more)
qed

lemma justified_more_quiet: "sys_justified ntl cfg es s \<Longrightarrow> quiet e \<Longrightarrow> sys_justified ntl cfg (es @ [e]) s"
  by (rule justified_quiet) simp_all

lemma quiet_simps [simp]:
  "quiet Internal" "quiet (Cancel e)" "quiet (Update a)" "quiet (Send tx x)" "quiet (Tip b)"
  "quiet (Asked tx None (Some err))"
  by (simp_all add: quiet_def)

lemma justified_step:
  assumes "send_step ntl cfg s e s'" and inv: "sys_justified ntl cfg es s"
  shows "sys_justified ntl cfg (es @ [e]) s'"
  using assms(1)
proof cases
  case (update i a)
  then have more: "sys_justified ntl cfg (es @ [e]) (goto i t s)" for t using inv by (simp add: justified_more_quiet)
  show ?thesis
  proof (cases "fatalUpdate e")
    case True
    then have "justified ntl cfg (es @ [e]) context_Canceled" by (simp add: justified_def)
    with more show ?thesis
      using update True by (auto simp: afterUpdate_def fatalUpdate_def intro!: justified_cancel)
  next
    case False
    with more update show ?thesis
      by (auto simp: afterUpdate_def fatalUpdate_def split: sum.split)
  qed
next
  case (publish i tx err)
  then show ?thesis
    using justified_send [OF inv, of tx err] by (auto simp: afterSend_def Let_def split: option.split)
next
  case (refused i)
  have more: "sys_justified ntl cfg (es @ [e]) (goto i Finished s)" using inv refused by (simp add: justified_more_quiet)
  then show ?thesis
    using justified_abort [OF inv, of e] refused by (auto simp: afterRefusal_def intro: justified_cancel)
next
  case (query i tx receipt err)
  then show ?thesis
    using justified_mined [OF inv] justified_not_mined [OF inv] justified_more_quiet [OF inv]
    by (auto simp: afterQuery_def split: option.split)
next
  case (tip i tx r a)
  then show ?thesis
    using justified_more_quiet [OF inv] by (auto simp: afterTip_def split: sum.split)
next
  case (reported i r)
  then show ?thesis
    using inv by (intro justified_quiet [OF inv]) (auto simp: report_def Let_def split: option.split)
next
  case resubmission
  then show ?thesis by (intro justified_quiet [OF inv]) (auto simp: resubmit_def)
next
  case (cancelled err)
  then show ?thesis
    using justified_more_quiet [OF inv, of e] by (auto simp: sys_justified_def)
next
  case (received r)
  let ?s = "s\<lparr>sy_chan := None, sy_result := Some (result_of r)\<rparr>"
  have "sys_justified ntl cfg (es @ [e]) ?s"
    using justified_more_quiet [OF inv, of e] received by (auto simp: sys_justified_def result_of_def)
  then show ?thesis
    using received justified_cancel [of ntl cfg "es @ [e]" ?s]
    by (simp add: returnReceipt_def result_of_def)
next
  case (external err)
  then show ?thesis
    using justified_more_quiet [OF inv, of e] by (auto simp: sys_justified_def justified_def)
qed (use justified_more_quiet [OF inv, of e] in auto)

lemma justified_run: "send_run ntl cfg es s \<Longrightarrow> sys_justified ntl cfg es s"
proof (induction rule: send_run.induct)
  case (begin_run s)
  then show ?case
    by (auto simp: send_init_def NewSendState_def sys_justified_def split: if_splits)
qed (rule justified_step)

section \<open>Sending ends\<close>

lemma task_steps:
  assumes run: "send_run ntl cfg es s" and i: "i < length (sy_tasks s)" and c: "sy_cancelled s = Some err"
  shows "\<exists>es' s'. send_run ntl cfg (es @ es') s' \<and> sy_tasks s' = (sy_tasks s)[i := Finished] \<and>
    sy_result s' = sy_result s \<and> sy_cancelled s' = Some err"
proof -
  have stop: "\<exists>es' s''. send_run ntl cfg (es @ es') s'' \<and> sy_tasks s'' = (sy_tasks s)[i := Finished] \<and>
      sy_result s'' = sy_result s \<and> sy_cancelled s'' = Some err"
    if "send_run ntl cfg (es @ pre) s'" "sy_tasks s' = (sy_tasks s)[i := Sleep tx]"
      "sy_result s' = sy_result s" "sy_cancelled s' = Some err" for pre s' tx
    using send_run.step_run [OF that(1) send_step.stop [of i s' tx err]] i that(2-4)
    by (intro exI [of _ "pre @ [Internal]"] exI [of _ "goto i Finished s'"]) simp
  have query: "\<exists>es' s''. send_run ntl cfg (es @ es') s'' \<and> sy_tasks s'' = (sy_tasks s)[i := Finished] \<and>
      sy_result s'' = sy_result s \<and> sy_cancelled s'' = Some err"
    if "sy_tasks s ! i = Query tx" for tx
    by (rule stop [OF send_run.step_run [OF run send_step.query [OF i that, of _ _ None "Some err"]], of tx])
      (simp_all add: afterQuery_def c)
  have now: "\<exists>es' s''. send_run ntl cfg (es @ es') s'' \<and> sy_tasks s'' = (sy_tasks s)[i := Finished] \<and>
      sy_result s'' = sy_result s \<and> sy_cancelled s'' = Some err"
    if "send_step ntl cfg s e s'" "sy_tasks s' = (sy_tasks s)[i := Finished]"
      "sy_result s' = sy_result s" "sy_cancelled s' = Some err" for e s'
    using send_run.step_run [OF run that(1)] that(2-4) by blast
  show ?thesis
  proof (cases "sy_tasks s ! i")
    case Start
    show ?thesis by (rule now [OF send_step.update [OF i Start, of _ _ "Inl context_Canceled"]])
      (simp_all add: afterUpdate_def isCanceled_def c)
  next
    case (Publish tx)
    show ?thesis by (rule now [OF send_step.publish [OF i Publish, of _ _ "Some context_Canceled"]])
      (simp_all add: afterSend_def isCanceled_def Let_def c)
  next
    case Refused
    show ?thesis by (rule now [OF send_step.refused [OF i Refused]])
      (simp_all add: afterRefusal_def c cancel_def)
  next
    case (Query tx)
    then show ?thesis by (rule query)
  next
    case (Mined tx r)
    show ?thesis by (rule stop [OF send_run.step_run [OF run send_step.tip [OF i Mined, of _ _ "Inl err"]], of tx])
      (simp_all add: afterTip_def c)
  next
    case (Sleep tx)
    show ?thesis by (rule stop [of "[]" s tx]) (simp_all add: run c Sleep [symmetric])
  next
    case (Report r)
    show ?thesis by (rule now [OF send_step.reported [OF i Report]])
      (simp_all add: report_def Let_def c split: option.split)
  next
    case Finished
    show ?thesis by (intro exI [of _ "[]"] exI [of _ s]) (simp add: run c Finished [symmetric])
  qed
qed

lemma tasks_end:
  assumes "send_run ntl cfg es s" and "sy_cancelled s = Some err" and "n \<le> length (sy_tasks s)"
    and "list_all (\<lambda>t. t = Finished) (drop n (sy_tasks s))"
  shows "\<exists>es' s'. send_run ntl cfg (es @ es') s' \<and> list_all (\<lambda>t. t = Finished) (sy_tasks s') \<and>
    sy_result s' = sy_result s"
  using assms
proof (induction n arbitrary: es s)
  case 0
  then show ?case by (intro exI [of _ "[]"] exI [of _ s]) simp
next
  case (Suc n)
  then obtain es1 s1 where s1: "send_run ntl cfg (es @ es1) s1" "sy_tasks s1 = (sy_tasks s)[n := Finished]"
      "sy_result s1 = sy_result s" "sy_cancelled s1 = Some err"
    using task_steps [of ntl cfg es s n err] by auto
  have "list_all (\<lambda>t. t = Finished) (drop n (sy_tasks s1))"
    using Suc.prems by (simp add: s1(2) Cons_nth_drop_Suc [symmetric, of n])
  then show ?case using Suc.IH [OF s1(1,4)] Suc.prems s1 by (metis append.assoc length_list_update Suc_leD)
qed

lemma result_cancelled: "send_run ntl cfg es s \<Longrightarrow> sy_result s \<noteq> None \<Longrightarrow> sy_cancelled s \<noteq> None"
proof (induction rule: send_run.induct)
  case (begin_run s)
  then show ?case by (auto simp: send_init_def bindR_Ok_iff)
next
  case (step_run es s e s')
  from step_run(2,1,3,4) show ?case
    by cases (auto simp: afterUpdate_def afterSend_def afterRefusal_def afterQuery_def afterTip_def report_def
        resubmit_def returnReceipt_def cancel_def Let_def split: sum.splits option.splits if_splits)
qed

lemma send_ends:
  assumes "send_run ntl cfg es s" and "sy_result s = Some x"
  shows "\<exists>es' s'. send_run ntl cfg (es @ es') s' \<and> send_returned s' \<and> sy_result s' = Some x"
proof -
  obtain err where c: "sy_cancelled s = Some err" using result_cancelled [OF assms(1)] assms(2) by auto
  have "list_all (\<lambda>t. t = Finished) (drop (length (sy_tasks s)) (sy_tasks s))" by simp
  from tasks_end [OF assms(1) c order_refl this] obtain es' s' where
      "send_run ntl cfg (es @ es') s'" "list_all (\<lambda>t. t = Finished) (sy_tasks s')" "sy_result s' = Some x"
    using assms(2) by auto
  moreover from this have "send_returned s'" by (simp add: send_returned_def)
  ultimately show ?thesis by blast
qed

lemma confirmed_depth:
  assumes "isConfirmed n r tip" and "unat (block_height r) + unat n < 2 ^ 64"
  shows "unat (block_height r) + unat n \<le> unat tip + 1"
proof -
  have "unat (block_height r + n) = unat (block_height r) + unat n"
    using assms(2) by (simp add: unat_word_ariths(1))
  moreover have "unat (block_height r + n) \<le> unat (tip + 1)"
    using assms(1) by (simp add: isConfirmed_def word_le_nat_alt)
  ultimately show ?thesis using unat_succ_le [of tip "unat tip"] by simp
qed

section \<open>Properties of the manager\<close>

text \<open>C4: a receipt that \<open>Send\<close> returns belongs to a transaction it published: the backend answered
  with it after the publication and then gave a tip at which it had the configured number of
  confirmations; the error is \<open>ErrReverted\<close> exactly for a failed status. This holds for every
  interleaving of the publications with the main loop.\<close>

theorem send_receipt_confirmed:
  assumes "send_run ntl cfg es s" and "sy_result s = Some (Some r, e)"
    and "unat (block_height r) + unat (NumConfirmations cfg) < 2 ^ 64"
  shows "e = (if rc_Status r = ReceiptStatusFailed then Some ErrReverted else None) \<and>
    (\<exists>tx err tip. subseq [Send tx None, Asked tx (Some r) err, Tip (Inr tip)] es \<and>
       unat (block_height r) + unat (NumConfirmations cfg) \<le> unat tip + 1)"
proof -
  have "settled cfg es r" and e: "(Some r, e) = result_of r"
    using traced_run [OF assms(1)] assms(2) by (auto simp: sys_traced_def)
  then obtain tx err tip where "subseq [Send tx None, Asked tx (Some r) err, Tip (Inr tip)] es"
      and "isConfirmed (NumConfirmations cfg) r tip"
    by (auto simp: settled_def)
  with e show ?thesis using confirmed_depth [OF _ assms(3)] by (auto simp: result_of_def)
qed

definition sample_config :: TxmgrConfig where
  "sample_config = \<lparr>NumConfirmations = 2, SafeAbortNonceTooLowCount = 1\<rparr>"

definition sample_l1tx :: L1Tx where
  "sample_l1tx = \<lparr>l1_Hash = [1], l1_Nonce = 0, l1_GasTipCap = 1, l1_GasFeeCap = 3, l1_Gas = 21000,
     l1_To = [], l1_Data = []\<rparr>"

definition sample_receipt :: Receipt where
  "sample_receipt = \<lparr>rc_TxHash = [1], rc_Status = 1, rc_BlockNumber = 10, rc_GasUsed = 21000\<rparr>"

definition sample_reporting :: sendSys where
  "sample_reporting = \<lparr>sy_state = \<lparr>minedTxs = [[1]], nonceTooLowCount = 0, safeAbortNonceTooLowCount = 1\<rparr>,
     sy_tasks = [Report sample_receipt], sy_cancelled = None, sy_chan = None, sy_result = None\<rparr>"

definition sample_events :: "L1Tx \<Rightarrow> event list" where
  "sample_events tx = [Update (Inr tx), Send tx None,
     Asked tx (Some sample_receipt) None, Tip (Inr 11)]"

lemma sample_reported:
  assumes hash: "l1_Hash tx = [1]"
  shows "send_run ''nonce too low'' sample_config (sample_events tx) sample_reporting"
proof -
  let ?init = "\<lparr>sy_state = \<lparr>minedTxs = [], nonceTooLowCount = 0, safeAbortNonceTooLowCount = 1\<rparr>,
     sy_tasks = [Start], sy_cancelled = None, sy_chan = None, sy_result = None\<rparr>"
  have "send_run ''nonce too low'' sample_config [] ?init"
    by (rule send_run.begin_run) (simp add: send_init_def NewSendState_def sample_config_def)
  from send_run.step_run [OF this send_step.update [of 0 _ _ _ "Inr tx"]]
  have "send_run ''nonce too low'' sample_config [Update (Inr tx)]
      (?init\<lparr>sy_tasks := [Publish tx]\<rparr>)" by (simp add: afterUpdate_def goto_def)
  from send_run.step_run [OF this send_step.publish [of 0 _ tx _ _ None]]
  have "send_run ''nonce too low'' sample_config [Update (Inr tx), Send tx None]
      (?init\<lparr>sy_tasks := [Query tx]\<rparr>)" by (simp add: afterSend_def ProcessSendError_def goto_def)
  from send_run.step_run [OF this send_step.query [of 0 _ tx _ _ "Some sample_receipt" None]]
  have "send_run ''nonce too low'' sample_config [Update (Inr tx), Send tx None,
      Asked tx (Some sample_receipt) None]
      (sample_reporting\<lparr>sy_tasks := [Mined tx sample_receipt]\<rparr>)"
    by (simp add: afterQuery_def TxMined_def goto_def sample_reporting_def hash List.insert_def)
  from send_run.step_run [OF this send_step.tip [of 0 _ tx sample_receipt _ _ "Inr 11"]]
  show ?thesis
    by (simp add: afterTip_def goto_def sample_reporting_def sample_events_def isConfirmed_def block_height_def
        sample_config_def sample_receipt_def)
qed

lemma sample_done:
  assumes "l1_Hash tx = [1]"
  shows "\<exists>s. send_run ''nonce too low'' sample_config (sample_events tx @ [Internal, Internal]) s \<and>
     sy_result s = Some (Some sample_receipt, None)"
proof -
  let ?s = "sample_reporting\<lparr>sy_tasks := [Finished], sy_chan := Some sample_receipt\<rparr>"
  from send_run.step_run [OF sample_reported [OF assms] send_step.reported [of 0 _ sample_receipt]]
  have "send_run ''nonce too low'' sample_config (sample_events tx @ [Internal]) ?s"
    by (simp add: sample_reporting_def report_def goto_def)
  from send_run.step_run [OF this send_step.received [of _ sample_receipt]]
  have "send_run ''nonce too low'' sample_config (sample_events tx @ [Internal, Internal])
      (returnReceipt sample_receipt ?s)"
    by (simp add: sample_reporting_def)
  moreover have "sy_result (returnReceipt sample_receipt ?s) = Some (Some sample_receipt, None)"
    by (simp add: returnReceipt_def ReceiptStatusFailed_def sample_receipt_def)
  ultimately show ?thesis by blast
qed

theorem send_receipt_confirmed_witness:
  "\<exists>tx err tip. subseq [Send tx None, Asked tx (Some sample_receipt) err, Tip (Inr tip)]
     (sample_events sample_l1tx @ [Internal, Internal]) \<and>
   unat (block_height sample_receipt) + unat (NumConfirmations sample_config) \<le> unat tip + 1"
proof -
  obtain s where "send_run ''nonce too low'' sample_config (sample_events sample_l1tx @ [Internal, Internal]) s"
    and "sy_result s = Some (Some sample_receipt, None)" using sample_done [of sample_l1tx] by (auto simp: sample_l1tx_def)
  from send_receipt_confirmed [OF this] show ?thesis
    by (simp add: sample_receipt_def sample_config_def block_height_def)
qed

text \<open>C23: when \<open>Send\<close> returns without a receipt there is a reason: the caller's context was cancelled,
  or the gas price of a publication could not be updated, or the manager aborted, and then at
  that moment no published transaction was known to be mined and at least the configured number
  of publications had been refused for their nonce.\<close>

theorem send_gives_up:
  assumes "send_run ntl cfg es s" and "sy_result s = Some (None, e)"
  shows "\<exists>err. e = Some err \<and> (Cancel err \<in> set es \<or> err = context_Canceled \<and> (list_ex fatalUpdate es \<or>
    (\<exists>es1 es2. es = es1 @ es2 \<and> (\<forall>h. \<not> knownMined es1 h) \<and>
       unat (SafeAbortNonceTooLowCount cfg) \<le> length (filter (tooLow ntl) es1))))"
  using justified_run [OF assms(1)] assms(2)
  by (auto simp: sys_justified_def justified_def aborted_def)

definition sample_refusals :: "event list" where
  "sample_refusals = [Update (Inr sample_l1tx), Send sample_l1tx (Some (ErrNew ''nonce too low'')), Internal, Internal]"

lemma sample_aborted:
  "\<exists>s. send_run ''nonce too low'' sample_config sample_refusals s \<and>
     sy_result s = Some (None, Some context_Canceled)"
proof -
  let ?init = "\<lparr>sy_state = \<lparr>minedTxs = [], nonceTooLowCount = 0, safeAbortNonceTooLowCount = 1\<rparr>,
     sy_tasks = [Start], sy_cancelled = None, sy_chan = None, sy_result = None\<rparr>"
  let ?low = "?init\<lparr>sy_state := \<lparr>minedTxs = [], nonceTooLowCount = 1, safeAbortNonceTooLowCount = 1\<rparr>\<rparr>"
  have "send_run ''nonce too low'' sample_config [] ?init"
    by (rule send_run.begin_run) (simp add: send_init_def NewSendState_def sample_config_def)
  from send_run.step_run [OF this send_step.update [of 0 _ _ _ "Inr sample_l1tx"]]
  have "send_run ''nonce too low'' sample_config [Update (Inr sample_l1tx)]
      (?init\<lparr>sy_tasks := [Publish sample_l1tx]\<rparr>)" by (simp add: afterUpdate_def goto_def)
  from send_run.step_run [OF this send_step.publish [of 0 _ sample_l1tx _ _ "Some (ErrNew ''nonce too low'')"]]
  have "send_run ''nonce too low'' sample_config [Update (Inr sample_l1tx),
      Send sample_l1tx (Some (ErrNew ''nonce too low''))] (?low\<lparr>sy_tasks := [Refused]\<rparr>)"
    by (simp add: afterSend_def ProcessSendError_def goto_def isCanceled_def context_Canceled_def)
  from send_run.step_run [OF this send_step.refused [of 0]]
  have "send_run ''nonce too low'' sample_config [Update (Inr sample_l1tx),
      Send sample_l1tx (Some (ErrNew ''nonce too low'')), Internal]
      (?low\<lparr>sy_tasks := [Finished], sy_cancelled := Some context_Canceled\<rparr>)"
    by (simp add: afterRefusal_def ShouldAbortImmediately_def goto_def cancel_def)
  from send_run.step_run [OF this send_step.cancelled [of _ context_Canceled]]
  have "send_run ''nonce too low'' sample_config sample_refusals
      (?low\<lparr>sy_tasks := [Finished], sy_cancelled := Some context_Canceled,
         sy_result := Some (None, Some context_Canceled)\<rparr>)"
    by (simp add: sample_refusals_def)
  moreover have "sy_result (?low\<lparr>sy_tasks := [Finished], sy_cancelled := Some context_Canceled,
      sy_result := Some (None, Some context_Canceled)\<rparr>) = Some (None, Some context_Canceled)" by simp
  ultimately show ?thesis by blast
qed

theorem send_gives_up_witness:
  "\<exists>es1 es2. sample_refusals = es1 @ es2 \<and> (\<forall>h. \<not> knownMined es1 h) \<and>
     unat (SafeAbortNonceTooLowCount sample_config) \<le> length (filter (tooLow ''nonce too low'') es1)"
proof -
  obtain s where "send_run ''nonce too low'' sample_config sample_refusals s"
    and "sy_result s = Some (None, Some context_Canceled)" using sample_aborted by blast
  from send_gives_up [OF this] show ?thesis
    by (simp add: sample_refusals_def fatalUpdate_def)
qed



section \<open>Waiting for one transaction\<close>

definition settles :: "u64 \<Rightarrow> waitRound \<Rightarrow> Receipt option" where
  "settles n r = (case (wr_receipt r, wr_tip r) of
     (Some receipt, Inr tip) \<Rightarrow> if isConfirmed n receipt tip then Some receipt else None | _ \<Rightarrow> None)"

lemma waitMined_Cons:
  "map_option fst (waitMined n tx ss (r # rs)) = (case settles n r of
     Some receipt \<Rightarrow> Some (Inr receipt)
   | None \<Rightarrow> (case wr_done r of Some e \<Rightarrow> Some (Inl e)
       | None \<Rightarrow> map_option fst (waitMined n tx ss rs)))"
  if "\<And>ss'. map_option fst (waitMined n tx ss' rs) = map_option fst (waitMined n tx ss rs)"
  using that by (auto simp: settles_def Let_def split: option.splits sum.splits)

lemma waitMined_state: "map_option fst (waitMined n tx ss rs) = map_option fst (waitMined n tx ss' rs)"
proof (induction rs arbitrary: ss ss')
  case (Cons r rs)
  have "map_option fst (waitMined n tx ss (r # rs)) = map_option fst (waitMined n tx ss' (r # rs))" for ss ss'
    by (subst (1 2) waitMined_Cons [OF Cons.IH]) (simp only: Cons.IH [of ss ss'])
  then show ?case .
qed simp

lemma first_satisfying_Cons:
  "(\<exists>before r later. x # xs = before @ r # later \<and> P r \<and> list_all Q before) \<longleftrightarrow>
     P x \<or> Q x \<and> (\<exists>before r later. xs = before @ r # later \<and> P r \<and> list_all Q before)"
  (is "?A \<longleftrightarrow> ?B")
proof
  assume ?A
  then obtain before r later where b: "x # xs = before @ r # later" "P r" "list_all Q before" by blast
  then show ?B by (cases before) auto
next
  assume ?B
  then show ?A
  proof
    assume "P x"
    then show ?A by (intro exI [of _ "[]"] exI [of _ x] exI [of _ xs]) simp
  next
    assume "Q x \<and> (\<exists>before r later. xs = before @ r # later \<and> P r \<and> list_all Q before)"
    then obtain before r later where "Q x" "xs = before @ r # later \<and> P r \<and> list_all Q before" by blast
    then show ?A by (intro exI [of _ "x # before"] exI [of _ r] exI [of _ later]) simp
  qed
qed

text \<open>\<open>WaitMined\<close> returns a receipt exactly when some round settles it and no earlier round settled
  another or ended by the cancellation of the context; failed queries and reorganisations in
  between do not matter.\<close>

theorem wait_mined_first_settled:
  "WaitMined n tx rounds = Some (Inr receipt) \<longleftrightarrow>
     (\<exists>before r later. rounds = before @ r # later \<and> settles n r = Some receipt \<and>
        list_all (\<lambda>b. settles n b = None \<and> wr_done b = None) before)"
proof (induction rounds)
  case (Cons r rs)
  have step: "WaitMined n tx (r # rs) = (case settles n r of
      Some receipt \<Rightarrow> Some (Inr receipt)
    | None \<Rightarrow> (case wr_done r of Some e \<Rightarrow> Some (Inl e) | None \<Rightarrow> WaitMined n tx rs))"
    unfolding WaitMined_def by (rule waitMined_Cons) (rule waitMined_state)
  show ?case
    unfolding first_satisfying_Cons Cons.IH [symmetric] step
    by (cases "settles n r"; cases "wr_done r") auto
qed (simp add: WaitMined_def)

end
