(* ===== verification/Batch_Driver.thy ===== *)
theory Batch_Driver
  imports Sequencer_Batch Tx_Manager
begin

text \<open>
  The driver that posts transaction batches (\<open>batch-submitter/drivers/sequencer/driver.go\<close>) with the
  helpers it shares with the other drivers (\<open>bss-core/drivers/clear_pending_tx.go\<close> and
  \<open>max_priority_fee_fallback.go\<close>): the range of L2 blocks to submit, the batch transaction, its
  gas price, and the transaction that clears the mempool at startup.

  The L1 and L2 clients, the contract bindings and the signers are other parties: a record of the
  calls the driver makes, each a computation on a state of the outside world.
\<close>

section \<open>The outside world\<close>

record TransactOpts =
  o_Nonce :: "int option"
  o_GasTipCap :: "int option"
  o_GasFeeCap :: "int option"
  o_GasLimit :: u64
  o_NoSend :: bool

record CallMsg =
  cm_From :: "byte list"
  cm_To :: "byte list"
  cm_GasFeeCap :: int
  cm_GasTipCap :: int
  cm_Data :: "byte list"

record DynamicFeeTx =
  df_To :: "byte list"
  df_Nonce :: u64
  df_Gas :: u64
  df_GasFeeCap :: int
  df_GasTipCap :: int
  df_Data :: "byte list"

text \<open>
  The latest L1 header is given by its base fee, which is nil before the London fork; the latest
  L2 header by its number. \<open>be_NewKms\<close> and \<open>be_HsmTransactor\<close> are the two calls that make a signer of
  the key management service, \<open>be_KeyedTransactor\<close> the one for a private key.
\<close>

record 'w backend =
  be_TotalElements :: "('w, int) sm"
  be_L2Head :: "('w, int) sm"
  be_L2Confirmed :: "('w, int) sm"
  be_L2Block :: "int \<Rightarrow> ('w, L2Block) sm"
  be_SuggestGasTipCap :: "('w, int) sm"
  be_BaseFee :: "('w, int option) sm"
  be_EstimateGas :: "CallMsg \<Rightarrow> ('w, u64) sm"
  be_NewKms :: "('w, unit) sm"
  be_HsmTransactor :: "('w, TransactOpts) sm"
  be_KeyedTransactor :: "('w, TransactOpts) sm"
  be_RawTransact :: "TransactOpts \<Rightarrow> byte list \<Rightarrow> ('w, L1Tx) sm"
  be_SignTx :: "DynamicFeeTx \<Rightarrow> ('w, L1Tx) sm"
  be_SendTransaction :: "L1Tx \<Rightarrow> ('w, unit) sm"
  be_NonceAt :: "('w, u64) sm"
  be_BalanceAt :: "('w, int) sm"

section \<open>Shared helpers\<close>

definition errMaxPriorityFeePerGasNotFound :: goerr where
  "errMaxPriorityFeePerGasNotFound = Sentinel ''Method eth_maxPriorityFeePerGas not found''"

definition FallbackGasTipCap :: int where
  "FallbackGasTipCap = 1500000000"

definition IsMaxPriorityFeePerGasNotFoundError :: "goerr \<Rightarrow> bool" where
  "IsMaxPriorityFeePerGasNotFoundError err =
     strings_Contains (errText err) (errText errMaxPriorityFeePerGasNotFound)"

definition gasTipCapOrFallback :: "'w backend \<Rightarrow> ('w, int) sm" where
  "gasTipCapOrFallback be =
     bindM (attemptM (be_SuggestGasTipCap be)) (\<lambda>r. case r of
       Inl err \<Rightarrow> if \<not> IsMaxPriorityFeePerGasNotFoundError err then failM err else retM FallbackGasTipCap
     | Inr tip \<Rightarrow> retM tip)"

definition ErrClearPendingRetry :: goerr where
  "ErrClearPendingRetry = Sentinel ''retry clear pending txn''"

definition CraftClearingTx :: "byte list \<Rightarrow> u64 \<Rightarrow> int \<Rightarrow> int \<Rightarrow> u64 \<Rightarrow> DynamicFeeTx" where
  "CraftClearingTx walletAddr nonce gasFeeCap gasTipCap gasLimit =
     \<lparr>df_To = walletAddr, df_Nonce = nonce, df_Gas = gasLimit, df_GasFeeCap = gasFeeCap,
      df_GasTipCap = gasTipCap, df_Data = []\<rparr>"

definition SignClearingTx :: "'w backend \<Rightarrow> byte list \<Rightarrow> u64 \<Rightarrow> ('w, L1Tx) sm" where
  "SignClearingTx be walletAddr nonce =
     bindM (gasTipCapOrFallback be) (\<lambda>gasTipCap.
     bindM (be_BaseFee be) (\<lambda>baseFee.
     bindM (liftR (derefR baseFee)) (\<lambda>baseFee.
     let gasFeeCap = CalcGasFeeCap baseFee gasTipCap in
     bindM (be_EstimateGas be \<lparr>cm_From = walletAddr, cm_To = walletAddr, cm_GasFeeCap = gasFeeCap,
         cm_GasTipCap = gasTipCap, cm_Data = []\<rparr>) (\<lambda>gasLimit.
     be_SignTx be (CraftClearingTx walletAddr nonce gasFeeCap gasTipCap gasLimit)))))"

text \<open>
  The publication callback of \<open>ClearPendingTx\<close>: the error it hands to \<open>Send\<close>, and whether it cancels
  the context that \<open>Send\<close> runs in.
\<close>

definition clearSendTx :: "string \<Rightarrow> goerr option \<Rightarrow> goerr option \<times> bool" where
  "clearSendTx ntl answer = (case answer of
       None \<Rightarrow> (None, False)
     | Some err \<Rightarrow> if strings_Contains (errText err) ntl then (Some context_Canceled, True)
         else (Some err, False))"

text \<open>The classification of the result of \<open>Send\<close>; \<open>None\<close> is success.\<close>

definition clearResult :: "Receipt option \<times> goerr option \<Rightarrow> goerr option" where
  "clearResult r = (case snd r of
       None \<Rightarrow> None
     | Some err \<Rightarrow> if err = context_Canceled then Some ErrClearPendingRetry else Some err)"

text \<open>\<open>send nonce\<close> is \<open>txMgr.Send\<close> with the two callbacks for the given nonce.\<close>

definition ClearPendingTx :: "'w backend \<Rightarrow> (u64 \<Rightarrow> ('w, Receipt option \<times> goerr option) sm) \<Rightarrow> ('w, unit) sm" where
  "ClearPendingTx be send =
     bindM (be_NonceAt be) (\<lambda>nonce.
     bindM (send nonce) (\<lambda>r. case clearResult r of None \<Rightarrow> retM () | Some err \<Rightarrow> failM err))"

section \<open>The sequencer driver\<close>

record SeqConfig =
  sq_BlockOffset :: u64
  sq_DaUpgradeBlock :: u64
  sq_MinRollupTxn :: u64
  sq_MaxRollupTxn :: u64
  sq_BatchType :: BatchType
  sq_EnableSequencerHsm :: bool
  sq_CTCAddr :: "byte list"
  sq_walletAddr :: "byte list"
  sq_appendSequencerBatchID :: "byte list"

definition GetBatchBlockRange :: "'w backend \<Rightarrow> SeqConfig \<Rightarrow> ('w, int \<times> int) sm" where
  "GetBatchBlockRange be cfg =
     bindM (be_TotalElements be) (\<lambda>total.
     let start = total + uint (sq_BlockOffset cfg) in
     bindM (be_L2Head be) (\<lambda>latest.
     bindM (if latest < sint (sq_DaUpgradeBlock cfg) then retM (latest + 1) else be_L2Confirmed be) (\<lambda>end'.
     let l2Txn = end' - start in
     if l2Txn < sint (sq_MinRollupTxn cfg) then retM (start, start)
     else if l2Txn > sint (sq_MaxRollupTxn cfg) then retM (start, start + sint (sq_MaxRollupTxn cfg))
     else retM (start, end'))))"

fun fetchElements :: "'w backend \<Rightarrow> (Transaction \<Rightarrow> byte list res) \<Rightarrow> int list
    \<Rightarrow> ('w, Transaction BatchElement list) sm" where
  "fetchElements be enc [] = retM []"
| "fetchElements be enc (i # is) =
     bindM (be_L2Block be i) (\<lambda>block.
     bindM (liftR (BatchElementFromBlock enc block)) (\<lambda>batchElement.
     bindM (fetchElements be enc is) (\<lambda>batchElements. retM (batchElement # batchElements))))"

definition craftOpts :: "'w backend \<Rightarrow> SeqConfig \<Rightarrow> ('w, TransactOpts) sm" where
  "craftOpts be cfg =
     (if sq_EnableSequencerHsm cfg then seqM (be_NewKms be) (be_HsmTransactor be)
      else be_KeyedTransactor be)"

definition CraftBatchTx :: "'w backend \<Rightarrow> SeqConfig \<Rightarrow> (Transaction \<Rightarrow> byte list res) \<Rightarrow> int \<Rightarrow> int \<Rightarrow> int
    \<Rightarrow> ('w, L1Tx) sm" where
  "CraftBatchTx be cfg enc start end' nonce =
     bindM (fetchElements be enc [start..end' - 1]) (\<lambda>batchElements.
     bindM (liftR (GenSequencerBatchParams (big_Uint64 start) (sq_BlockOffset cfg) batchElements)) (\<lambda>batchParams.
     bindM (liftR (Serialize batchParams (sq_BatchType cfg))) (\<lambda>batchArguments.
     let calldata = sq_appendSequencerBatchID cfg @ batchArguments in
     bindM (craftOpts be cfg) (\<lambda>opts.
     let opts = opts\<lparr>o_Nonce := Some nonce, o_NoSend := True\<rparr> in
     bindM (attemptM (be_RawTransact be opts calldata)) (\<lambda>r. case r of
         Inr tx \<Rightarrow> retM tx
       | Inl err \<Rightarrow>
           if IsMaxPriorityFeePerGasNotFoundError err
           then be_RawTransact be (opts\<lparr>o_GasTipCap := Some FallbackGasTipCap\<rparr>) calldata
           else failM err)))))"

text \<open>
  In the branch of the key management service the error of the last call is bound to a variable of
  the inner block, so the check after the branch does not see it: the options are nil there.
\<close>

definition updateOpts :: "'w backend \<Rightarrow> SeqConfig \<Rightarrow> ('w, TransactOpts) sm" where
  "updateOpts be cfg =
     (if sq_EnableSequencerHsm cfg then
        seqM (be_NewKms be)
        (bindM (attemptM (be_HsmTransactor be)) (\<lambda>r.
           liftR (derefR (case r of Inl _ \<Rightarrow> None | Inr opts \<Rightarrow> Some opts))))
      else be_KeyedTransactor be)"

definition UpdateGasPrice :: "'w backend \<Rightarrow> SeqConfig \<Rightarrow> L1Tx \<Rightarrow> ('w, L1Tx) sm" where
  "UpdateGasPrice be cfg tx =
     bindM (gasTipCapOrFallback be) (\<lambda>gasTipCap.
     bindM (be_BaseFee be) (\<lambda>baseFee.
     bindM (liftR (derefR baseFee)) (\<lambda>baseFee.
     let gasFeeCap = CalcGasFeeCap baseFee gasTipCap in
     bindM (be_EstimateGas be \<lparr>cm_From = sq_walletAddr cfg, cm_To = sq_CTCAddr cfg, cm_GasFeeCap = gasFeeCap,
         cm_GasTipCap = gasTipCap, cm_Data = l1_Data tx\<rparr>) (\<lambda>gasLimit.
     bindM (updateOpts be cfg) (\<lambda>opts.
     be_RawTransact be (opts\<lparr>o_Nonce := Some (uint (l1_Nonce tx)), o_GasTipCap := Some gasTipCap,
         o_GasFeeCap := Some gasFeeCap, o_GasLimit := 6 * gasLimit div 5, o_NoSend := True\<rparr>) (l1_Data tx))))))"

definition SendTransaction :: "'w backend \<Rightarrow> L1Tx \<Rightarrow> ('w, unit) sm" where
  "SendTransaction be tx = be_SendTransaction be tx"

section \<open>The range of blocks\<close>

lemma range_bounds:
  assumes "GetBatchBlockRange be cfg w = (Ok (start, end'), w')"
    and "0 \<le> sint (sq_MinRollupTxn cfg)" and "0 \<le> sint (sq_MaxRollupTxn cfg)"
  shows "start \<le> end' \<and> end' - start \<le> sint (sq_MaxRollupTxn cfg) \<and>
    (\<exists>w1 total. be_TotalElements be w = (Ok total, w1) \<and> start = total + uint (sq_BlockOffset cfg)) \<and>
    (start = end' \<or> min (sint (sq_MinRollupTxn cfg)) (sint (sq_MaxRollupTxn cfg)) \<le> end' - start \<and>
       (\<exists>limit w1 w2. (be_L2Head be w1 = (Ok (limit - 1), w2) \<or> be_L2Confirmed be w1 = (Ok limit, w2)) \<and>
          end' \<le> limit))"
proof -
  obtain total w1 latest w2 limit w3 where run: "be_TotalElements be w = (Ok total, w1)"
      "be_L2Head be w1 = (Ok latest, w2)"
      "(if latest < sint (sq_DaUpgradeBlock cfg) then retM (latest + 1) else be_L2Confirmed be) w2 = (Ok limit, w3)"
    and res: "(let l2Txn = limit - (total + uint (sq_BlockOffset cfg)) in
      if l2Txn < sint (sq_MinRollupTxn cfg) then (total + uint (sq_BlockOffset cfg), total + uint (sq_BlockOffset cfg))
      else if l2Txn > sint (sq_MaxRollupTxn cfg)
        then (total + uint (sq_BlockOffset cfg), total + uint (sq_BlockOffset cfg) + sint (sq_MaxRollupTxn cfg))
      else (total + uint (sq_BlockOffset cfg), limit)) = (start, end')"
    using assms(1) by (auto simp: GetBatchBlockRange_def Let_def retM_def elim!: bindM_OkE split: if_splits)
  have lim: "\<exists>w1 w2. be_L2Head be w1 = (Ok (limit - 1), w2) \<or> be_L2Confirmed be w1 = (Ok limit, w2)"
    using run(2,3) by (auto simp: retM_def split: if_splits) blast+
  have "start = total + uint (sq_BlockOffset cfg) \<and> start \<le> end' \<and> end' - start \<le> sint (sq_MaxRollupTxn cfg) \<and>
    (start = end' \<or> min (sint (sq_MinRollupTxn cfg)) (sint (sq_MaxRollupTxn cfg)) \<le> end' - start \<and> end' \<le> limit)"
    using res assms(2,3) by (auto simp: Let_def split: if_splits)
  with run(1) lim show ?thesis by blast
qed

section \<open>The batch transaction\<close>

lemma fetchElements_Ok:
  assumes "fetchElements be enc is w = (Ok els, w')"
    and "\<And>i w. i \<in> set is \<Longrightarrow> be_L2Block be i w = (Ok (chain i), w)"
  shows "list_all2 (\<lambda>i e. BatchElementFromBlock enc (chain i) = Ok e) is els"
  using assms
proof (induction "is" arbitrary: w w' els)
  case Nil
  then show ?case by (simp add: retM_def)
next
  case (Cons i "is")
  then obtain e es w1 where "BatchElementFromBlock enc (chain i) = Ok e"
      and "fetchElements be enc is w = (Ok es, w1)" and "els = e # es"
    by (auto simp: retM_def liftR_def elim!: bindM_OkE)
  with Cons show ?case by simp
qed

text \<open>The documented behaviour of the bound contract: the transaction carries the data and the nonce.\<close>

definition transacts :: "'w backend \<Rightarrow> bool" where
  "transacts be \<longleftrightarrow> (\<forall>opts data w tx w'. be_RawTransact be opts data w = (Ok tx, w') \<longrightarrow>
     l1_Data tx = data \<and> (\<forall>n. o_Nonce opts = Some n \<longrightarrow> l1_Nonce tx = of_int n))"

lemma CraftBatchTx_Ok:
  assumes "CraftBatchTx be cfg enc start end' nonce w = (Ok tx, w')" and "transacts be"
  shows "\<exists>els w1 p bs. fetchElements be enc [start..end' - 1] w = (Ok els, w1) \<and>
    GenSequencerBatchParams (big_Uint64 start) (sq_BlockOffset cfg) els = Ok p \<and>
    Serialize p (sq_BatchType cfg) = Ok bs \<and> l1_Data tx = sq_appendSequencerBatchID cfg @ bs \<and>
    l1_Nonce tx = of_int nonce"
  using assms
  by (fastforce simp: CraftBatchTx_def Let_def liftR_def retM_def failM_def transacts_def attemptM_def
      elim!: bindM_OkE split: sum.splits if_splits res.splits prod.splits)

lemma length_runs: "length (runs xs) \<le> length xs"
proof (induction xs rule: runs.induct)
  case (3 x y ys)
  then show ?case by (auto simp: Suc_leI)
qed simp_all

lemma hd_runs: "xs \<noteq> [] \<Longrightarrow> hd (hd (runs xs)) = hd xs"
  by (cases xs rule: runs.cases) simp_all

lemma BatchElementFromBlock_time:
  "BatchElementFromBlock enc b = Ok e \<Longrightarrow> el_Timestamp e = blk_time b"
  by (auto simp: BatchElementFromBlock_def bindR_Ok_iff split: list.splits)

lemma serialized_length:
  assumes "Serialize p bt = Ok bs" and "TotalElementsToAppend p = of_nat n" and "n < 2 ^ 64"
  shows "n < 2 ^ 24"
proof -
  have "fits 3 (of_nat n)" using assms(1,2) by (simp add: Serialize_Ok_iff header_fits_def)
  moreover have "unat (of_nat n :: u64) = n" using assms(3) by (simp add: unat_of_nat)
  ultimately show ?thesis by (simp add: fits_def)
qed

lemma crafted_describes:
  assumes "CraftBatchTx be cfg enc start end' nonce w = (Ok tx, w')" and "transacts be"
    and chain: "\<forall>i w. start \<le> i \<and> i < end' \<longrightarrow> be_L2Block be i w = (Ok (chain i), w)"
    and len: "end' - start < 2 ^ 64"
    and bt: "sq_BatchType cfg = BatchTypeZlib \<or>
      sq_BatchType cfg = BatchTypeLegacy \<and> (start < end' \<longrightarrow> blk_time (chain start) \<noteq> 0)"
  shows "\<exists>bs els cs total. l1_Data tx = sq_appendSequencerBatchID cfg @ bs \<and> l1_Nonce tx = of_int nonce \<and>
    list_all2 (\<lambda>i e. BatchElementFromBlock enc (chain i) = Ok e) [start..end' - 1] els \<and>
    readHeader (q, bytes_reader bs) = (Ok (sq_BatchType cfg), (q\<lparr>ShouldStartAtElement :=
        big_Uint64 start - sq_BlockOffset cfg, TotalElementsToAppend := total, Contexts := cs\<rparr>, bytes_reader [])) \<and>
    unat total = nat (end' - start) \<and> describes cs els"
proof -
  from CraftBatchTx_Ok [OF assms(1,2)] obtain els w1 p bs where
      fetch: "fetchElements be enc [start..end' - 1] w = (Ok els, w1)"
    and gen: "GenSequencerBatchParams (big_Uint64 start) (sq_BlockOffset cfg) els = Ok p"
    and ser: "Serialize p (sq_BatchType cfg) = Ok bs"
    and tx: "l1_Data tx = sq_appendSequencerBatchID cfg @ bs" "l1_Nonce tx = of_int nonce"
    by blast
  have els: "list_all2 (\<lambda>i e. BatchElementFromBlock enc (chain i) = Ok e) [start..end' - 1] els"
    by (rule fetchElements_Ok [OF fetch]) (simp add: chain)
  have n: "length els = nat (end' - start)" using list_all2_lengthD [OF els] by simp
  with len have l64: "length els < 2 ^ 64" by (simp add: nat_less_iff)
  note p = gen [unfolded gen_params [OF l64], simplified, symmetric]
  have l24: "length els < 2 ^ 24" by (rule serialized_length [OF ser _ l64]) (simp add: p)
  then have cs: "length (Contexts p) < 2 ^ 63" using length_runs [of els] by (simp add: p)
  have "els \<noteq> [] \<Longrightarrow> el_Timestamp (hd els) = blk_time (chain start) \<and> start < end'"
    using els upto_rec1 [of start "end' - 1"]
    by (cases "start < end'"; cases els) (auto dest: BatchElementFromBlock_time)
  then have "typed_ok p (sq_BatchType cfg)"
    using bt by (cases "els = []") (auto simp: typed_ok_def p hd_map run_context_def hd_runs)
  from readHeader_serialized [OF ser this cs, of q "[]"]
  have "readHeader (q, bytes_reader bs) = (Ok (sq_BatchType cfg), (q\<lparr>ShouldStartAtElement :=
        big_Uint64 start - sq_BlockOffset cfg, TotalElementsToAppend := of_nat (length els),
        Contexts := map run_context (runs els)\<rparr>, bytes_reader []))" by (simp add: p)
  moreover have "describes (map run_context (runs els)) els"
    using describes_runs [OF runs_fit [OF l64]] by simp
  moreover have "unat (of_nat (length els) :: u64) = nat (end' - start)" using l64 n by (simp add: unat_of_nat)
  ultimately show ?thesis using tx els by blast
qed


definition sample_l2tx :: Transaction where
  "sample_l2tx = SetTransactionMeta (Some (NewTransactionMeta (Some 9) 0 None QueueOriginSequencer None None None))
     (NewContractCreation 0 None 21000 None [])"

definition sample_chain :: "int \<Rightarrow> L2Block" where
  "sample_chain i = \<lparr>blk_number = i, blk_time = 1600000000, blk_root = [], blk_gasUsed = 0, blk_txs = [sample_l2tx]\<rparr>"

definition sample_opts :: TransactOpts where
  "sample_opts = \<lparr>o_Nonce = None, o_GasTipCap = None, o_GasFeeCap = None, o_GasLimit = 0, o_NoSend = False\<rparr>"

definition sample_transact :: "TransactOpts \<Rightarrow> byte list \<Rightarrow> L1Tx" where
  "sample_transact opts data = sample_l1tx\<lparr>l1_Nonce := (case o_Nonce opts of Some n \<Rightarrow> of_int n | None \<Rightarrow> 0),
     l1_Data := data\<rparr>"

definition sample_backend :: "unit backend" where
  "sample_backend = \<lparr>be_TotalElements = retM 4, be_L2Head = retM 6, be_L2Confirmed = retM 7,
     be_L2Block = (\<lambda>i. retM (sample_chain i)), be_SuggestGasTipCap = retM 1, be_BaseFee = retM (Some 1),
     be_EstimateGas = (\<lambda>_. retM 100), be_NewKms = retM (), be_HsmTransactor = failM io_EOF,
     be_KeyedTransactor = retM sample_opts, be_RawTransact = (\<lambda>opts data. retM (sample_transact opts data)),
     be_SignTx = (\<lambda>_. retM sample_l1tx), be_SendTransaction = (\<lambda>_. retM ()), be_NonceAt = retM 3,
     be_BalanceAt = retM 0\<rparr>"

definition sample_seq :: SeqConfig where
  "sample_seq = \<lparr>sq_BlockOffset = 1, sq_DaUpgradeBlock = 0, sq_MinRollupTxn = 1, sq_MaxRollupTxn = 10,
     sq_BatchType = BatchTypeLegacy, sq_EnableSequencerHsm = False, sq_CTCAddr = [], sq_walletAddr = [],
     sq_appendSequencerBatchID = [1, 2, 3, 4]\<rparr>"

definition sample_enc :: "Transaction \<Rightarrow> byte list res" where
  "sample_enc tx = Ok [7]"

lemma sample_transacts: "transacts sample_backend"
  by (auto simp: transacts_def sample_backend_def retM_def sample_transact_def)

definition sample_batch_element :: "Transaction BatchElement" where
  "sample_batch_element = \<lparr>el_Timestamp = 1600000000, el_BlockNumber = 9,
     el_Tx = Some \<lparr>ctx_tx = sample_l2tx, ctx_rawTx = [7]\<rparr>\<rparr>"

definition sample_batch_params :: "Transaction AppendSequencerBatchParams" where
  "sample_batch_params = \<lparr>ShouldStartAtElement = 4, TotalElementsToAppend = 2,
     Contexts = [\<lparr>NumSequencedTxs = 2, NumSubsequentQueueTxs = 0, Timestamp = 1600000000, BlockNumber = 9\<rparr>],
     Txs = [\<lparr>ctx_tx = sample_l2tx, ctx_rawTx = [7]\<rparr>, \<lparr>ctx_tx = sample_l2tx, ctx_rawTx = [7]\<rparr>]\<rparr>"

lemma sample_element_from_block: "BatchElementFromBlock sample_enc (sample_chain i) = Ok sample_batch_element"
  by (simp add: BatchElementFromBlock_def sample_chain_def sample_l2tx_def sample_enc_def NewCachedTx_def
      tx_access NewTransactionMeta_def SetTransactionMeta_def big_Uint64_def sample_batch_element_def)

lemma sample_craft:
  "CraftBatchTx sample_backend sample_seq sample_enc 5 7 3 () =
     (Ok (sample_transact (sample_opts\<lparr>o_Nonce := Some 3, o_NoSend := True\<rparr>)
        ([1, 2, 3, 4] @ header_wire sample_batch_params BatchTypeLegacy)), ())"
proof -
  have up: "[5..7 - 1 :: int] = [5, 6]" by (simp add: upto.simps)
  have fetch: "fetchElements sample_backend sample_enc [5..7 - 1] () = (Ok [sample_batch_element, sample_batch_element], ())"
    unfolding up by (simp add: sample_backend_def sample_element_from_block res_simps)
  have gen: "GenSequencerBatchParams (big_Uint64 5) 1 [sample_batch_element, sample_batch_element] = Ok sample_batch_params"
    by (simp add: gen_params new_group_def run_context_def sample_batch_element_def IsSequencerTx_def
        List.map_filter_simps sample_batch_params_def big_Uint64_def)
  have ser: "Serialize sample_batch_params BatchTypeLegacy = Ok (header_wire sample_batch_params BatchTypeLegacy)"
    by (simp add: Serialize_Ok_iff header_fits_def batch_contexts_def MarkerContext_def
        sample_batch_params_def ctx_fits_def fits_def)
  show ?thesis
    unfolding CraftBatchTx_def bindM_simps(1) [of "fetchElements sample_backend sample_enc [5..7 - 1]", OF fetch]
    by (simp add: gen ser sample_seq_def res_simps Let_def craftOpts_def)
      (simp add: sample_backend_def res_simps attemptM_def bindM_def)
qed


text \<open>the range \<open>GetBatchBlockRange\<close> returns starts right after the elements already on chain and is
  empty or has between the smaller of the two configured bounds and the upper bound many blocks,
  none of them past the latest L2 block (before the DA upgrade) or the confirmed one.\<close>

theorem batch_range_bounds:
  assumes "GetBatchBlockRange be cfg w = (Ok (start, end'), w')"
    and "0 \<le> sint (sq_MinRollupTxn cfg)" and "0 \<le> sint (sq_MaxRollupTxn cfg)"
  shows "start \<le> end' \<and> end' - start \<le> sint (sq_MaxRollupTxn cfg) \<and>
    (\<exists>w1 total. be_TotalElements be w = (Ok total, w1) \<and> start = total + uint (sq_BlockOffset cfg)) \<and>
    (start = end' \<or> min (sint (sq_MinRollupTxn cfg)) (sint (sq_MaxRollupTxn cfg)) \<le> end' - start \<and>
       (\<exists>limit w1 w2. (be_L2Head be w1 = (Ok (limit - 1), w2) \<or> be_L2Confirmed be w1 = (Ok limit, w2)) \<and>
          end' \<le> limit))"
  by (rule range_bounds [OF assms])

lemma sample_range: "GetBatchBlockRange sample_backend sample_seq () = (Ok (5, 7), ())"
  by (simp add: GetBatchBlockRange_def sample_backend_def sample_seq_def res_simps Let_def)

theorem batch_range_bounds_witness: "(5 :: int) \<le> 7 \<and> 7 - 5 \<le> sint (sq_MaxRollupTxn sample_seq)"
  using batch_range_bounds [OF sample_range] by (simp add: sample_seq_def)

section \<open>When crafting cannot panic\<close>

definition calm :: "('w, 'a) sm \<Rightarrow> bool" where
  "calm m \<longleftrightarrow> (\<forall>w p. fst (m w) \<noteq> Panic p)"

lemma calm_basic [intro]: "calm (retM a)" "calm (failM e)"
  by (simp_all add: calm_def res_simps)

lemma calm_bindM [intro]: "calm m \<Longrightarrow> (\<And>a. calm (f a)) \<Longrightarrow> calm (bindM m f)"
  unfolding calm_def bindM_def by (simp add: case_prod_unfold split: res.split)

lemma calm_attemptM [intro]: "calm m \<Longrightarrow> calm (attemptM m)"
  unfolding calm_def attemptM_def by (simp add: case_prod_unfold split: res.split)

lemma calm_if [intro]: "calm m \<Longrightarrow> calm n \<Longrightarrow> calm (if b then m else n)"
  by simp

text \<open>The calls that make and sign a transaction do not panic.\<close>

definition signs_calmly :: "'w backend \<Rightarrow> bool" where
  "signs_calmly be \<longleftrightarrow> calm (be_NewKms be) \<and> calm (be_HsmTransactor be) \<and> calm (be_KeyedTransactor be) \<and>
     (\<forall>opts data. calm (be_RawTransact be opts data))"

text \<open>A block the driver can submit: one transaction that encodes, with 40-bit timestamp and L1 block number.\<close>

definition submittable :: "(Transaction \<Rightarrow> byte list res) \<Rightarrow> L2Block \<Rightarrow> bool" where
  "submittable enc b \<longleftrightarrow> (\<exists>tx n raw. blk_txs b = [tx] \<and> L1BlockNumber tx = Some n \<and> enc tx = Ok raw \<and>
     \<bar>n\<bar> < 2 ^ 40) \<and> unat (blk_time b) < 2 ^ 40"

lemma submittable_element:
  assumes "submittable enc b"
  obtains e where "BatchElementFromBlock enc b = Ok e" and "fits 5 (el_Timestamp e)" and "fits 5 (el_BlockNumber e)"
proof -
  obtain tx n raw where b: "blk_txs b = [tx]" "L1BlockNumber tx = Some n" "enc tx = Ok raw" "\<bar>n\<bar> < 2 ^ 40"
    and t: "unat (blk_time b) < 2 ^ 40" using assms by (auto simp: submittable_def)
  have n: "nat \<bar>n\<bar> < 2 ^ 40" using b(4) by (simp add: nat_less_iff)
  then have "unat (big_Uint64 n) = nat \<bar>n\<bar>" unfolding big_Uint64_def by (subst unat_of_nat) simp
  with n t b show ?thesis
    by (intro that [of "\<lparr>el_Timestamp = blk_time b, el_BlockNumber = big_Uint64 n,
        el_Tx = (if tx_QueueOrigin tx = QueueOriginSequencer then Some \<lparr>ctx_tx = tx, ctx_rawTx = raw\<rparr> else None)\<rparr>"])
      (simp_all add: BatchElementFromBlock_def NewCachedTx_def fits_def)
qed

lemma fetchElements_submittable:
  assumes "\<And>i. i \<in> set is \<Longrightarrow> be_L2Block be i w = (Ok (chain i), w) \<and> submittable enc (chain i)"
  shows "\<exists>els. fetchElements be enc is w = (Ok els, w) \<and> length els = length is \<and>
    list_all (\<lambda>e. fits 5 (el_Timestamp e) \<and> fits 5 (el_BlockNumber e)) els"
  using assms
proof (induction "is")
  case (Cons i "is")
  then obtain els where els: "fetchElements be enc is w = (Ok els, w)" "length els = length is"
      "list_all (\<lambda>e. fits 5 (el_Timestamp e) \<and> fits 5 (el_BlockNumber e)) els" by auto
  obtain e where "BatchElementFromBlock enc (chain i) = Ok e" "fits 5 (el_Timestamp e)" "fits 5 (el_BlockNumber e)"
    using submittable_element Cons.prems [of i] by auto
  with els Cons.prems [of i] show ?case
    by (intro exI [of _ "e # els"]) (simp add: bindM_def liftR_def retM_def)
qed (simp add: retM_def)

lemma fits_of_nat: "n < 2 ^ (8 * k) \<Longrightarrow> k \<le> 7 \<Longrightarrow> fits k (of_nat n)"
proof -
  assume n: "n < 2 ^ (8 * k)" and k: "k \<le> 7"
  have "(2 :: nat) ^ (8 * k) \<le> 2 ^ 64" using k by (intro power_increasing) simp_all
  with n have "unat (of_nat n :: u64) = n" by (simp add: unat_of_nat)
  with n show ?thesis by (simp add: fits_def)
qed

lemma run_context_fits:
  assumes "smooth r" and "set r \<subseteq> set els" and "length r < 2 ^ 24"
    and "list_all (\<lambda>e. fits 5 (el_Timestamp e) \<and> fits 5 (el_BlockNumber e)) els"
  shows "ctx_fits (run_context r)"
proof -
  have "hd r \<in> set els" using assms(1,2) by (auto simp: smooth_def)
  moreover have "length (filter P r) < 2 ^ 24" for P using length_filter_le [of P r] assms(3) by linarith
  ultimately show ?thesis
    using assms(4) fits_of_nat [of _ 3] by (simp add: ctx_fits_def run_context_def list_all_iff)
qed

lemma params_fit:
  assumes "length els < 2 ^ 24 - 1" and "fits 5 (start - off)"
    and "list_all (\<lambda>e. fits 5 (el_Timestamp e) \<and> fits 5 (el_BlockNumber e)) els"
  shows "\<exists>p bs. GenSequencerBatchParams start off els = Ok p \<and> Serialize p bt = Ok bs"
proof -
  have l64: "length els < 2 ^ 64" using assms(1) by simp
  have "set r \<subseteq> set els \<and> length r < 2 ^ 24" if "r \<in> set (runs els)" for r
  proof
    show "set r \<subseteq> set els" using that by (metis UN_upper concat_runs set_concat)
    show "length r < 2 ^ 24" using length_run [OF that] assms(1) by simp
  qed
  then have "list_all ctx_fits (map run_context (runs els))"
    using assms(3) runs_smooth [of _ els] run_context_fits [of _ els] by (auto simp: list_all_iff)
  moreover have "ctx_fits m" if "MarkerContext bt = Some m" for m
    using that by (auto simp: MarkerContext_def ctx_fits_def fits_def split: if_splits)
  moreover have "length (runs els) < 2 ^ 24 - 1" using length_runs [of els] assms(1) by linarith
  ultimately show ?thesis
    using assms(1,2) fits_of_nat [of "length els" 3] fits_of_nat [of "Suc (length (runs els))" 3]
      fits_of_nat [of "length (runs els)" 3]
    by (simp add: gen_params [OF l64] Serialize_Ok_iff header_fits_def batch_contexts_def split: option.split)
qed

text \<open>C24: within the limits of the wire format crafting a batch cannot panic: for a range of fewer than
  2^24 - 1 submittable blocks whose start element fits 40 bits, no grouping and no encoding
  panics, whatever the batch type.\<close>

theorem craft_batch_calm:
  assumes "\<forall>i. start \<le> i \<and> i < end' \<longrightarrow> be_L2Block be i w = (Ok (chain i), w) \<and> submittable enc (chain i)"
    and "end' - start < 2 ^ 24 - 1" and "fits 5 (big_Uint64 start - sq_BlockOffset cfg)" and "signs_calmly be"
  shows "fst (CraftBatchTx be cfg enc start end' nonce w) \<noteq> Panic m"
proof -
  from fetchElements_submittable [of "[start..end' - 1]" be w chain enc] assms(1)
  obtain els where els: "fetchElements be enc [start..end' - 1] w = (Ok els, w)"
      "length els = length [start..end' - 1]" "list_all (\<lambda>e. fits 5 (el_Timestamp e) \<and> fits 5 (el_BlockNumber e)) els"
    by auto
  then have "length els < 2 ^ 24 - 1" using assms(2) by simp
  from params_fit [OF this assms(3) els(3)] obtain p bs where
      p: "GenSequencerBatchParams (big_Uint64 start) (sq_BlockOffset cfg) els = Ok p" "Serialize p (sq_BatchType cfg) = Ok bs"
    by blast
  let ?rest = "bindM (craftOpts be cfg) (\<lambda>opts.
     bindM (attemptM (be_RawTransact be (opts\<lparr>o_Nonce := Some nonce, o_NoSend := True\<rparr>) (sq_appendSequencerBatchID cfg @ bs)))
       (\<lambda>r. case r of Inr tx \<Rightarrow> retM tx
       | Inl err \<Rightarrow> if IsMaxPriorityFeePerGasNotFoundError err
           then be_RawTransact be (opts\<lparr>o_Nonce := Some nonce, o_NoSend := True, o_GasTipCap := Some FallbackGasTipCap\<rparr>)
             (sq_appendSequencerBatchID cfg @ bs)
           else failM err))"
  have "CraftBatchTx be cfg enc start end' nonce w = ?rest w"
    unfolding CraftBatchTx_def bindM_simps(1) [where m = "fetchElements be enc [start..end' - 1]", OF els(1)]
    by (simp add: p bindM_liftOk Let_def)
  moreover have "calm ?rest"
    using assms(4) unfolding craftOpts_def seqM_def signs_calmly_def
    by (intro calm_bindM calm_if calm_attemptM) (auto split: sum.split)
  ultimately show ?thesis by (simp add: calm_def)
qed

theorem craft_batch_calm_witness:
  "\<forall>m. fst (CraftBatchTx sample_backend sample_seq sample_enc 5 7 3 ()) \<noteq> Panic m"
proof (rule allI, rule craft_batch_calm [where chain = sample_chain])
  show "\<forall>i. 5 \<le> i \<and> i < 7 \<longrightarrow> be_L2Block sample_backend i () = (Ok (sample_chain i), ()) \<and>
      submittable sample_enc (sample_chain i)"
    by (simp add: sample_backend_def retM_def submittable_def sample_chain_def sample_l2tx_def sample_enc_def
        tx_access SetTransactionMeta_def NewTransactionMeta_def)
  show "signs_calmly sample_backend"
    by (simp add: signs_calmly_def sample_backend_def calm_basic)
qed (simp_all add: sample_seq_def big_Uint64_def fits_def)

section \<open>Republishing and clearing\<close>

lemma same_batch:
  assumes "UpdateGasPrice be cfg tx w = (Ok tx', w')" and "transacts be"
  shows "l1_Data tx' = l1_Data tx \<and> l1_Nonce tx' = l1_Nonce tx"
proof -
  obtain opts w1 where "be_RawTransact be opts (l1_Data tx) w1 = (Ok tx', w')" "o_Nonce opts = Some (uint (l1_Nonce tx))"
    using assms(1) by (fastforce simp: UpdateGasPrice_def Let_def elim!: bindM_OkE)
  with assms(2) show ?thesis unfolding transacts_def by (metis word_of_int_uint)
qed

text \<open>a resubmission is the same transaction: \<open>UpdateGasPrice\<close> changes neither its nonce nor its data.\<close>

theorem update_gas_price_same_batch:
  assumes "UpdateGasPrice be cfg tx w = (Ok tx', w')" and "transacts be"
  shows "l1_Data tx' = l1_Data tx \<and> l1_Nonce tx' = l1_Nonce tx"
  by (rule same_batch [OF assms])

lemma sample_update:
  "UpdateGasPrice sample_backend sample_seq (sample_l1tx\<lparr>l1_Nonce := 3, l1_Data := [5]\<rparr>) () =
     (Ok (sample_l1tx\<lparr>l1_Nonce := 3, l1_Data := [5]\<rparr>), ())"
  by (simp add: UpdateGasPrice_def sample_backend_def gasTipCapOrFallback_def attemptM_def bindM_def res_simps Let_def
      updateOpts_def sample_seq_def sample_transact_def)

theorem update_gas_price_same_batch_witness:
  "l1_Data (sample_l1tx\<lparr>l1_Nonce := 3, l1_Data := [5]\<rparr>) = [5]"
  using update_gas_price_same_batch [OF sample_update sample_transacts] by simp



text \<open>\<open>ClearPendingTx\<close> reports that a transaction of a previous run confirmed, and asks for a retry,
  also when nothing was published or cancelled: an error while the gas price of the first
  clearing transaction is determined is enough.\<close>

theorem clear_retry_unpublished:
  "\<exists>es s r. send_run ''nonce too low'' sample_config es s \<and> send_returned s \<and> sy_result s = Some r \<and>
     clearResult r = Some ErrClearPendingRetry \<and>
     list_all (\<lambda>e. case e of Send _ _ \<Rightarrow> False | Cancel _ \<Rightarrow> False | _ \<Rightarrow> True) es"
proof -
  let ?init = "\<lparr>sy_state = \<lparr>minedTxs = [], nonceTooLowCount = 0, safeAbortNonceTooLowCount = 1\<rparr>,
     sy_tasks = [Start], sy_cancelled = None, sy_chan = None, sy_result = None\<rparr>"
  let ?final = "?init\<lparr>sy_tasks := [Finished], sy_cancelled := Some context_Canceled\<rparr>"
  have "send_run ''nonce too low'' sample_config [] ?init"
    by (rule send_run.begin_run) (simp add: send_init_def NewSendState_def sample_config_def)
  from send_run.step_run [OF this send_step.update [of 0 _ _ _ "Inl (ErrNew ''dial failed'')"]]
  have "send_run ''nonce too low'' sample_config [Update (Inl (ErrNew ''dial failed''))] ?final"
    by (simp add: afterUpdate_def goto_def cancel_def isCanceled_def context_Canceled_def)
  from send_run.step_run [OF this send_step.cancelled [of _ context_Canceled]]
  have "send_run ''nonce too low'' sample_config [Update (Inl (ErrNew ''dial failed'')), Internal]
      (?final\<lparr>sy_result := Some (None, Some context_Canceled)\<rparr>)" by simp
  moreover have "send_returned (?final\<lparr>sy_result := Some (None, Some context_Canceled)\<rparr>)"
    by (simp add: send_returned_def)
  moreover have "clearResult (None, Some context_Canceled) = Some ErrClearPendingRetry" by (simp add: clearResult_def)
  ultimately show ?thesis
    by (intro exI [of _ "[Update (Inl (ErrNew ''dial failed'')), Internal]"]
        exI [of _ "?final\<lparr>sy_result := Some (None, Some context_Canceled)\<rparr>"] exI [of _ "(None, Some context_Canceled)"]) simp
qed

end
