(* ===== verification/Batch_Service.thy ===== *)
theory Batch_Service
  imports Batch_Driver
begin

text \<open>
  The event loop of a batch submission service (\<open>bss-core/service.go\<close>): the clearing of the mempool
  at startup and one round of the polling loop, over the driver's interface and the transaction
  manager. The last section composes it with the sequencer driver and with the runs of \<open>Send\<close>.
\<close>

section \<open>The service\<close>

record 'w Driver =
  dr_GetBatchBlockRange :: "('w, int \<times> int) sm"
  dr_CraftBatchTx :: "int \<Rightarrow> int \<Rightarrow> int \<Rightarrow> ('w, L1Tx option) sm"
  dr_ClearPendingTx :: "('w, unit) sm"

text \<open>The world, and the two counters of the metrics that record the outcome of submissions.\<close>

record 'w service =
  sv_world :: 'w
  sv_BatchesSubmitted :: nat
  sv_FailedSubmissions :: nat

definition onWorld :: "('w, 'a) sm \<Rightarrow> ('w service, 'a) sm" where
  "onWorld m s = (case m (sv_world s) of (r, w) \<Rightarrow> (r, s\<lparr>sv_world := w\<rparr>))"

definition InitService :: "'w backend \<Rightarrow> ('w service, unit) sm" where
  "InitService be = bindM (onWorld (be_BalanceAt be)) (\<lambda>balance. retM ())"

text \<open>How a round of the loop ends; only \<open>Published\<close> and \<open>Unpublished\<close> have sent anything.\<close>

datatype round = NoBalance | NoRange | NoUpdates | NoNonce | NotCrafted | NothingToDo | NotEncoded
  | Unpublished goerr | Published Receipt

definition maxClearRetries :: nat where
  "maxClearRetries = 3"

fun clearRetries :: "nat \<Rightarrow> ('w, unit) sm \<Rightarrow> ('w, unit) sm" where
  "clearRetries 0 clear = retM ()"
| "clearRetries (Suc n) clear =
     bindM (attemptM clear) (\<lambda>r. case r of
       Inr _ \<Rightarrow> retM ()
     | Inl err \<Rightarrow> if 0 < n then clearRetries n clear else panicM ''Unable to confirm a clearing transaction'')"

definition clearPending :: "bool \<Rightarrow> 'w Driver \<Rightarrow> ('w service, unit) sm" where
  "clearPending enabled dr =
     (if enabled then onWorld (clearRetries maxClearRetries (dr_ClearPendingTx dr)) else retM ())"

text \<open>
  The second half of a round, with the crafted transaction. \<open>encodes\<close> is \<open>tx.EncodeRLP\<close>, whose output
  is only measured; \<open>send tx\<close> is \<open>txMgr.Send\<close> with the callbacks for \<open>tx\<close>.
\<close>

definition serviceSubmit :: "(L1Tx \<Rightarrow> unit res) \<Rightarrow> (L1Tx \<Rightarrow> ('w, Receipt option \<times> goerr option) sm)
    \<Rightarrow> L1Tx \<Rightarrow> ('w service, round) sm" where
  "serviceSubmit encodes send tx =
     bindM (attemptM (liftR (encodes tx))) (\<lambda>r. case r of Inl _ \<Rightarrow> retM NotEncoded | Inr _ \<Rightarrow>
     bindM (onWorld (send tx)) (\<lambda>result. case snd result of
       Some e \<Rightarrow> seqM (modM (\<lambda>s. s\<lparr>sv_FailedSubmissions := sv_FailedSubmissions s + 1\<rparr>)) (retM (Unpublished e))
     | None \<Rightarrow> bindM (liftR (derefR (fst result))) (\<lambda>receipt.
         seqM (modM (\<lambda>s. s\<lparr>sv_BatchesSubmitted := sv_BatchesSubmitted s + 1\<rparr>)) (retM (Published receipt)))))"

text \<open>One round, after a tick.\<close>

definition serviceRound :: "'w backend \<Rightarrow> 'w Driver \<Rightarrow> (L1Tx \<Rightarrow> unit res)
    \<Rightarrow> (L1Tx \<Rightarrow> ('w, Receipt option \<times> goerr option) sm) \<Rightarrow> ('w service, round) sm" where
  "serviceRound be dr encodes send =
     bindM (attemptM (onWorld (be_BalanceAt be))) (\<lambda>r. case r of Inl _ \<Rightarrow> retM NoBalance | Inr balance \<Rightarrow>
     bindM (attemptM (onWorld (dr_GetBatchBlockRange dr))) (\<lambda>r. case r of Inl _ \<Rightarrow> retM NoRange | Inr (start, end') \<Rightarrow>
     if start = end' then retM NoUpdates else
     bindM (attemptM (onWorld (be_NonceAt be))) (\<lambda>r. case r of Inl _ \<Rightarrow> retM NoNonce | Inr nonce64 \<Rightarrow>
     bindM (attemptM (onWorld (dr_CraftBatchTx dr start end' (uint nonce64)))) (\<lambda>r. case r of
       Inl _ \<Rightarrow> retM NotCrafted
     | Inr None \<Rightarrow> retM NothingToDo
     | Inr (Some tx) \<Rightarrow> serviceSubmit encodes send tx))))"

fun serviceRounds :: "nat \<Rightarrow> 'w backend \<Rightarrow> 'w Driver \<Rightarrow> (L1Tx \<Rightarrow> unit res)
    \<Rightarrow> (L1Tx \<Rightarrow> ('w, Receipt option \<times> goerr option) sm) \<Rightarrow> ('w service, round list) sm" where
  "serviceRounds 0 be dr encodes send = retM []"
| "serviceRounds (Suc n) be dr encodes send =
     bindM (serviceRound be dr encodes send) (\<lambda>r.
     bindM (serviceRounds n be dr encodes send) (\<lambda>rs. retM (r # rs)))"

text \<open>\<open>eventLoop\<close> until the context is done after \<open>n\<close> ticks.\<close>

definition eventLoop :: "nat \<Rightarrow> bool \<Rightarrow> 'w backend \<Rightarrow> 'w Driver \<Rightarrow> (L1Tx \<Rightarrow> unit res)
    \<Rightarrow> (L1Tx \<Rightarrow> ('w, Receipt option \<times> goerr option) sm) \<Rightarrow> ('w service, round list) sm" where
  "eventLoop n clear be dr encodes send = seqM (clearPending clear dr) (serviceRounds n be dr encodes send)"

definition sequencerDriver :: "'w backend \<Rightarrow> SeqConfig \<Rightarrow> (Transaction \<Rightarrow> byte list res)
    \<Rightarrow> (u64 \<Rightarrow> ('w, Receipt option \<times> goerr option) sm) \<Rightarrow> 'w Driver" where
  "sequencerDriver be cfg enc sendClearing =
     \<lparr>dr_GetBatchBlockRange = GetBatchBlockRange be cfg,
      dr_CraftBatchTx = (\<lambda>start end' nonce. bindM (CraftBatchTx be cfg enc start end' nonce) (\<lambda>tx. retM (Some tx))),
      dr_ClearPendingTx = ClearPendingTx be sendClearing\<rparr>"

section \<open>Publications come from the driver\<close>

definition sys_updated :: "event list \<Rightarrow> sendSys \<Rightarrow> bool" where
  "sys_updated es s \<longleftrightarrow> (\<forall>tx. Publish tx \<in> set (sy_tasks s) \<longrightarrow> Update (Inr tx) \<in> set es) \<and>
     (\<forall>tx err. Send tx err \<in> set es \<longrightarrow> Update (Inr tx) \<in> set es)"

lemma updated_goto:
  "sys_updated es s \<Longrightarrow> (\<And>tx. t = Publish tx \<Longrightarrow> Update (Inr tx) \<in> set es) \<Longrightarrow> sys_updated es (goto i t s)"
  using set_update_subset_insert [of "sy_tasks s" i t] by (auto simp: sys_updated_def)

lemma updated_frame [simp]:
  "sys_updated es (cancel s) \<longleftrightarrow> sys_updated es s"
  "sys_updated es (s\<lparr>sy_state := x\<rparr>) \<longleftrightarrow> sys_updated es s"
  "sys_updated es (s\<lparr>sy_chan := c\<rparr>) \<longleftrightarrow> sys_updated es s"
  "sys_updated es (s\<lparr>sy_result := r\<rparr>) \<longleftrightarrow> sys_updated es s"
  "sys_updated es (s\<lparr>sy_cancelled := k\<rparr>) \<longleftrightarrow> sys_updated es s"
  "goto i t (s\<lparr>sy_state := x\<rparr>) = (goto i t s)\<lparr>sy_state := x\<rparr>"
  by (simp_all add: sys_updated_def goto_def)

lemma updated_more:
  "sys_updated es s \<Longrightarrow> (\<And>tx err. e = Send tx err \<Longrightarrow> Publish tx \<in> set (sy_tasks s)) \<Longrightarrow> sys_updated (es @ [e]) s"
  by (auto simp: sys_updated_def)

lemma send_step_Send: "send_step ntl cfg s (Send tx err) s' \<Longrightarrow> Publish tx \<in> set (sy_tasks s)"
  by (auto elim!: send_step.cases simp: in_set_conv_nth)

lemma updated_step:
  assumes "send_step ntl cfg s e s'" and inv: "sys_updated es s"
  shows "sys_updated (es @ [e]) s'"
proof -
  have more: "sys_updated (es @ [e]) s"
    using assms(1) by (intro updated_more [OF inv]) (simp add: send_step_Send)
  have go: "sys_updated (es @ [e]) (goto i t s)" if "\<And>tx. t = Publish tx \<Longrightarrow> e = Update (Inr tx)" for i t
    using more that by (intro updated_goto) auto
  have to: "sys_updated (es @ [e]) (goto i Finished s)" "sys_updated (es @ [e]) (goto i (Query tx) s)"
    "sys_updated (es @ [e]) (goto i (Sleep tx) s)" "sys_updated (es @ [e]) (goto i (Mined tx r) s)"
    "sys_updated (es @ [e]) (goto i (Report r) s)" "sys_updated (es @ [e]) (goto i Refused s)" for i tx r
    by (rule go, simp)+
  from assms(1) show ?thesis
  proof cases
    case (update i a)
    have "sys_updated (es @ [e]) (goto i (Publish tx) s)" if "a = Inr tx" for tx
      using that update(1) by (intro go) simp
    then show ?thesis unfolding update(2) afterUpdate_def by (simp add: to split: sum.split)
  next
    case (publish i tx err)
    show ?thesis unfolding publish(2) by (simp add: afterSend_def Let_def to split: option.split)
  next
    case (refused i)
    show ?thesis unfolding refused(2) by (simp add: afterRefusal_def to)
  next
    case (query i tx receipt err)
    show ?thesis unfolding query(2) by (simp add: afterQuery_def to split: option.split)
  next
    case (tip i tx r a)
    show ?thesis unfolding tip(2) by (simp add: afterTip_def to split: sum.split)
  next
    case (wake i tx)
    show ?thesis unfolding wake(2) by (simp add: to)
  next
    case (stop i tx k)
    show ?thesis unfolding stop(2) by (simp add: to)
  next
    case (reported i r)
    show ?thesis unfolding reported(2) by (simp add: report_def Let_def to split: option.split)
  next
    case resubmission
    show ?thesis unfolding resubmission(2) using more by (simp add: resubmit_def sys_updated_def)
  next
    case (received r)
    show ?thesis unfolding received(2) using more by (simp add: returnReceipt_def sys_updated_def)
  qed (use more in auto)
qed

lemma updated_run: "send_run ntl cfg es s \<Longrightarrow> sys_updated es s"
proof (induction rule: send_run.induct)
  case (begin_run s)
  then show ?case by (auto simp: send_init_def bindR_Ok_iff sys_updated_def)
qed (rule updated_step)

section \<open>A published batch is on chain\<close>

lemma attemptM_Ok_iff:
  "attemptM m s = (Ok x, s') \<longleftrightarrow>
     (\<exists>a. x = Inr a \<and> m s = (Ok a, s')) \<or> (\<exists>e. x = Inl e \<and> m s = (Fail e, s'))"
  by (auto simp: attemptM_def split: prod.splits res.splits)

lemma onWorld_Ok: "onWorld m s = (Ok a, s') \<Longrightarrow> m (sv_world s) = (Ok a, sv_world s')"
  by (auto simp: onWorld_def split: prod.splits)

lemma submit_Published:
  assumes "serviceSubmit encodes send tx s = (Ok (Published r), s')"
  shows "\<exists>w'. send tx (sv_world s) = (Ok (Some r, None), w') \<and>
    sv_BatchesSubmitted s' = Suc (sv_BatchesSubmitted s) \<and> sv_FailedSubmissions s' = sv_FailedSubmissions s"
proof -
  obtain result s1 where send: "onWorld (send tx) s = (Ok result, s1)"
    and rest: "(case snd result of
       Some e \<Rightarrow> seqM (modM (\<lambda>s. s\<lparr>sv_FailedSubmissions := sv_FailedSubmissions s + 1\<rparr>)) (retM (Unpublished e))
     | None \<Rightarrow> bindM (liftR (derefR (fst result))) (\<lambda>receipt.
         seqM (modM (\<lambda>s. s\<lparr>sv_BatchesSubmitted := sv_BatchesSubmitted s + 1\<rparr>)) (retM (Published receipt)))) s1 =
      (Ok (Published r), s')"
    using assms unfolding serviceSubmit_def
    by (auto simp: attemptM_Ok_iff retM_def liftR_def elim!: bindM_OkE split: sum.splits)
  from rest have "result = (Some r, None) \<and> s' = s1\<lparr>sv_BatchesSubmitted := sv_BatchesSubmitted s1 + 1\<rparr>"
    by (cases result; cases "fst result"; cases "snd result")
      (auto simp: seqM_def bindM_def modM_def retM_def liftR_def)
  with send show ?thesis by (auto simp: onWorld_def split: prod.splits)
qed

lemma round_Published:
  assumes "serviceRound be dr encodes send s = (Ok (Published r), s')"
  shows "\<exists>w1 start end' w2 n w3 tx w4 w5. dr_GetBatchBlockRange dr w1 = (Ok (start, end'), w2) \<and> start \<noteq> end' \<and>
    dr_CraftBatchTx dr start end' (uint (n :: u64)) w3 = (Ok (Some tx), w4) \<and> send tx w4 = (Ok (Some r, None), w5)"
proof -
  from assms obtain s1 s2 start end' where 1: "onWorld (dr_GetBatchBlockRange dr) s1 = (Ok (start, end'), s2)" "start \<noteq> end'"
    and "bindM (attemptM (onWorld (be_NonceAt be))) (\<lambda>r. case r of Inl _ \<Rightarrow> retM NoNonce | Inr nonce64 \<Rightarrow>
     bindM (attemptM (onWorld (dr_CraftBatchTx dr start end' (uint nonce64)))) (\<lambda>r. case r of
       Inl _ \<Rightarrow> retM NotCrafted
     | Inr None \<Rightarrow> retM NothingToDo
     | Inr (Some tx) \<Rightarrow> serviceSubmit encodes send tx)) s2 = (Ok (Published r), s')"
    unfolding serviceRound_def
    by (auto simp: attemptM_Ok_iff retM_def elim!: bindM_OkE split: sum.splits if_splits)
  then obtain n s3 tx s4 where 2: "onWorld (dr_CraftBatchTx dr start end' (uint (n :: u64))) s3 = (Ok (Some tx), s4)"
    and 3: "serviceSubmit encodes send tx s4 = (Ok (Published r), s')"
    by (auto simp: attemptM_Ok_iff retM_def elim!: bindM_OkE split: sum.splits option.splits)
  from onWorld_Ok [OF 1(1)] 1(2) onWorld_Ok [OF 2] submit_Published [OF 3] show ?thesis by blast
qed

text \<open>
  \<open>send tx\<close> is \<open>SimpleTxManager.Send\<close> with the sequencer's callback for \<open>tx\<close>: a returned result is that of
  a run whose transactions \<open>UpdateGasPrice\<close> made.
\<close>

definition sends_for :: "string \<Rightarrow> TxmgrConfig \<Rightarrow> 'w backend \<Rightarrow> SeqConfig
    \<Rightarrow> (L1Tx \<Rightarrow> ('w, Receipt option \<times> goerr option) sm) \<Rightarrow> bool" where
  "sends_for ntl mcfg be cfg send \<longleftrightarrow> (\<forall>tx w r e w'. send tx w = (Ok (r, e), w') \<longrightarrow>
     (\<exists>es s. send_run ntl mcfg es s \<and> sy_result s = Some (r, e) \<and>
        (\<forall>tx'. Update (Inr tx') \<in> set es \<longrightarrow> (\<exists>w1 w2. UpdateGasPrice be cfg tx w1 = (Ok tx', w2)))))"

lemma round_posts:
  assumes rnd: "serviceRound be (sequencerDriver be cfg enc sendClearing) encodes send s = (Ok (Published r), s')"
    and sends: "sends_for ntl mcfg be cfg send" and tr: "transacts be"
    and chain: "\<forall>i w. be_L2Block be i w = (Ok (chain i), w)"
    and conf: "0 \<le> sint (sq_MinRollupTxn cfg)" "0 \<le> sint (sq_MaxRollupTxn cfg)"
    and bt: "sq_BatchType cfg = BatchTypeZlib \<or>
      sq_BatchType cfg = BatchTypeLegacy \<and> (\<forall>i. blk_time (chain i) \<noteq> 0)"
  obtains w1 w2 start end' es sys tx bs els cs total where "GetBatchBlockRange be cfg w1 = (Ok (start, end'), w2)"
    "start < end'" "send_run ntl mcfg es sys"
    "sy_result sys = Some (Some r, None)"
    "\<exists>err tip. subseq [Send tx None, Asked tx (Some r) err, Tip (Inr tip)] es \<and> isConfirmed (NumConfirmations mcfg) r tip"
    "l1_Data tx = sq_appendSequencerBatchID cfg @ bs"
    "list_all2 (\<lambda>i e. BatchElementFromBlock enc (chain i) = Ok e) [start..end' - 1] els"
    "readHeader (q, bytes_reader bs) = (Ok (sq_BatchType cfg), (q\<lparr>ShouldStartAtElement :=
        big_Uint64 start - sq_BlockOffset cfg, TotalElementsToAppend := total, Contexts := cs\<rparr>, bytes_reader []))"
    "unat total = nat (end' - start)" "describes cs els"
proof -
  from round_Published [OF rnd] obtain w1 start end' w2 n w3 tx0 w4 w5 where
      range: "GetBatchBlockRange be cfg w1 = (Ok (start, end'), w2)" and ne: "start \<noteq> end'"
    and craft: "CraftBatchTx be cfg enc start end' (uint (n :: u64)) w3 = (Ok tx0, w4)"
    and send: "send tx0 w4 = (Ok (Some r, None), w5)"
    by (auto simp: sequencerDriver_def retM_def elim!: bindM_OkE)
  have lt: "start < end'" "end' - start < 2 ^ 64"
    using range_bounds [OF range conf] ne sint_lt [of "sq_MaxRollupTxn cfg"] by auto
  have blocks: "\<forall>i w. start \<le> i \<and> i < end' \<longrightarrow> be_L2Block be i w = (Ok (chain i), w)" using chain by simp
  have "sq_BatchType cfg = BatchTypeZlib \<or>
      sq_BatchType cfg = BatchTypeLegacy \<and> (start < end' \<longrightarrow> blk_time (chain start) \<noteq> 0)" using bt by blast
  from crafted_describes [OF craft tr blocks lt(2) this, of q] obtain bs els cs total where
      data: "l1_Data tx0 = sq_appendSequencerBatchID cfg @ bs"
    and batch: "list_all2 (\<lambda>i e. BatchElementFromBlock enc (chain i) = Ok e) [start..end' - 1] els"
      "readHeader (q, bytes_reader bs) = (Ok (sq_BatchType cfg), (q\<lparr>ShouldStartAtElement :=
        big_Uint64 start - sq_BlockOffset cfg, TotalElementsToAppend := total, Contexts := cs\<rparr>, bytes_reader []))"
      "unat total = nat (end' - start)" "describes cs els" by blast
  from sends send obtain es sys where run: "send_run ntl mcfg es sys" "sy_result sys = Some (Some r, None)"
    and made: "\<And>tx'. Update (Inr tx') \<in> set es \<Longrightarrow> \<exists>w1 w2. UpdateGasPrice be cfg tx0 w1 = (Ok tx', w2)"
    unfolding sends_for_def by blast
  have "settled mcfg es r" using traced_run [OF run(1)] run(2) by (simp add: sys_traced_def)
  then obtain tx err tip where tx: "subseq [Send tx None, Asked tx (Some r) err, Tip (Inr tip)] es"
      "isConfirmed (NumConfirmations mcfg) r tip" unfolding settled_def by blast
  then have "Send tx None \<in> set es" using list_emb_set [of "(=)" _ es "Send tx None"] by fastforce
  then have "Update (Inr tx) \<in> set es" using updated_run [OF run(1)] unfolding sys_updated_def by blast
  then have "l1_Data tx = l1_Data tx0" using made same_batch [OF _ tr] by blast
  with data have "l1_Data tx = sq_appendSequencerBatchID cfg @ bs" by simp
  with that [OF range lt(1) run _ this batch] tx show thesis by blast
qed

text \<open>C1: when a round of the service reports a published batch, a run of \<open>Send\<close> published a
  transaction that is on chain with the configured number of confirmations and has not reverted, and
  its calldata is the selector and a batch header that describes exactly the L2 blocks of the
  non-empty range that \<open>GetBatchBlockRange\<close> found due. The
  service, the driver, the encoding and the transaction manager are composed as the program
  composes them.\<close>

theorem service_posts_batch:
  assumes "serviceRound be (sequencerDriver be cfg enc sendClearing) encodes send s = (Ok (Published r), s')"
    and "sends_for ntl mcfg be cfg send" and "transacts be"
    and "\<forall>i w. be_L2Block be i w = (Ok (chain i), w)"
    and "0 \<le> sint (sq_MinRollupTxn cfg)" and "0 \<le> sint (sq_MaxRollupTxn cfg)"
    and "sq_BatchType cfg = BatchTypeZlib \<or>
      sq_BatchType cfg = BatchTypeLegacy \<and> (\<forall>i. blk_time (chain i) \<noteq> 0)"
    and "unat (block_height r) + unat (NumConfirmations mcfg) < 2 ^ 64"
  shows "rc_Status r \<noteq> ReceiptStatusFailed \<and>
    (\<exists>w1 w2 start end' es sys tx err tip bs els cs total.
      GetBatchBlockRange be cfg w1 = (Ok (start, end'), w2) \<and> start < end' \<and>
      send_run ntl mcfg es sys \<and> sy_result sys = Some (Some r, None) \<and>
      subseq [Send tx None, Asked tx (Some r) err, Tip (Inr tip)] es \<and>
      unat (block_height r) + unat (NumConfirmations mcfg) \<le> unat tip + 1 \<and>
      l1_Data tx = sq_appendSequencerBatchID cfg @ bs \<and>
      list_all2 (\<lambda>i e. BatchElementFromBlock enc (chain i) = Ok e) [start..end' - 1] els \<and>
      readHeader (q, bytes_reader bs) = (Ok (sq_BatchType cfg), (q\<lparr>ShouldStartAtElement :=
        big_Uint64 start - sq_BlockOffset cfg, TotalElementsToAppend := total, Contexts := cs\<rparr>, bytes_reader [])) \<and>
      unat total = nat (end' - start) \<and> describes cs els)"
proof -
  obtain w1 w2 start end' es sys tx bs els cs total where
    post: "GetBatchBlockRange be cfg w1 = (Ok (start, end'), w2)" "start < end'" "send_run ntl mcfg es sys"
    "sy_result sys = Some (Some r, None)"
    "\<exists>err tip. subseq [Send tx None, Asked tx (Some r) err, Tip (Inr tip)] es \<and> isConfirmed (NumConfirmations mcfg) r tip"
    "l1_Data tx = sq_appendSequencerBatchID cfg @ bs"
    "list_all2 (\<lambda>i e. BatchElementFromBlock enc (chain i) = Ok e) [start..end' - 1] els"
    "readHeader (q, bytes_reader bs) = (Ok (sq_BatchType cfg), (q\<lparr>ShouldStartAtElement :=
        big_Uint64 start - sq_BlockOffset cfg, TotalElementsToAppend := total, Contexts := cs\<rparr>, bytes_reader []))"
    "unat total = nat (end' - start)" "describes cs els"
    by (rule round_posts [OF assms(1-7)])
  have "(Some r, None) = result_of r" using traced_run [OF post(3)] post(4) by (simp add: sys_traced_def)
  then have "rc_Status r \<noteq> ReceiptStatusFailed" by (auto simp: result_of_def split: if_splits)
  moreover obtain err tip where "subseq [Send tx None, Asked tx (Some r) err, Tip (Inr tip)] es"
      "isConfirmed (NumConfirmations mcfg) r tip" using post(5) by blast
  ultimately show ?thesis using post(1-4,6-10) confirmed_depth [OF _ assms(8)] by blast
qed

definition sample_service :: "unit service" where
  "sample_service = \<lparr>sv_world = (), sv_BatchesSubmitted = 0, sv_FailedSubmissions = 0\<rparr>"

definition sample_send :: "L1Tx \<Rightarrow> (unit, Receipt option \<times> goerr option) sm" where
  "sample_send tx = retM (Some sample_receipt, None)"

lemma sample_update_any:
  "UpdateGasPrice sample_backend sample_seq tx () = (Ok (sample_l1tx\<lparr>l1_Nonce := l1_Nonce tx, l1_Data := l1_Data tx\<rparr>), ())"
  by (simp add: UpdateGasPrice_def sample_backend_def gasTipCapOrFallback_def attemptM_def bindM_def res_simps Let_def
      updateOpts_def sample_seq_def sample_transact_def)

lemma sample_sends: "sends_for ''nonce too low'' sample_config sample_backend sample_seq sample_send"
  unfolding sends_for_def
proof (intro allI impI)
  fix tx w r e w'
  assume "sample_send tx w = (Ok (r, e), w')"
  then have r: "r = Some sample_receipt" "e = None" by (auto simp: sample_send_def retM_def)
  let ?tx = "sample_l1tx\<lparr>l1_Nonce := l1_Nonce tx, l1_Data := l1_Data tx\<rparr>"
  obtain s where "send_run ''nonce too low'' sample_config (sample_events ?tx @ [Internal, Internal]) s"
      "sy_result s = Some (Some sample_receipt, None)"
    using sample_done [of ?tx] by (auto simp: sample_l1tx_def)
  moreover have "tx' = ?tx" if "Update (Inr tx') \<in> set (sample_events ?tx @ [Internal, Internal])" for tx'
    using that by (simp add: sample_events_def)
  ultimately show "\<exists>es s. send_run ''nonce too low'' sample_config es s \<and> sy_result s = Some (r, e) \<and>
      (\<forall>tx'. Update (Inr tx') \<in> set es \<longrightarrow> (\<exists>w1 w2. UpdateGasPrice sample_backend sample_seq tx w1 = (Ok tx', w2)))"
    using sample_update_any [of tx] r by metis
qed

lemma sample_round:
  "serviceRound sample_backend (sequencerDriver sample_backend sample_seq sample_enc (\<lambda>_. failM io_EOF))
     (\<lambda>_. Ok ()) sample_send sample_service =
   (Ok (Published sample_receipt), sample_service\<lparr>sv_BatchesSubmitted := 1\<rparr>)"
proof -
  have calls: "be_BalanceAt sample_backend () = (Ok 0, ())" "be_NonceAt sample_backend () = (Ok 3, ())"
    by (simp_all add: sample_backend_def retM_def)
  show ?thesis
    by (simp add: serviceRound_def serviceSubmit_def sequencerDriver_def onWorld_def sample_service_def attemptM_def
        bindM_def calls sample_range sample_craft sample_send_def res_simps)
qed

theorem service_posts_batch_witness:
  "rc_Status sample_receipt \<noteq> ReceiptStatusFailed \<and>
    (\<exists>w1 w2 start end' es sys tx err tip bs els cs total.
      GetBatchBlockRange sample_backend sample_seq w1 = (Ok (start, end'), w2) \<and> start < end' \<and>
      send_run ''nonce too low'' sample_config es sys \<and> sy_result sys = Some (Some sample_receipt, None) \<and>
      subseq [Send tx None, Asked tx (Some sample_receipt) err, Tip (Inr tip)] es \<and>
      unat (block_height sample_receipt) + unat (NumConfirmations sample_config) \<le> unat tip + 1 \<and>
      l1_Data tx = sq_appendSequencerBatchID sample_seq @ bs \<and>
      list_all2 (\<lambda>i e. BatchElementFromBlock sample_enc (sample_chain i) = Ok e) [start..end' - 1] els \<and>
      readHeader (sample_batch_params, bytes_reader bs) = (Ok (sq_BatchType sample_seq), (sample_batch_params\<lparr>ShouldStartAtElement :=
        big_Uint64 start - sq_BlockOffset sample_seq, TotalElementsToAppend := total, Contexts := cs\<rparr>, bytes_reader [])) \<and>
      unat total = nat (end' - start) \<and> describes cs els)"
proof (rule service_posts_batch [OF sample_round sample_sends sample_transacts])
  show "\<forall>i w. be_L2Block sample_backend i w = (Ok (sample_chain i), w)" by (simp add: sample_backend_def retM_def)
qed (simp_all add: sample_seq_def sample_chain_def sample_receipt_def sample_config_def block_height_def)

end
