(* ===== verification/Tx_Batch.thy ===== *)
theory Tx_Batch
  imports Sequencer_Batch
begin

text \<open>
  The transaction batches and assertions of the fraud-proof module
  (\<open>fraud-proof/rollup/types/tx_batch.go\<close> and \<open>assertion.go\<close>): a batch made of L2 blocks, its
  arguments for the sequencer inbox, the assertion it leads to, and the decoding of such arguments.
  The RLP codec of a transaction is a parameter.
\<close>

section \<open>Batches of blocks\<close>

record SequenceContext =
  sc_NumTxs :: u64
  sc_BlockNumber :: u64
  sc_Timestamp :: u64

record TxBatch =
  tb_Blocks :: "L2Block list"
  tb_Contexts :: "SequenceContext list"
  tb_Txs :: "Transaction list"
  tb_GasUsed :: int

record Assertion =
  as_ID :: int
  as_VmHash :: "byte list"
  as_InboxSize :: int
  as_Parent :: "int option"
  as_Deadline :: "int option"
  as_ProposalTime :: "int option"

text \<open>\<open>Copy\<close> drops the parent and the proposal time; it needs a deadline to copy.\<close>

definition Assertion_Copy :: "Assertion \<Rightarrow> Assertion res" where
  "Assertion_Copy a = bindR (derefR (as_Deadline a)) (\<lambda>deadline.
     Ok \<lparr>as_ID = as_ID a, as_VmHash = as_VmHash a, as_InboxSize = as_InboxSize a,
       as_Parent = None, as_Deadline = Some deadline, as_ProposalTime = None\<rparr>)"

definition sequenceContext :: "L2Block \<Rightarrow> SequenceContext" where
  "sequenceContext block = \<lparr>sc_NumTxs = of_nat (length (blk_txs block)),
     sc_BlockNumber = big_Uint64 (blk_number block), sc_Timestamp = blk_time block\<rparr>"

definition NewTxBatch :: "L2Block list \<Rightarrow> TxBatch" where
  "NewTxBatch blocks = fold (\<lambda>block b.
     b\<lparr>tb_Contexts := tb_Contexts b @ [sequenceContext block],
       tb_Txs := tb_Txs b @ blk_txs block,
       tb_GasUsed := tb_GasUsed b + uint (blk_gasUsed block)\<rparr>)
     blocks \<lparr>tb_Blocks = blocks, tb_Contexts = [], tb_Txs = [], tb_GasUsed = 0\<rparr>"

definition LastBlockNumber :: "TxBatch \<Rightarrow> u64" where
  "LastBlockNumber b = (if length (tb_Contexts b) = 0 then 0
     else sc_BlockNumber (tb_Contexts b ! (length (tb_Contexts b) - 1)))"

definition LastBlockRoot :: "TxBatch \<Rightarrow> byte list" where
  "LastBlockRoot b = (if length (tb_Blocks b) = 0 then replicate 32 0
     else blk_root (tb_Blocks b ! (length (tb_Blocks b) - 1)))"

definition InboxSize :: "TxBatch \<Rightarrow> int" where
  "InboxSize b = int (length (tb_Txs b))"

text \<open>The last block number goes through \<open>int64\<close>.\<close>

definition ToAssertion :: "TxBatch \<Rightarrow> Assertion \<Rightarrow> Assertion" where
  "ToAssertion b parent = \<lparr>as_ID = as_ID parent + 1, as_VmHash = LastBlockRoot b,
     as_InboxSize = sint (LastBlockNumber b), as_Parent = Some (as_ID parent),
     as_Deadline = None, as_ProposalTime = None\<rparr>"

section \<open>Arguments of the sequencer inbox\<close>

definition contextArgs :: "SequenceContext \<Rightarrow> int list" where
  "contextArgs ctx = [uint (sc_NumTxs ctx), uint (sc_BlockNumber ctx), uint (sc_Timestamp ctx)]"

definition writeTx :: "(Transaction \<Rightarrow> byte list res) \<Rightarrow> byte list \<Rightarrow> Transaction \<Rightarrow> byte list res" where
  "writeTx enc w tx = bindR (enc tx) (\<lambda>txBytes. Ok (w @ txBytes))"

fun writeTxs :: "(Transaction \<Rightarrow> byte list res) \<Rightarrow> Transaction list \<Rightarrow> int list \<Rightarrow> byte list
    \<Rightarrow> (int list \<times> byte list) res" where
  "writeTxs enc [] txLengths buf = Ok (txLengths, buf)"
| "writeTxs enc (tx # txs) txLengths buf =
     bindR (writeTx enc buf tx) (\<lambda>buf'.
       writeTxs enc txs (txLengths @ [int (length buf') - int (length buf)]) buf')"

definition SerializeToArgs :: "(Transaction \<Rightarrow> byte list res) \<Rightarrow> TxBatch \<Rightarrow> (int list \<times> int list \<times> byte list) res" where
  "SerializeToArgs enc b =
     bindR (writeTxs enc (tb_Txs b) [] []) (\<lambda>(txLengths, buf).
       Ok (concat (map contextArgs (tb_Contexts b)), txLengths, buf))"

definition TxBatchParseFailedError :: goerr where
  "TxBatchParseFailedError = Sentinel ''TxBatchParseFailedError''"

text \<open>The values of the decoded call; the type assertions on them panic when they fail.\<close>

datatype argument = Ints "int list" | Bytes "byte list"

fun asInts :: "argument \<Rightarrow> int list res" where
  "asInts (Ints xs) = Ok xs"
| "asInts (Bytes _) = Panic ''interface conversion''"

fun asBytes :: "argument \<Rightarrow> byte list res" where
  "asBytes (Bytes b) = Ok b"
| "asBytes (Ints _) = Panic ''interface conversion''"

fun decodeTxs :: "(byte list \<Rightarrow> Transaction res) \<Rightarrow> int list \<Rightarrow> byte list \<Rightarrow> u64 \<Rightarrow> nat \<Rightarrow> int list
    \<Rightarrow> SequenceContext list \<Rightarrow> Transaction list \<Rightarrow> (SequenceContext list \<times> Transaction list) res" where
  "decodeTxs dec contexts txBatch txLen idx [] ctxs txs = Ok (ctxs, txs)"
| "decodeTxs dec contexts txBatch txLen idx (l # ls) ctxs txs =
     (let length' = big_Uint64 l in
      if of_nat (length txBatch) < txLen + length' then Fail TxBatchParseFailedError
      else
        let ctx = \<lparr>sc_NumTxs = big_Uint64 (contexts ! (3 * idx)),
                   sc_BlockNumber = big_Uint64 (contexts ! (3 * idx + 1)),
                   sc_Timestamp = big_Uint64 (contexts ! (3 * idx + 2))\<rparr>;
            raw = drop (unat txLen) (take (unat (txLen + length')) txBatch)
        in bindR (dec raw) (\<lambda>tx.
             decodeTxs dec contexts txBatch txLen (Suc idx) ls (ctxs @ [ctx]) (txs @ [tx])))"

definition TxBatchFromDecoded :: "(byte list \<Rightarrow> Transaction res) \<Rightarrow> argument list \<Rightarrow> TxBatch res" where
  "TxBatchFromDecoded dec decoded =
     (if length decoded \<noteq> 3 then Fail TxBatchParseFailedError
      else
        bindR (asInts (decoded ! 0)) (\<lambda>contexts.
        bindR (asInts (decoded ! 1)) (\<lambda>txLengths.
        bindR (asBytes (decoded ! 2)) (\<lambda>txBatch.
        let blockNum = length txLengths in
        if length contexts \<noteq> 3 * blockNum then Fail TxBatchParseFailedError
        else bindR (decodeTxs dec contexts txBatch 0 0 txLengths [] []) (\<lambda>(ctxs, txs).
          Ok \<lparr>tb_Blocks = [], tb_Contexts = ctxs, tb_Txs = txs, tb_GasUsed = 0\<rparr>)))))"

section \<open>What the functions compute\<close>

lemma NewTxBatch_eq:
  "NewTxBatch blocks = \<lparr>tb_Blocks = blocks, tb_Contexts = map sequenceContext blocks,
     tb_Txs = concat (map blk_txs blocks), tb_GasUsed = sum_list (map (\<lambda>b. uint (blk_gasUsed b)) blocks)\<rparr>"
proof -
  have "fold (\<lambda>block b. b\<lparr>tb_Contexts := tb_Contexts b @ [sequenceContext block],
       tb_Txs := tb_Txs b @ blk_txs block, tb_GasUsed := tb_GasUsed b + uint (blk_gasUsed block)\<rparr>) bs
     \<lparr>tb_Blocks = blocks, tb_Contexts = cs, tb_Txs = ts, tb_GasUsed = g\<rparr> =
     \<lparr>tb_Blocks = blocks, tb_Contexts = cs @ map sequenceContext bs, tb_Txs = ts @ concat (map blk_txs bs),
      tb_GasUsed = g + sum_list (map (\<lambda>b. uint (blk_gasUsed b)) bs)\<rparr>" for bs cs ts g
    by (induction bs arbitrary: cs ts g) simp_all
  then show ?thesis by (simp add: NewTxBatch_def)
qed

text \<open>A new assertion has no deadline, so its copy panics.\<close>

lemma Assertion_Copy_new: "Assertion_Copy (ToAssertion b parent) = Panic ''nil pointer dereference''"
  by (simp add: Assertion_Copy_def ToAssertion_def)

lemma ToAssertion_last:
  assumes "blocks \<noteq> []" and "0 \<le> blk_number (last blocks)" and "blk_number (last blocks) < 2 ^ 63"
  shows "ToAssertion (NewTxBatch blocks) parent = \<lparr>as_ID = as_ID parent + 1, as_VmHash = blk_root (last blocks),
    as_InboxSize = blk_number (last blocks), as_Parent = Some (as_ID parent), as_Deadline = None, as_ProposalTime = None\<rparr>"
proof -
  have "sint (big_Uint64 (blk_number (last blocks))) = blk_number (last blocks)"
    using assms(2,3) by (simp add: big_Uint64_def signed_of_int signed_take_bit_int_eq_self)
  with assms(1) show ?thesis
    by (simp add: ToAssertion_def NewTxBatch_eq LastBlockRoot_def LastBlockNumber_def sequenceContext_def last_conv_nth)
qed

text \<open>the assertion for a batch of blocks names the state root and the number of its last block
  and continues the parent assertion.\<close>

theorem assertion_of_last_block:
  assumes "blocks \<noteq> []" and "0 \<le> blk_number (last blocks)" and "blk_number (last blocks) < 2 ^ 63"
  shows "ToAssertion (NewTxBatch blocks) parent = \<lparr>as_ID = as_ID parent + 1, as_VmHash = blk_root (last blocks),
    as_InboxSize = blk_number (last blocks), as_Parent = Some (as_ID parent), as_Deadline = None, as_ProposalTime = None\<rparr>"
  by (rule ToAssertion_last [OF assms])

definition sample_block :: "int \<Rightarrow> Transaction \<Rightarrow> L2Block" where
  "sample_block n tx = \<lparr>blk_number = n, blk_time = 1600000000, blk_root = [of_int n], blk_gasUsed = 21000, blk_txs = [tx]\<rparr>"

definition sample_parent :: Assertion where
  "sample_parent = \<lparr>as_ID = 4, as_VmHash = [], as_InboxSize = 0, as_Parent = None, as_Deadline = None, as_ProposalTime = None\<rparr>"

definition sample_tx :: "u64 \<Rightarrow> Transaction" where
  "sample_tx nonce = NewContractCreation nonce None 21000 None []"

theorem assertion_of_last_block_witness:
  "as_InboxSize (ToAssertion (NewTxBatch [sample_block 7 (sample_tx 0), sample_block 8 (sample_tx 1)]) sample_parent) = 8"
  by (subst assertion_of_last_block) (simp_all add: sample_block_def)

section \<open>Decoding\<close>

lemma writeTxs_eq:
  "list_all (\<lambda>t. enc t = Ok (raw t)) txs \<Longrightarrow>
   writeTxs enc txs ls buf = Ok (ls @ map (\<lambda>t. int (length (raw t))) txs, buf @ concat (map raw txs))"
  by (induction txs arbitrary: ls buf) (simp_all add: writeTx_def)

lemma nth_contextArgs:
  "k < length cs \<Longrightarrow> concat (map contextArgs cs) ! (3 * k) = uint (sc_NumTxs (cs ! k)) \<and>
   concat (map contextArgs cs) ! (3 * k + 1) = uint (sc_BlockNumber (cs ! k)) \<and>
   concat (map contextArgs cs) ! (3 * k + 2) = uint (sc_Timestamp (cs ! k))"
proof (induction cs arbitrary: k)
  case (Cons c cs)
  show ?case
  proof (cases k)
    case (Suc j)
    have "3 * Suc j = Suc (Suc (Suc (3 * j)))" by simp
    with Cons Suc show ?thesis by (simp add: contextArgs_def)
  qed (simp add: contextArgs_def)
qed simp

lemma length_contextArgs [simp]: "length (concat (map contextArgs cs)) = 3 * length cs"
  by (induction cs) (simp_all add: contextArgs_def)

text \<open>The offset into the data stays where it is, so every transaction is read from the beginning.\<close>

lemma decodeTxs_first:
  assumes "L \<le> length data" and "length data < 2 ^ 64" and "dec (take L data) = Ok t"
    and "idx + n \<le> length cs"
  shows "decodeTxs dec (concat (map contextArgs cs)) data 0 idx (replicate n (int L)) ctxs txs =
    Ok (ctxs @ take n (drop idx cs), txs @ replicate n t)"
  using assms(4)
proof (induction n arbitrary: idx ctxs txs)
  case (Suc n)
  have L: "big_Uint64 (int L) = of_nat L" "unat (of_nat L :: u64) = L" "unat (of_nat (length data) :: u64) = length data"
    using assms(1,2) by (simp_all add: big_Uint64_def unat_of_nat)
  then have "\<not> of_nat (length data) < (of_nat L :: u64)"
    using assms(1) by (simp only: word_less_nat_alt)
  moreover have "\<lparr>sc_NumTxs = sc_NumTxs (cs ! idx), sc_BlockNumber = sc_BlockNumber (cs ! idx),
      sc_Timestamp = sc_Timestamp (cs ! idx)\<rparr> = cs ! idx" by simp
  moreover have "take (Suc n) (drop idx cs) = cs ! idx # take n (drop (Suc idx) cs)"
    using Suc.prems by (simp add: Cons_nth_drop_Suc [symmetric, of idx])
  ultimately show ?case
    using Suc nth_contextArgs [of idx cs] assms(3) by (simp add: L Let_def)
qed simp

lemma equal_lengths:
  assumes "list_all (\<lambda>t. length (raw t) = L) ts"
  shows "map (\<lambda>t. int (length (raw t))) ts = replicate (length ts) (int L)"
    and "length (concat (map raw ts)) = L * length ts"
  using assms by (induction ts) simp_all


definition nonce_raw :: "Transaction \<Rightarrow> byte list" where
  "nonce_raw t = [ucast (tx_AccountNonce t)]"

definition nonce_dec :: "byte list \<Rightarrow> Transaction res" where
  "nonce_dec bs = (case bs of [b] \<Rightarrow> Ok (sample_tx (ucast b)) | _ \<Rightarrow> Fail io_EOF)"


end
