(* ===== verification/Proposer.thy ===== *)
theory Proposer
  imports Tx_Batch Batch_Driver
begin

text \<open>
  The driver that posts state batches (\<open>batch-submitter/drivers/proposer/driver.go\<close>): the range of
  blocks whose state roots are due, the collection of the roots, the threshold signature, the
  assertion of the fraud-proof rollup contract or the rollback it asks for, and the resubmission.

  Contracts, clients, the signer and the threshold signature service are a record of calls. The
  iterator that a filter call returns has no event before it is advanced.
\<close>

section \<open>State and environment\<close>

record PropConfig =
  pp_BlockOffset :: u64
  pp_MaxStateRootElements :: u64
  pp_MinStateRootElements :: u64
  pp_MinTimeoutStateRootElements :: u64
  pp_FinalityConfirmations :: u64
  pp_RollupTimeout :: int
  pp_PollInterval :: int
  pp_FPRollupAddr :: "byte list"
  pp_SccRollback :: bool
  pp_AllowL2AutoRollback :: bool
  pp_EnableProposerHsm :: bool

record TssResponse =
  ts_Signature :: "byte list"
  ts_RollBack :: bool

record SignStateRequest =
  sr_Type :: u64
  sr_StartBlock :: int
  sr_OffsetStartsAtIndex :: int
  sr_Challenge :: "byte list"
  sr_StateRoots :: "byte list list"

record challengeContext =
  cc_DefenderAssertionID :: int
  cc_Completed :: bool
  cc_ChallengeAddress :: "byte list"

record assertionInfo =
  ai_StateHash :: "byte list"
  ai_InboxSize :: int
  ai_Parent :: int
  ai_Deadline :: int
  ai_ProposalTime :: int

text \<open>
  \<open>pb_now\<close> is \<open>time.Now\<close> in nanoseconds; \<open>pb_Unmarshal\<close> is \<open>json.Unmarshal\<close> of the signer's reply;
  \<open>pb_Credentials\<close> is \<open>hex.DecodeString\<close> of the configured credentials of the key service.
\<close>

record 'w propBackend =
  pb_SccTotalElements :: "('w, int) sm"
  pb_L1Head :: "('w, int) sm"
  pb_CtcTotalElements :: "int \<Rightarrow> ('w, int) sm"
  pb_now :: "('w, int) sm"
  pb_L2Block :: "int \<Rightarrow> ('w, L2Block) sm"
  pb_Credentials :: "('w, unit) sm"
  pb_NewKms :: "('w, unit) sm"
  pb_HsmTransactor :: "('w, TransactOpts) sm"
  pb_KeyedTransactor :: "('w, TransactOpts) sm"
  pb_From :: "byte list"
  pb_GetSignStateBatch :: "SignStateRequest \<Rightarrow> ('w, byte list) sm"
  pb_Unmarshal :: "byte list \<Rightarrow> TssResponse res"
  pb_Owner :: "('w, byte list) sm"
  pb_Registers :: "byte list \<Rightarrow> ('w, byte list) sm"
  pb_StakedAssertion :: "byte list \<Rightarrow> ('w, int) sm"
  pb_Assertions :: "int \<Rightarrow> ('w, assertionInfo) sm"
  pb_LastCreatedAssertionID :: "('w, int) sm"
  pb_CreateAssertion :: "TransactOpts \<Rightarrow> byte list \<Rightarrow> int \<Rightarrow> byte list list \<Rightarrow> int \<Rightarrow> byte list \<Rightarrow> ('w, L1Tx) sm"
  pb_RollbackL2Chain :: "TransactOpts \<Rightarrow> int \<Rightarrow> int \<Rightarrow> byte list \<Rightarrow> ('w, L1Tx) sm"
  pb_AppendStateBatch :: "TransactOpts \<Rightarrow> byte list list \<Rightarrow> int \<Rightarrow> byte list \<Rightarrow> ('w, L1Tx) sm"
  pb_ChallengeCtx :: "('w, challengeContext) sm"
  pb_NewChallenge :: "byte list \<Rightarrow> ('w, unit) sm"
  pb_ChallengeRollback :: "('w, bool) sm"
  pb_Challenger :: "('w, byte list) sm"
  pb_Winner :: "('w, byte list) sm"
  pb_StartInboxSize :: "('w, int) sm"
  pb_SccTotalBatches :: "('w, int) sm"
  pb_FilterStateBatch :: "int \<Rightarrow> ('w, unit) sm"
  pb_RawTransactFP :: "TransactOpts \<Rightarrow> byte list \<Rightarrow> ('w, L1Tx) sm"
  pb_RawTransactScc :: "TransactOpts \<Rightarrow> byte list \<Rightarrow> ('w, L1Tx) sm"

record 'w proposer =
  pr_world :: 'w
  pr_lastStart :: int
  pr_lastCommitTime :: int
  pr_rollbackEndBlock :: int
  pr_rollbackEndStateRoot :: "byte list"

definition callP :: "('w, 'a) sm \<Rightarrow> ('w proposer, 'a) sm" where
  "callP m s = (case m (pr_world s) of (r, w) \<Rightarrow> (r, s\<lparr>pr_world := w\<rparr>))"

section \<open>The range\<close>

definition blockBuffer :: int where
  "blockBuffer = 2"

text \<open>The error of the second element count is not looked at: the count is nil there.\<close>

definition proposer_GetBatchBlockRange :: "'w propBackend \<Rightarrow> PropConfig \<Rightarrow> ('w, int \<times> int) sm" where
  "proposer_GetBatchBlockRange pb cfg =
     bindM (pb_SccTotalElements pb) (\<lambda>total.
     let start = total + uint (pp_BlockOffset cfg) in
     bindM (pb_L1Head pb) (\<lambda>head.
     let finality = uint (pp_FinalityConfirmations cfg) + blockBuffer in
     bindM (attemptM (pb_CtcTotalElements pb (head - finality))) (\<lambda>r.
     bindM (liftR (derefR (case r of Inl _ \<Rightarrow> None | Inr e \<Rightarrow> Some e))) (\<lambda>e.
     let end' = e + uint (pp_BlockOffset cfg) in
     if start > end' then failM (ErrNew ''invalid range, end < start'')
     else retM (start, end')))))"

section \<open>The state batch\<close>

definition RequestTssSignature :: "'w propBackend \<Rightarrow> u64 \<Rightarrow> int \<Rightarrow> int \<Rightarrow> byte list \<Rightarrow> byte list list
    \<Rightarrow> ('w, TssResponse) sm" where
  "RequestTssSignature pb requestType start offsetStartsAtIndex challenge stateRoots =
     bindM (pb_GetSignStateBatch pb \<lparr>sr_Type = requestType, sr_StartBlock = start,
       sr_OffsetStartsAtIndex = offsetStartsAtIndex, sr_Challenge = challenge, sr_StateRoots = stateRoots\<rparr>)
     (\<lambda>reply. liftR (pb_Unmarshal pb reply))"

definition propCraftOpts :: "'w propBackend \<Rightarrow> PropConfig \<Rightarrow> ('w, TransactOpts) sm" where
  "propCraftOpts pb cfg =
     (if pp_EnableProposerHsm cfg
      then seqM (pb_Credentials pb) (seqM (pb_NewKms pb) (pb_HsmTransactor pb))
      else pb_KeyedTransactor pb)"

text \<open>In the resubmission the error of the key service is shadowed, as in the sequencer driver.\<close>

definition propUpdateOpts :: "'w propBackend \<Rightarrow> PropConfig \<Rightarrow> ('w, TransactOpts) sm" where
  "propUpdateOpts pb cfg =
     (if pp_EnableProposerHsm cfg then
        seqM (attemptM (pb_Credentials pb)) (
        seqM (pb_NewKms pb) (
        bindM (attemptM (pb_HsmTransactor pb)) (\<lambda>r.
          liftR (derefR (case r of Inl _ \<Rightarrow> None | Inr opts \<Rightarrow> Some opts)))))
      else pb_KeyedTransactor pb)"

fun collectRoots :: "'w propBackend \<Rightarrow> u64 \<Rightarrow> int \<Rightarrow> int list \<Rightarrow> L2Block list \<Rightarrow> ('w, int \<times> L2Block list) sm" where
  "collectRoots pb maxElements end' [] blocks = retM (end', blocks)"
| "collectRoots pb maxElements end' (i # is) blocks =
     (if of_nat (length blocks) > maxElements then retM (i, blocks)
      else bindM (pb_L2Block pb i) (\<lambda>block. collectRoots pb maxElements end' is (blocks @ [block])))"

definition FraudProofAppendStateBatch :: "'w propBackend \<Rightarrow> TransactOpts \<Rightarrow> byte list list \<Rightarrow> int \<Rightarrow> byte list
    \<Rightarrow> L2Block list \<Rightarrow> ('w, L1Tx) sm" where
  "FraudProofAppendStateBatch pb opts batch shouldStartAtElement signature blocks =
     bindM (pb_Registers pb (pb_From pb)) (\<lambda>stakerAddr.
     bindM (pb_StakedAssertion pb stakerAddr) (\<lambda>assertionID.
     bindM (pb_Assertions pb assertionID) (\<lambda>ret.
     let latestAssertion = \<lparr>as_ID = assertionID, as_VmHash = ai_StateHash ret, as_InboxSize = ai_InboxSize ret,
           as_Parent = Some (ai_Parent ret), as_Deadline = Some (ai_Deadline ret),
           as_ProposalTime = Some (ai_ProposalTime ret)\<rparr>;
         txBatch = NewTxBatch blocks in
     bindM (pb_LastCreatedAssertionID pb) (\<lambda>lastCreatedAssertionID.
     if big_Uint64 lastCreatedAssertionID \<noteq> 0 \<and>
        big_Uint64 (as_InboxSize latestAssertion) + of_nat (length (tb_Txs txBatch)) \<noteq> LastBlockNumber txBatch
     then failM (ErrNew ''Online total InboxSize not match with local batch's LatestBlockNumber'')
     else
       let assertion = ToAssertion txBatch latestAssertion in
       pb_CreateAssertion pb opts (as_VmHash assertion) (as_InboxSize assertion) batch shouldStartAtElement signature))))"

text \<open>
  The retry with the fallback tip of a batch that was not rolled back. After the threshold
  signature for a completed challenge the event of a fresh iterator is read.
\<close>

definition retryStateBatch :: "'w propBackend \<Rightarrow> PropConfig \<Rightarrow> TransactOpts \<Rightarrow> byte list list \<Rightarrow> int \<Rightarrow> byte list
    \<Rightarrow> L2Block list \<Rightarrow> ('w, L1Tx option) sm" where
  "retryStateBatch pb cfg opts stateRoots offsetStartsAtIndex signature blocks =
     bindM (pb_ChallengeCtx pb) (\<lambda>challengeContext.
     if big_Uint64 (cc_DefenderAssertionID challengeContext) \<noteq> 0 \<and> \<not> cc_Completed challengeContext then retM None
     else
       let assert_it = (\<lambda>signature. bindM (FraudProofAppendStateBatch pb opts stateRoots offsetStartsAtIndex signature blocks)
             (\<lambda>tx. retM (Some tx))) in
       if pp_SccRollback cfg then
         seqM (pb_NewChallenge pb (cc_ChallengeAddress challengeContext)) (
         bindM (pb_ChallengeRollback pb) (\<lambda>alreadyRollback.
         bindM (pb_Challenger pb) (\<lambda>challenger.
         bindM (pb_Winner pb) (\<lambda>winner.
         bindM (pb_StartInboxSize pb) (\<lambda>startInboxSize.
         if cc_Completed challengeContext \<and> \<not> alreadyRollback \<and> challenger = winner then
           bindM (RequestTssSignature pb 1 startInboxSize offsetStartsAtIndex (cc_ChallengeAddress challengeContext) []) (\<lambda>tssResponse.
           if ts_RollBack tssResponse then
             bindM (pb_SccTotalBatches pb) (\<lambda>totalBatches.
             seqM (pb_FilterStateBatch pb totalBatches) (liftR (derefR None)))
           else assert_it (ts_Signature tssResponse))
         else assert_it signature)))))
       else assert_it signature)"

text \<open>The rollback that the threshold signature asked for; \<open>None\<close> when it is not allowed.\<close>

definition rollbackState :: "'w propBackend \<Rightarrow> PropConfig \<Rightarrow> TransactOpts \<Rightarrow> int \<Rightarrow> int \<Rightarrow> byte list list \<Rightarrow> int
    \<Rightarrow> byte list \<Rightarrow> ('w proposer, L1Tx option) sm" where
  "rollbackState pb cfg opts start end' stateRoots offsetStartsAtIndex signature =
     (if \<not> pp_AllowL2AutoRollback cfg then retM None
      else
        bindM (getsM (\<lambda>s. (pr_rollbackEndBlock s, pr_rollbackEndStateRoot s))) (\<lambda>(endBlock, endRoot).
        bindM (if endBlock \<le> end' \<and> endBlock > start then
                 let i = unat (big_Uint64 endBlock - big_Uint64 start - 1) in
                 if i < length stateRoots then retM (stateRoots ! i = endRoot) else panicM ''index out of range''
               else retM False) (\<lambda>still.
        if still then failM (ErrNew ''l2geth is still rollback'')
        else if stateRoots = [] then panicM ''index out of range''
        else
          seqM (modM (\<lambda>s. s\<lparr>pr_rollbackEndStateRoot := last stateRoots, pr_rollbackEndBlock := end'\<rparr>))
          (bindM (callP (pb_RollbackL2Chain pb opts start offsetStartsAtIndex signature)) (\<lambda>tx. retM (Some tx))))))"

text \<open>Posting the batch; \<open>None\<close> when the fraud proof contracts are not initialised for this proposer.\<close>

definition postState :: "'w propBackend \<Rightarrow> PropConfig \<Rightarrow> TransactOpts \<Rightarrow> byte list list \<Rightarrow> int \<Rightarrow> byte list
    \<Rightarrow> L2Block list \<Rightarrow> ('w, (goerr + L1Tx) option) sm" where
  "postState pb cfg opts stateRoots offsetStartsAtIndex signature blocks =
     (if length (pp_FPRollupAddr cfg) \<noteq> 0 then
        bindM (attemptM (pb_Owner pb)) (\<lambda>owner.
        bindM (attemptM (pb_Assertions pb 0)) (\<lambda>assertionInit.
        let owner = (case owner of Inr a \<Rightarrow> a | Inl _ \<Rightarrow> replicate 20 0) in
        if owner \<noteq> pb_From pb then retM None
        else
          bindM (liftR (derefR (case assertionInit of Inr a \<Rightarrow> Some (ai_Deadline a) | Inl _ \<Rightarrow> None))) (\<lambda>deadline.
          if deadline = 0 then retM None
          else bindM (attemptM (FraudProofAppendStateBatch pb opts stateRoots offsetStartsAtIndex signature blocks))
            (\<lambda>r. retM (Some r)))))
      else bindM (attemptM (pb_AppendStateBatch pb opts stateRoots offsetStartsAtIndex signature)) (\<lambda>r. retM (Some r)))"

definition belowMinimum :: "'w propBackend \<Rightarrow> PropConfig \<Rightarrow> int \<Rightarrow> int \<Rightarrow> ('w proposer, bool) sm" where
  "belowMinimum pb cfg start end' =
     (let rollupTxn = big_Uint64 end' - big_Uint64 start in
      if rollupTxn < pp_MinStateRootElements cfg then
        bindM (callP (pb_now pb)) (\<lambda>now.
        bindM (getsM pr_lastCommitTime) (\<lambda>last.
        retM (last + pp_RollupTimeout cfg > now \<or> rollupTxn < pp_MinTimeoutStateRootElements cfg)))
      else retM False)"

definition proposer_CraftBatchTx :: "'w propBackend \<Rightarrow> PropConfig \<Rightarrow> int \<Rightarrow> int \<Rightarrow> int
    \<Rightarrow> ('w proposer, L1Tx option) sm" where
  "proposer_CraftBatchTx pb cfg start end' nonce =
     bindM (getsM pr_lastStart) (\<lambda>lastStart.
     seqM (if start > lastStart then
             bindM (callP (pb_now pb)) (\<lambda>now.
             modM (\<lambda>s. s\<lparr>pr_lastStart := start, pr_lastCommitTime := now - pp_PollInterval cfg\<rparr>))
           else retM ()) (
     bindM (belowMinimum pb cfg start end') (\<lambda>below.
     if below then retM None
     else
       bindM (callP (collectRoots pb (pp_MaxStateRootElements cfg) end' [start..end' - 1] [])) (\<lambda>(end', blocks).
       let stateRoots = map blk_root blocks in
       bindM (callP (propCraftOpts pb cfg)) (\<lambda>opts.
       let opts = opts\<lparr>o_Nonce := Some nonce, o_NoSend := True\<rparr>;
           offsetStartsAtIndex = start - uint (pp_BlockOffset cfg) in
       bindM (callP (RequestTssSignature pb 0 start offsetStartsAtIndex [] stateRoots)) (\<lambda>tssResponse.
       let signature = ts_Signature tssResponse in
       if ts_RollBack tssResponse then
         bindM (attemptM (rollbackState pb cfg opts start end' stateRoots offsetStartsAtIndex signature)) (\<lambda>r. case r of
           Inr tx \<Rightarrow> retM tx
         | Inl err \<Rightarrow>
             if IsMaxPriorityFeePerGasNotFoundError err then
               (if pp_AllowL2AutoRollback cfg then
                  bindM (callP (pb_RollbackL2Chain pb (opts\<lparr>o_GasTipCap := Some FallbackGasTipCap\<rparr>) start
                    offsetStartsAtIndex signature)) (\<lambda>tx. retM (Some tx))
                else retM None)
             else failM err)
       else
         bindM (callP (postState pb cfg opts stateRoots offsetStartsAtIndex signature blocks)) (\<lambda>r. case r of
           None \<Rightarrow> retM None
         | Some (Inr tx) \<Rightarrow> retM (Some tx)
         | Some (Inl err) \<Rightarrow>
             if IsMaxPriorityFeePerGasNotFoundError err then
               let opts = opts\<lparr>o_GasTipCap := Some FallbackGasTipCap\<rparr> in
               if length (pp_FPRollupAddr cfg) \<noteq> 0
               then callP (retryStateBatch pb cfg opts stateRoots offsetStartsAtIndex signature blocks)
               else bindM (callP (pb_AppendStateBatch pb opts stateRoots offsetStartsAtIndex signature)) (\<lambda>tx. retM (Some tx))
             else failM err)))))))"

definition proposer_UpdateGasPrice :: "'w propBackend \<Rightarrow> PropConfig \<Rightarrow> L1Tx \<Rightarrow> ('w, L1Tx) sm" where
  "proposer_UpdateGasPrice pb cfg tx =
     bindM (propUpdateOpts pb cfg) (\<lambda>opts.
     let opts = opts\<lparr>o_Nonce := Some (uint (l1_Nonce tx)), o_NoSend := True\<rparr>;
         raw = (if length (pp_FPRollupAddr cfg) \<noteq> 0 then pb_RawTransactFP pb else pb_RawTransactScc pb) in
     bindM (attemptM (raw opts (l1_Data tx))) (\<lambda>r. case r of
         Inr finalTx \<Rightarrow> retM finalTx
       | Inl err \<Rightarrow>
           if IsMaxPriorityFeePerGasNotFoundError err
           then raw (opts\<lparr>o_GasTipCap := Some FallbackGasTipCap\<rparr>) (l1_Data tx)
           else failM err))"

section \<open>Which state roots are posted\<close>

lemma collectRoots_run:
  assumes "\<And>i w. i \<in> set is \<Longrightarrow> pb_L2Block pb i w = (Ok (chain i), w)"
    and "length blocks \<le> Suc (unat mx)" and "unat mx < 2 ^ 64 - 1"
  shows "collectRoots pb mx e is blocks w =
    (let m = min (length is) (Suc (unat mx) - length blocks) in
     (Ok (if m < length is then is ! m else e, blocks @ map chain (take m is)), w))"
  using assms(1,2)
proof (induction "is" arbitrary: blocks)
  case Nil
  then show ?case by (simp add: retM_def)
next
  case (Cons i "is")
  have n: "unat (of_nat (length blocks) :: u64) = length blocks"
    using Cons.prems(2) assms(3) by (simp add: unat_of_nat)
  show ?case
  proof (cases "length blocks = Suc (unat mx)")
    case True
    then have "of_nat (length blocks) > mx" using n by (simp only: word_less_nat_alt lessI)
    with True show ?thesis by (simp add: retM_def)
  next
    case False
    then have le: "length blocks \<le> unat mx" using Cons.prems(2) by simp
    then have "\<not> of_nat (length blocks) > mx" using n by (simp only: word_less_nat_alt not_less)
    moreover have "collectRoots pb mx e is (blocks @ [chain i]) w =
      (let m = min (length is) (Suc (unat mx) - length (blocks @ [chain i])) in
       (Ok (if m < length is then is ! m else e, (blocks @ [chain i]) @ map chain (take m is)), w))"
      using Cons.prems(1) le by (intro Cons.IH) auto
    moreover have "min (length (i # is)) (Suc (unat mx) - length blocks) =
        Suc (min (length is) (Suc (unat mx) - length (blocks @ [chain i])))" using le by simp
    moreover have "pb_L2Block pb i w = (Ok (chain i), w)" using Cons.prems(1) by simp
    ultimately show ?thesis by (simp only: collectRoots.simps if_False bindM_def Let_def) simp
  qed
qed

lemma take_upto: "take m [a..b] = [a..min b (a + int m - 1)]"
  by (rule nth_equalityI) (auto simp: min_def split: if_splits)

lemma callP_Ok: "callP m s = (Ok a, s') \<Longrightarrow> m (pr_world s) = (Ok a, pr_world s')"
  by (auto simp: callP_def split: prod.splits)

lemma attempt_Ok:
  "attemptM m s = (Ok x, s') \<longleftrightarrow>
     (\<exists>a. x = Inr a \<and> m s = (Ok a, s')) \<or> (\<exists>e. x = Inl e \<and> m s = (Fail e, s'))"
  by (auto simp: attemptM_def split: prod.splits res.splits)

text \<open>The documented behaviour of the binding: the transaction carries the encoded arguments of the call.\<close>

definition asserts :: "(byte list \<Rightarrow> int \<Rightarrow> byte list list \<Rightarrow> int \<Rightarrow> byte list \<Rightarrow> byte list) \<Rightarrow> 'w propBackend \<Rightarrow> bool" where
  "asserts enc pb \<longleftrightarrow> (\<forall>opts vmHash inboxSize batch start sig w tx w'.
     pb_CreateAssertion pb opts vmHash inboxSize batch start sig w = (Ok tx, w') \<longrightarrow>
     l1_Data tx = enc vmHash inboxSize batch start sig)"

definition posts :: "'w propBackend \<Rightarrow> byte list list \<Rightarrow> int \<Rightarrow> L2Block list \<Rightarrow> L1Tx \<Rightarrow> bool" where
  "posts pb roots off blocks tx \<longleftrightarrow>
     (\<exists>opts sig w w'. FraudProofAppendStateBatch pb opts roots off sig blocks w = (Ok tx, w'))"

lemma posts_data:
  assumes "posts pb roots off blocks tx" and "asserts enc pb" and "blocks \<noteq> []"
    and "0 \<le> blk_number (last blocks)" and "blk_number (last blocks) < 2 ^ 63"
  shows "\<exists>sig. l1_Data tx = enc (blk_root (last blocks)) (blk_number (last blocks)) roots off sig"
proof -
  obtain parent opts sig w w' where "pb_CreateAssertion pb opts (as_VmHash (ToAssertion (NewTxBatch blocks) parent))
      (as_InboxSize (ToAssertion (NewTxBatch blocks) parent)) roots off sig w = (Ok tx, w')"
    using assms(1) unfolding posts_def FraudProofAppendStateBatch_def Let_def
    by (auto simp: failM_def elim!: bindM_OkE split: if_splits)
  with assms(2) show ?thesis
    unfolding asserts_def ToAssertion_last [OF assms(3-5)] Assertion.simps by blast
qed

lemma postState_posts:
  assumes "postState pb cfg opts roots off sig blocks w = (Ok (Some (Inr tx)), w')"
    and "pp_FPRollupAddr cfg \<noteq> []"
  shows "posts pb roots off blocks tx"
  using assms unfolding postState_def posts_def Let_def
  by (auto simp: retM_def attempt_Ok elim!: bindM_OkE split: if_splits) blast+

lemma retryStateBatch_posts:
  assumes "retryStateBatch pb cfg opts roots off sig blocks w = (Ok (Some tx), w')"
  shows "posts pb roots off blocks tx"
  using assms unfolding retryStateBatch_def posts_def Let_def seqM_def
  by (auto simp: retM_def liftR_def elim!: bindM_OkE split: if_splits) blast+

lemma rollbackState_rolls:
  assumes "rollbackState pb cfg opts start e roots off sig s = (Ok (Some tx), s')"
  shows "\<exists>opts off sig w w'. pb_RollbackL2Chain pb opts start off sig w = (Ok tx, w')"
  using assms unfolding rollbackState_def Let_def seqM_def
  by (auto simp: retM_def failM_def panicM_def getsM_def modM_def elim!: bindM_OkE dest!: callP_Ok split: if_splits prod.splits)
    blast+

lemma CraftBatchTx_cases:
  assumes run: "proposer_CraftBatchTx pb cfg start end' nonce s = (Ok (Some tx), s')"
    and fp: "length (pp_FPRollupAddr cfg) \<noteq> 0"
  obtains (posted) w w' e blocks where "collectRoots pb (pp_MaxStateRootElements cfg) end' [start..end' - 1] [] w = (Ok (e, blocks), w')"
      and "posts pb (map blk_root blocks) (start - uint (pp_BlockOffset cfg)) blocks tx"
  | (rolled) opts off sig w w' where "pb_RollbackL2Chain pb opts start off sig w = (Ok tx, w')"
  using run fp unfolding proposer_CraftBatchTx_def Let_def seqM_def
  by (auto simp: retM_def failM_def attempt_Ok elim!: bindM_OkE split: if_splits option.splits sum.splits prod.splits
    dest!: callP_Ok rollbackState_rolls retryStateBatch_posts intro: posted rolled)
    (blast intro: posted dest: postState_posts)+

text \<open>C14: a state batch that \<open>CraftBatchTx\<close> of the proposer returns asserts the chain. Let the client
  serve a chain whose blocks carry their own numbers, the binding of \<open>createAssertionWithStateBatch\<close> put its encoded arguments
  in the transaction, and \<open>start < end\<close>. A transaction that is not a rollback of the chain then
  carries the state roots of the consecutive blocks from \<open>start\<close> on, at the index \<open>start\<close> minus the
  offset, together with the root and the number of the last of these blocks as the asserted state.
  There are \<open>end - start\<close> of them, or one more than the configured maximum when that is less.
\<close>
theorem state_batch_asserts_chain:
  assumes run: "proposer_CraftBatchTx pb cfg start end' nonce s = (Ok (Some tx), s')"
    and fp: "length (pp_FPRollupAddr cfg) = 20"
    and bind: "asserts enc pb"
    and chain: "\<forall>i w. pb_L2Block pb i w = (Ok (chain i), w)" "\<forall>i. blk_number (chain i) = i"
    and range: "0 \<le> start" "start < end'" "end' < 2 ^ 63"
    and mx: "unat (pp_MaxStateRootElements cfg) < 2 ^ 64 - 1"
    and k: "k = min (end' - start) (uint (pp_MaxStateRootElements cfg) + 1)"
  shows "(\<exists>sig. l1_Data tx = enc (blk_root (chain (start + k - 1))) (start + k - 1)
            (map (\<lambda>i. blk_root (chain i)) [start..start + k - 1]) (start - uint (pp_BlockOffset cfg)) sig)
       \<or> (\<exists>opts off sig w w'. pb_RollbackL2Chain pb opts start off sig w = (Ok tx, w'))"
proof -
  have fp': "length (pp_FPRollupAddr cfg) \<noteq> 0" using fp by simp
  from run fp' show ?thesis
  proof (cases rule: CraftBatchTx_cases)
    case (posted w w' e blocks)
    have "blocks = map chain (take (Suc (unat (pp_MaxStateRootElements cfg))) [start..end' - 1])"
      using posted(1) collectRoots_run [where chain = chain, of "[start..end' - 1]" pb "[]" "pp_MaxStateRootElements cfg" end' w] chain(1) mx
      by (simp add: Let_def min_def split: if_splits)
    then have blocks: "blocks = map chain [start..start + k - 1]"
      unfolding take_upto k uint_nat by (simp add: min_def)
    have ge: "start \<le> start + k - 1" using range(2) unfolding k by (simp add: min_def)
    then have pos: "[start..start + k - 1] \<noteq> []" "last [start..start + k - 1] = start + k - 1"
      using upto_rec2 [OF ge] by simp_all
    then have last': "last blocks = chain (start + k - 1)" "blocks \<noteq> []"
      by (simp_all add: blocks last_map)
    have "start + k - 1 < 2 ^ 63" using range(3) unfolding k by (simp add: min_def)
    moreover have "0 \<le> start + k - 1" using range(1) ge by simp
    ultimately show ?thesis using posts_data [OF posted(2) bind last'(2)]
      unfolding last'(1) chain(2) [rule_format] by (simp add: blocks o_def)
  next
    case (rolled opts off sig w w')
    then show ?thesis by blast
  qed
qed

definition sample_state_chain :: "int \<Rightarrow> L2Block" where
  "sample_state_chain i = sample_block i (sample_tx 0)"

definition sample_assertion_data :: "byte list \<Rightarrow> int \<Rightarrow> byte list list \<Rightarrow> int \<Rightarrow> byte list \<Rightarrow> byte list" where
  "sample_assertion_data vmHash inboxSize batch start sig = vmHash @ [of_int inboxSize] @ concat batch @ [of_int start] @ sig"

definition sample_propBackend :: "unit propBackend" where
  "sample_propBackend = \<lparr>pb_SccTotalElements = retM 3, pb_L1Head = retM 100, pb_CtcTotalElements = (\<lambda>_. failM io_EOF),
     pb_now = retM 0, pb_L2Block = (\<lambda>i. retM (sample_state_chain i)), pb_Credentials = retM (), pb_NewKms = retM (),
     pb_HsmTransactor = failM io_EOF, pb_KeyedTransactor = retM sample_opts, pb_From = [5],
     pb_GetSignStateBatch = (\<lambda>_. retM [6]), pb_Unmarshal = (\<lambda>sig. Ok \<lparr>ts_Signature = sig, ts_RollBack = False\<rparr>),
     pb_Owner = retM [5], pb_Registers = retM, pb_StakedAssertion = (\<lambda>_. retM 1),
     pb_Assertions = (\<lambda>_. retM \<lparr>ai_StateHash = [], ai_InboxSize = 3, ai_Parent = 0, ai_Deadline = 1, ai_ProposalTime = 0\<rparr>),
     pb_LastCreatedAssertionID = retM 1,
     pb_CreateAssertion = (\<lambda>opts vmHash inboxSize batch start sig.
       retM (sample_transact opts (sample_assertion_data vmHash inboxSize batch start sig))),
     pb_RollbackL2Chain = (\<lambda>_ _ _ _. failM io_EOF), pb_AppendStateBatch = (\<lambda>_ _ _ _. failM io_EOF),
     pb_ChallengeCtx = failM io_EOF, pb_NewChallenge = (\<lambda>_. retM ()), pb_ChallengeRollback = retM False,
     pb_Challenger = retM [], pb_Winner = retM [], pb_StartInboxSize = retM 0, pb_SccTotalBatches = retM 0,
     pb_FilterStateBatch = (\<lambda>_. retM ()), pb_RawTransactFP = (\<lambda>opts data. retM (sample_transact opts data)),
     pb_RawTransactScc = (\<lambda>opts data. retM (sample_transact opts data))\<rparr>"

definition sample_prop :: PropConfig where
  "sample_prop = \<lparr>pp_BlockOffset = 1, pp_MaxStateRootElements = 1, pp_MinStateRootElements = 1,
     pp_MinTimeoutStateRootElements = 1, pp_FinalityConfirmations = 10, pp_RollupTimeout = 0, pp_PollInterval = 0,
     pp_FPRollupAddr = replicate 20 9, pp_SccRollback = False, pp_AllowL2AutoRollback = False,
     pp_EnableProposerHsm = False\<rparr>"

definition sample_proposer :: "unit proposer" where
  "sample_proposer = \<lparr>pr_world = (), pr_lastStart = 4, pr_lastCommitTime = 0, pr_rollbackEndBlock = 0,
     pr_rollbackEndStateRoot = []\<rparr>"

lemma sample_asserts: "asserts sample_assertion_data sample_propBackend"
  by (auto simp: asserts_def sample_propBackend_def retM_def sample_transact_def)

lemma sample_collect: "collectRoots sample_propBackend 1 9 [4..8] [] w = (Ok (6, map sample_state_chain [4, 5]), w)"
  by (subst collectRoots_run [where chain = sample_state_chain])
    (simp_all add: sample_propBackend_def retM_def Let_def upto_rec_numeral)

lemma sample_assert:
  "FraudProofAppendStateBatch sample_propBackend opts roots 3 sig (map sample_state_chain [4, 5]) w =
     (Ok (sample_transact opts (sample_assertion_data [5] 5 roots 3 sig)), w)"
  by (simp add: FraudProofAppendStateBatch_def sample_propBackend_def bindM_def retM_def Let_def ToAssertion_def
      LastBlockRoot_def sequenceContext_def NewTxBatch_def LastBlockNumber_def sample_state_chain_def sample_block_def big_Uint64_def)

lemma sample_calls:
  "pb_KeyedTransactor sample_propBackend w = (Ok sample_opts, w)"
  "pb_GetSignStateBatch sample_propBackend rq w = (Ok [6], w)"
  "pb_Unmarshal sample_propBackend reply = Ok \<lparr>ts_Signature = reply, ts_RollBack = False\<rparr>"
  "pb_Owner sample_propBackend w = (Ok [5], w)" "pb_From sample_propBackend = [5]"
  "pb_Assertions sample_propBackend n w =
     (Ok \<lparr>ai_StateHash = [], ai_InboxSize = 3, ai_Parent = 0, ai_Deadline = 1, ai_ProposalTime = 0\<rparr>, w)"
  "pb_L2Block sample_propBackend i w = (Ok (sample_state_chain i), w)"
  "pb_RollbackL2Chain sample_propBackend opts start off sig w = (Fail io_EOF, w)"
  by (simp_all add: sample_propBackend_def retM_def failM_def)

lemma sample_state_chain_fields: "blk_number (sample_state_chain i) = i" "blk_root (sample_state_chain i) = [of_int i]"
  by (simp_all add: sample_state_chain_def sample_block_def)

lemma sample_post:
  "postState sample_propBackend sample_prop opts roots 3 sig (map sample_state_chain [4, 5]) w =
     (Ok (Some (Inr (sample_transact opts (sample_assertion_data [5] 5 roots 3 sig)))), w)"
  unfolding postState_def
  by (simp add: sample_prop_def sample_calls bindM_def attemptM_def liftR_def retM_def sample_assert [simplified])

lemma sample_prop_fields:
  "pp_MaxStateRootElements sample_prop = 1" "pp_MinStateRootElements sample_prop = 1"
  "pp_EnableProposerHsm sample_prop = False" "pp_BlockOffset sample_prop = 1"
  by (simp_all add: sample_prop_def)

lemma sample_state_batch:
  "proposer_CraftBatchTx sample_propBackend sample_prop 4 9 3 sample_proposer =
     (Ok (Some (sample_transact (sample_opts\<lparr>o_Nonce := Some 3, o_NoSend := True\<rparr>)
        (sample_assertion_data [5] 5 [[4], [5]] 3 [6]))), sample_proposer)"
proof -
  have below: "belowMinimum sample_propBackend sample_prop 4 9 s = (Ok False, s)" for s
    by (simp add: belowMinimum_def sample_prop_fields big_Uint64_def retM_def Let_def)
  show ?thesis
    by (simp add: proposer_CraftBatchTx_def bindM_def seqM_def getsM_def callP_def retM_def below sample_prop_fields
      sample_collect [simplified] propCraftOpts_def RequestTssSignature_def liftR_def sample_calls
      sample_post [simplified] sample_state_chain_fields Let_def sample_proposer_def)
qed

text \<open>Two roots are posted where the configured maximum is one.\<close>

theorem state_batch_asserts_chain_witness:
  "pp_MaxStateRootElements sample_prop = 1 \<and>
   (\<exists>tx sig. proposer_CraftBatchTx sample_propBackend sample_prop 4 9 3 sample_proposer = (Ok (Some tx), sample_proposer)
      \<and> l1_Data tx = sample_assertion_data [5] 5 [[4], [5]] 3 sig)"
proof -
  have "(\<exists>sig. l1_Data (sample_transact (sample_opts\<lparr>o_Nonce := Some 3, o_NoSend := True\<rparr>)
            (sample_assertion_data [5] 5 [[4], [5]] 3 [6])) =
          sample_assertion_data (blk_root (sample_state_chain (4 + 2 - 1))) (4 + 2 - 1)
            (map (\<lambda>i. blk_root (sample_state_chain i)) [4..4 + 2 - 1]) (4 - uint (pp_BlockOffset sample_prop)) sig)
     \<or> (\<exists>opts off sig w w'. pb_RollbackL2Chain sample_propBackend opts 4 off sig w =
          (Ok (sample_transact (sample_opts\<lparr>o_Nonce := Some 3, o_NoSend := True\<rparr>)
            (sample_assertion_data [5] 5 [[4], [5]] 3 [6])), w'))"
    by (rule state_batch_asserts_chain [OF sample_state_batch _ sample_asserts])
      (simp_all add: sample_calls sample_state_chain_fields sample_prop_def)
  then show ?thesis
    by (auto simp: sample_state_batch sample_calls sample_state_chain_fields upto_rec_numeral sample_prop_fields)
qed

text \<open>\<open>GetBatchBlockRange\<close> of the proposer panics when the count of the transaction chain cannot be read:
  its error is assigned and never looked at, and the nil count is added to.
\<close>
theorem proposer_range_panics:
  assumes "pb_SccTotalElements pb w = (Ok count, w1)" and "pb_L1Head pb w1 = (Ok head, w2)"
    and "pb_CtcTotalElements pb (head - (uint (pp_FinalityConfirmations cfg) + blockBuffer)) w2 = (Fail err, w3)"
  shows "proposer_GetBatchBlockRange pb cfg w = (Panic ''nil pointer dereference'', w3)"
  using assms by (simp add: proposer_GetBatchBlockRange_def bindM_def attemptM_def liftR_def Let_def)

theorem proposer_range_panics_witness:
  "proposer_GetBatchBlockRange sample_propBackend sample_prop () = (Panic ''nil pointer dereference'', ())"
  by (rule proposer_range_panics [where count = 3 and head = 100 and err = io_EOF])
    (simp_all add: sample_propBackend_def retM_def failM_def)

end
