(* ===== verification/Rollup_Index.thy ===== *)
theory Rollup_Index
  imports Go_Prelude
begin

text \<open>
  The rollup indices in the database (\<open>l2geth/core/rawdb/rollup_indexes.go\<close>) over the in-memory
  key-value store (\<open>l2geth/ethdb/memorydb/memorydb.go\<close>). A database handle that was closed holds
  no map; its write batches are the lists of pending writes.
\<close>

section \<open>The in-memory database\<close>

text \<open>\<open>Database.db\<close>: a map, or nil after \<open>Close\<close>.\<close>

type_synonym memdb = "(string \<rightharpoonup> byte list) option"

definition errMemorydbClosed :: goerr where
  "errMemorydbClosed = Sentinel ''errMemorydbClosed''"

definition errMemorydbNotFound :: goerr where
  "errMemorydbNotFound = Sentinel ''errMemorydbNotFound''"

definition db_New :: memdb where
  "db_New = Some Map.empty"

definition db_Close :: "(memdb, unit) sm" where
  "db_Close d = (Ok (), None)"

definition db_Has :: "string \<Rightarrow> memdb \<Rightarrow> bool res" where
  "db_Has key d = (case d of None \<Rightarrow> Fail errMemorydbClosed | Some m \<Rightarrow> Ok (m key \<noteq> None))"

definition db_Get :: "string \<Rightarrow> memdb \<Rightarrow> byte list res" where
  "db_Get key d = (case d of
       None \<Rightarrow> Fail errMemorydbClosed
     | Some m \<Rightarrow> (case m key of Some entry \<Rightarrow> Ok entry | None \<Rightarrow> Fail errMemorydbNotFound))"

definition db_Put :: "string \<Rightarrow> byte list \<Rightarrow> (memdb, unit) sm" where
  "db_Put key val d = (case d of
       None \<Rightarrow> (Fail errMemorydbClosed, d)
     | Some m \<Rightarrow> (Ok (), Some (m(key \<mapsto> val))))"

definition db_Delete :: "string \<Rightarrow> (memdb, unit) sm" where
  "db_Delete key d = (case d of
       None \<Rightarrow> (Fail errMemorydbClosed, d)
     | Some m \<Rightarrow> (Ok (), Some (m(key := None))))"

lemmas db_defs = db_Has_def db_Get_def db_Put_def db_Delete_def

subsection \<open>Write batches\<close>

record keyvalue =
  kv_key :: string
  kv_value :: "byte list"
  kv_delete :: bool

record batch =
  b_writes :: "keyvalue list"
  b_size :: nat

definition NewBatch :: batch where
  "NewBatch = \<lparr>b_writes = [], b_size = 0\<rparr>"

definition batch_Put :: "string \<Rightarrow> byte list \<Rightarrow> batch \<Rightarrow> batch" where
  "batch_Put key val b = b\<lparr>b_writes := b_writes b @ [\<lparr>kv_key = key, kv_value = val, kv_delete = False\<rparr>],
     b_size := b_size b + length val\<rparr>"

definition batch_Delete :: "string \<Rightarrow> batch \<Rightarrow> batch" where
  "batch_Delete key b = b\<lparr>b_writes := b_writes b @ [\<lparr>kv_key = key, kv_value = [], kv_delete = True\<rparr>],
     b_size := b_size b + 1\<rparr>"

definition batch_ValueSize :: "batch \<Rightarrow> nat" where
  "batch_ValueSize b = b_size b"

definition batch_Reset :: "batch \<Rightarrow> batch" where
  "batch_Reset b = b\<lparr>b_writes := [], b_size := 0\<rparr>"

text \<open>\<open>Write\<close> goes to the map directly: deleting from a nil map does nothing, storing into one
  panics.\<close>

definition write_one :: "keyvalue \<Rightarrow> (memdb, unit) sm" where
  "write_one kv d = (case d of
       None \<Rightarrow> (if kv_delete kv then (Ok (), d) else (Panic ''assignment to entry in nil map'', d))
     | Some m \<Rightarrow> (Ok (), Some (m(kv_key kv := (if kv_delete kv then None else Some (kv_value kv))))))"

definition batch_Write :: "batch \<Rightarrow> (memdb, unit) sm" where
  "batch_Write b = forM (b_writes b) write_one"

definition batch_Replay :: "batch \<Rightarrow> (memdb, unit) sm" where
  "batch_Replay b = forM (b_writes b) (\<lambda>kv.
     if kv_delete kv then db_Delete (kv_key kv) else db_Put (kv_key kv) (kv_value kv))"

section \<open>The indices\<close>

definition headIndexKey :: string where
  "headIndexKey = ''LastIndex''"

definition headQueueIndexKey :: string where
  "headQueueIndexKey = ''LastQueueIndex''"

definition headVerifiedIndexKey :: string where
  "headVerifiedIndexKey = ''LastVerifiedIndex''"

definition headBatchKey :: string where
  "headBatchKey = ''LastBatch''"

definition eigenBatchKey :: string where
  "eigenBatchKey = ''EigenBatch''"

text \<open>\<open>data, _ := db.Get(key)\<close>: nil data when the read fails.\<close>

definition get_data :: "string \<Rightarrow> memdb \<Rightarrow> byte list" where
  "get_data key d = (case db_Get key d of Ok data \<Rightarrow> data | _ \<Rightarrow> [])"

definition ReadHeadIndex :: "memdb \<Rightarrow> u64 option" where
  "ReadHeadIndex d = (let data = get_data headIndexKey d in
     if length data = 0 then None else Some (of_nat (big_val data)))"

definition index_value :: "u64 \<Rightarrow> byte list" where
  "index_value index = (if index = 0 then [0] else big_bytes (unat index))"

text \<open>\<open>log.Crit\<close> ends the process.\<close>

definition put_or_crit :: "string \<Rightarrow> byte list \<Rightarrow> string \<Rightarrow> (memdb, unit) sm" where
  "put_or_crit key val msg = bindM (attemptM (db_Put key val)) (\<lambda>r. case r of
       Inl err \<Rightarrow> panicM msg
     | Inr _ \<Rightarrow> retM ())"

definition WriteHeadIndex :: "u64 \<Rightarrow> (memdb, unit) sm" where
  "WriteHeadIndex index = put_or_crit headIndexKey (index_value index) ''Failed to store index''"

definition ReadHeadQueueIndex :: "memdb \<Rightarrow> u64 option" where
  "ReadHeadQueueIndex d = (let data = get_data headQueueIndexKey d in
     if length data = 0 then None else Some (of_nat (big_val data)))"

definition WriteHeadQueueIndex :: "u64 \<Rightarrow> (memdb, unit) sm" where
  "WriteHeadQueueIndex index = put_or_crit headQueueIndexKey (index_value index) ''Failed to store queue index''"

definition ReadHeadVerifiedIndex :: "memdb \<Rightarrow> u64 option" where
  "ReadHeadVerifiedIndex d = (let data = get_data headVerifiedIndexKey d in
     if length data = 0 then None else Some (of_nat (big_val data)))"

definition WriteHeadVerifiedIndex :: "u64 \<Rightarrow> (memdb, unit) sm" where
  "WriteHeadVerifiedIndex index = put_or_crit headVerifiedIndexKey (index_value index) ''Failed to store verifier index''"

definition ReadHeadBatchIndex :: "memdb \<Rightarrow> u64 option" where
  "ReadHeadBatchIndex d = (let data = get_data headBatchKey d in
     if length data = 0 then None else Some (of_nat (big_val data)))"

definition WriteHeadBatchIndex :: "u64 \<Rightarrow> (memdb, unit) sm" where
  "WriteHeadBatchIndex index = put_or_crit headBatchKey (index_value index) ''Failed to store head batch index''"

definition ReadLatestEigenBatchIndex :: "memdb \<Rightarrow> u64 option" where
  "ReadLatestEigenBatchIndex d = (let data = get_data eigenBatchKey d in
     if length data = 0 then None else Some (of_nat (big_val data)))"

definition WriteLatestEigenIndex :: "u64 \<Rightarrow> (memdb, unit) sm" where
  "WriteLatestEigenIndex index = put_or_crit eigenBatchKey (index_value index) ''Failed to store latest eigen batch index''"

definition ReadEigenBatchIndex :: "memdb \<Rightarrow> u64 option" where
  "ReadEigenBatchIndex d = (let data = get_data eigenBatchKey d in
     if length data = 0 then None else Some (of_nat (big_val data)))"

section \<open>An index slot\<close>

text \<open>
  What the sync service relies on of an index: it reads what was written last, a write touches
  its own key only and fails only on a closed database.
\<close>

locale index_slot =
  fixes slot :: string
    and rd :: "memdb \<Rightarrow> u64 option"
    and wr :: "u64 \<Rightarrow> (memdb, unit) sm"
  assumes rd_closed: "rd None = None"
    and rd_local: "m slot = m' slot \<Longrightarrow> rd (Some m) = rd (Some m')"
    and wr_open: "\<exists>v. wr i (Some m) = (Ok (), Some (m(slot \<mapsto> v))) \<and> rd (Some (m(slot \<mapsto> v))) = Some i"
    and wr_closed: "\<exists>msg. wr i None = (Panic msg, None)"
begin

lemma wr_cases: "(\<exists>d'. wr i d = (Ok (), d') \<and> d' \<noteq> None \<and> rd d' = Some i) \<and> d \<noteq> None
    \<or> d = None \<and> (\<exists>msg. wr i d = (Panic msg, None))"
  using wr_open [of i "the d"] wr_closed [of i] by (cases d) auto

lemma wr_rd: "wr i d = (Ok (), d') \<Longrightarrow> rd d' = Some i"
  using wr_cases [of i d] by auto

lemma wr_open_iff: "fst (wr i d) = Ok () \<longleftrightarrow> d \<noteq> None"
  using wr_cases [of i d] by auto

lemma wr_stays_open: "snd (wr i d) = None \<longleftrightarrow> d = None"
  using wr_cases [of i d] by auto

lemma wr_frame:
  assumes "index_slot other rd' wr'" and "other \<noteq> slot"
  shows "rd' (snd (wr i d)) = rd' d"
proof (cases d)
  case None
  then show ?thesis using wr_closed [of i] by auto
next
  case (Some m)
  then obtain v where "wr i d = (Ok (), Some (m(slot \<mapsto> v)))" using wr_open [of i m] by auto
  then show ?thesis
    using index_slot.rd_local [OF assms(1), of "m(slot \<mapsto> v)" m] assms(2) Some by simp
qed

end

lemma index_value_read: "index_value i \<noteq> []" "of_nat (big_val (index_value i)) = i"
proof -
  show "index_value i \<noteq> []"
    by (auto simp: index_value_def big_bytes.simps [of "unat i"] unat_eq_zero)
  show "of_nat (big_val (index_value i)) = i"
    by (cases "i = 0") (simp_all add: index_value_def big_val_def [of "[0]"])
qed

lemmas slot_defs = get_data_def db_defs put_or_crit_def Let_def

lemma put_or_crit_open: "put_or_crit key val msg (Some m) = (Ok (), Some (m(key \<mapsto> val)))"
  by (simp add: put_or_crit_def db_Put_def attemptM_def bindM_def res_simps)

lemma put_or_crit_closed: "put_or_crit key val msg None = (Panic msg, None)"
  by (simp add: put_or_crit_def db_Put_def attemptM_def bindM_def res_simps)

lemma index_slotI:
  assumes "rd = (\<lambda>d. let data = get_data key d in if length data = 0 then None else Some (of_nat (big_val data)))"
    and "wr = (\<lambda>i. put_or_crit key (index_value i) msg)"
  shows "index_slot key rd wr"
  by unfold_locales (auto simp: assms get_data_def db_Get_def Let_def put_or_crit_open put_or_crit_closed
      index_value_read intro!: exI [of _ "index_value i" for i])

interpretation head: index_slot headIndexKey ReadHeadIndex WriteHeadIndex
  by (rule index_slotI) (rule ext, simp add: ReadHeadIndex_def WriteHeadIndex_def)+

interpretation queue: index_slot headQueueIndexKey ReadHeadQueueIndex WriteHeadQueueIndex
  by (rule index_slotI) (rule ext, simp add: ReadHeadQueueIndex_def WriteHeadQueueIndex_def)+

interpretation verified: index_slot headVerifiedIndexKey ReadHeadVerifiedIndex WriteHeadVerifiedIndex
  by (rule index_slotI) (rule ext, simp add: ReadHeadVerifiedIndex_def WriteHeadVerifiedIndex_def)+

interpretation headbatch: index_slot headBatchKey ReadHeadBatchIndex WriteHeadBatchIndex
  by (rule index_slotI) (rule ext, simp add: ReadHeadBatchIndex_def WriteHeadBatchIndex_def)+

interpretation eigen: index_slot eigenBatchKey ReadLatestEigenBatchIndex WriteLatestEigenIndex
  by (rule index_slotI) (rule ext, simp add: ReadLatestEigenBatchIndex_def WriteLatestEigenIndex_def)+

section \<open>Properties\<close>

definition distinct_keys :: "string list" where
  "distinct_keys = [headIndexKey, headQueueIndexKey, headVerifiedIndexKey, headBatchKey, eigenBatchKey]"

lemma index_keys [simp]: "distinct distinct_keys"
  by (simp add: distinct_keys_def headIndexKey_def headQueueIndexKey_def headVerifiedIndexKey_def
      headBatchKey_def eigenBatchKey_def)

text \<open>The write frames between the five slots, for the components that keep several of them.\<close>

lemma head_frame [simp]:
  "ReadHeadQueueIndex (snd (WriteHeadIndex i d)) = ReadHeadQueueIndex d"
  "ReadHeadVerifiedIndex (snd (WriteHeadIndex i d)) = ReadHeadVerifiedIndex d"
  "ReadHeadBatchIndex (snd (WriteHeadIndex i d)) = ReadHeadBatchIndex d"
  "ReadLatestEigenBatchIndex (snd (WriteHeadIndex i d)) = ReadLatestEigenBatchIndex d"
  using index_keys
  by (auto simp: distinct_keys_def intro!: head.wr_frame queue.index_slot_axioms verified.index_slot_axioms
      headbatch.index_slot_axioms eigen.index_slot_axioms)

lemma queue_frame [simp]:
  "ReadHeadIndex (snd (WriteHeadQueueIndex i d)) = ReadHeadIndex d"
  "ReadHeadVerifiedIndex (snd (WriteHeadQueueIndex i d)) = ReadHeadVerifiedIndex d"
  "ReadHeadBatchIndex (snd (WriteHeadQueueIndex i d)) = ReadHeadBatchIndex d"
  "ReadLatestEigenBatchIndex (snd (WriteHeadQueueIndex i d)) = ReadLatestEigenBatchIndex d"
  using index_keys
  by (auto simp: distinct_keys_def intro!: queue.wr_frame head.index_slot_axioms verified.index_slot_axioms
      headbatch.index_slot_axioms eigen.index_slot_axioms)

lemma verified_frame [simp]:
  "ReadHeadIndex (snd (WriteHeadVerifiedIndex i d)) = ReadHeadIndex d"
  "ReadHeadQueueIndex (snd (WriteHeadVerifiedIndex i d)) = ReadHeadQueueIndex d"
  "ReadHeadBatchIndex (snd (WriteHeadVerifiedIndex i d)) = ReadHeadBatchIndex d"
  "ReadLatestEigenBatchIndex (snd (WriteHeadVerifiedIndex i d)) = ReadLatestEigenBatchIndex d"
  using index_keys
  by (auto simp: distinct_keys_def intro!: verified.wr_frame head.index_slot_axioms queue.index_slot_axioms
      headbatch.index_slot_axioms eigen.index_slot_axioms)

lemma headbatch_frame [simp]:
  "ReadHeadIndex (snd (WriteHeadBatchIndex i d)) = ReadHeadIndex d"
  "ReadHeadQueueIndex (snd (WriteHeadBatchIndex i d)) = ReadHeadQueueIndex d"
  "ReadHeadVerifiedIndex (snd (WriteHeadBatchIndex i d)) = ReadHeadVerifiedIndex d"
  "ReadLatestEigenBatchIndex (snd (WriteHeadBatchIndex i d)) = ReadLatestEigenBatchIndex d"
  using index_keys
  by (auto simp: distinct_keys_def intro!: headbatch.wr_frame head.index_slot_axioms queue.index_slot_axioms
      verified.index_slot_axioms eigen.index_slot_axioms)

lemma eigen_frame [simp]:
  "ReadHeadIndex (snd (WriteLatestEigenIndex i d)) = ReadHeadIndex d"
  "ReadHeadQueueIndex (snd (WriteLatestEigenIndex i d)) = ReadHeadQueueIndex d"
  "ReadHeadVerifiedIndex (snd (WriteLatestEigenIndex i d)) = ReadHeadVerifiedIndex d"
  "ReadHeadBatchIndex (snd (WriteLatestEigenIndex i d)) = ReadHeadBatchIndex d"
  using index_keys
  by (auto simp: distinct_keys_def intro!: eigen.wr_frame head.index_slot_axioms queue.index_slot_axioms
      verified.index_slot_axioms headbatch.index_slot_axioms)

subsection \<open>Write batches against single writes\<close>

text \<open>The value of a key after the pending writes: the last of them for that key decides.\<close>

definition last_write :: "keyvalue list \<Rightarrow> (string \<rightharpoonup> byte list) \<Rightarrow> string \<rightharpoonup> byte list" where
  "last_write ws m k = (case find (\<lambda>kv. kv_key kv = k) (rev ws) of
       None \<Rightarrow> m k
     | Some kv \<Rightarrow> (if kv_delete kv then None else Some (kv_value kv)))"

lemma find_app: "find P (xs @ ys) = (case find P xs of None \<Rightarrow> find P ys | Some x \<Rightarrow> Some x)"
  by (induction xs) auto

lemma write_one_open:
  "write_one kv (Some m) = (Ok (), Some (m(kv_key kv := (if kv_delete kv then None else Some (kv_value kv)))))"
  by (simp add: write_one_def)

lemma forM_write_one: "forM ws write_one (Some m) = (Ok (), Some (last_write ws m))"
proof (induction ws arbitrary: m)
  case Nil
  then show ?case by (simp add: retM_def last_write_def fun_eq_iff)
next
  case (Cons kv ws)
  have "last_write ws (m(kv_key kv := (if kv_delete kv then None else Some (kv_value kv)))) = last_write (kv # ws) m"
  proof
    fix k
    show "last_write ws (m(kv_key kv := (if kv_delete kv then None else Some (kv_value kv)))) k = last_write (kv # ws) m k"
      by (cases "find (\<lambda>kv. kv_key kv = k) (rev ws)") (auto simp: last_write_def find_app)
  qed
  with Cons show ?case by (simp add: bindM_def write_one_open del: fun_upd_apply split del: if_split)
qed

lemma replay_one:
  "(if kv_delete kv then db_Delete (kv_key kv) else db_Put (kv_key kv) (kv_value kv)) (Some m) = write_one kv (Some m)"
  by (simp add: db_defs write_one_def)

lemma forM_replay: "forM ws (\<lambda>kv. if kv_delete kv then db_Delete (kv_key kv) else db_Put (kv_key kv) (kv_value kv)) (Some m)
    = forM ws write_one (Some m)"
  by (induction ws arbitrary: m) (auto simp: bindM_def replay_one write_one_open)

text \<open>committing a write batch to an open database succeeds, has the same effect as replaying
  its puts and deletes one by one, and leaves under each key what the last pending write for
  it says.\<close>

theorem batch_write_replay:
  "batch_Write b (Some m) = (Ok (), Some (last_write (b_writes b) m)) \<and> batch_Replay b (Some m) = batch_Write b (Some m)"
  by (simp add: batch_Write_def batch_Replay_def forM_write_one forM_replay)

text \<open>on a closed database the two commits differ: replaying a batch that begins with a put
  returns \<open>errMemorydbClosed\<close>, writing it directly panics.\<close>

theorem batch_closed:
  "fst (batch_Replay (batch_Put k v NewBatch) None) = Fail errMemorydbClosed
   \<and> fst (batch_Write (batch_Put k v NewBatch) None) = Panic ''assignment to entry in nil map''"
  by (simp add: batch_Replay_def batch_Write_def batch_Put_def NewBatch_def write_one_def db_Put_def bindM_def)

text \<open>each of the five rollup indices reads back what was written to it last, zero included, and a
  write to the head index leaves the other four alone.\<close>

theorem index_write_read:
  assumes "d \<noteq> None"
  shows "ReadHeadIndex (snd (WriteHeadIndex i d)) = Some i
    \<and> ReadHeadQueueIndex (snd (WriteHeadQueueIndex i d)) = Some i
    \<and> ReadHeadVerifiedIndex (snd (WriteHeadVerifiedIndex i d)) = Some i
    \<and> ReadHeadBatchIndex (snd (WriteHeadBatchIndex i d)) = Some i
    \<and> ReadLatestEigenBatchIndex (snd (WriteLatestEigenIndex i d)) = Some i
    \<and> ReadEigenBatchIndex (snd (WriteLatestEigenIndex i d)) = Some i
    \<and> ReadHeadQueueIndex (snd (WriteHeadIndex i d)) = ReadHeadQueueIndex d
    \<and> ReadHeadVerifiedIndex (snd (WriteHeadIndex i d)) = ReadHeadVerifiedIndex d
    \<and> ReadHeadBatchIndex (snd (WriteHeadIndex i d)) = ReadHeadBatchIndex d
    \<and> ReadLatestEigenBatchIndex (snd (WriteHeadIndex i d)) = ReadLatestEigenBatchIndex d"
proof -
  have "ReadEigenBatchIndex = ReadLatestEigenBatchIndex"
    by (simp add: fun_eq_iff ReadEigenBatchIndex_def ReadLatestEigenBatchIndex_def)
  then show ?thesis
    using assms head.wr_cases [of i d] queue.wr_cases [of i d] verified.wr_cases [of i d]
      headbatch.wr_cases [of i d] eigen.wr_cases [of i d] by auto
qed

theorem index_write_read_witness:
  "ReadHeadIndex (snd (WriteHeadIndex 0 db_New)) = Some 0 \<and> ReadHeadQueueIndex (snd (WriteHeadIndex 0 db_New)) = None"
  using index_write_read [of db_New 0] by (simp add: db_New_def ReadHeadQueueIndex_def get_data_def db_Get_def)

end
