(* ===== verification/Rollup_Client.thy ===== *)
theory Rollup_Client
  imports Tx_Meta
begin

text \<open>
  The client of the data transport layer (\<open>l2geth/rollup/client.go\<close>): how the replies of the
  server become transactions, and the queries of \<open>RollupClient\<close> built from them.

  The server is a parameter: each request is a computation on the outside world \<open>'w\<close> that fails
  when the HTTP request does and gives \<open>None\<close> when the reply is not of the expected type. The
  values of a signature are the parameter \<open>sigvals\<close> (\<open>Signer.SignatureValues\<close>).
\<close>

section \<open>Replies of the server\<close>

type_synonym Backend = nat

definition BackendL1 :: Backend where "BackendL1 = 0"
definition BackendL2 :: Backend where "BackendL2 = 1"
definition BackendEigen :: Backend where "BackendEigen = 2"

definition Backend_String :: "Backend \<Rightarrow> string" where
  "Backend_String s = (if s = BackendL1 then ''l1'' else if s = BackendL2 then ''l2''
     else if s = BackendEigen then ''da'' else '''')"

definition NewBackend :: "string \<Rightarrow> Backend res" where
  "NewBackend typ = (if typ = ''l1'' then Ok BackendL1 else if typ = ''l2'' then Ok BackendL2
     else if typ = ''da'' then Ok BackendEigen else Fail (ErrNew ''Unknown Backend''))"

definition errElementNotFound :: goerr where
  "errElementNotFound = Sentinel ''errElementNotFound''"

record Batch =
  bt_Index :: u64
  bt_Root :: "256 word"
  bt_Size :: "32 word"
  bt_PrevTotalElements :: "32 word"
  bt_ExtraData :: "byte list"
  bt_BlockNumber :: u64
  bt_Timestamp :: u64
  bt_Submitter :: address

record EthContext =
  ec_BlockNumber :: u64
  ec_BlockHash :: "256 word"
  ec_Timestamp :: u64

record SyncStatus =
  st_Syncing :: bool
  st_HighestKnownTransactionIndex :: u64
  st_CurrentTransactionIndex :: u64

record signature =
  sig_R :: "byte list"
  sig_S :: "byte list"
  sig_V :: u64

record decoded =
  dc_Signature :: signature
  dc_Value :: "int option"
  dc_GasLimit :: u64
  dc_GasPrice :: u64
  dc_Nonce :: u64
  dc_Target :: "address option"
  dc_Data :: "byte list"

record transaction =
  rt_Index :: u64
  rt_BatchIndex :: u64
  rt_BlockNumber :: u64
  rt_Timestamp :: u64
  rt_Value :: "int option"
  rt_GasLimit :: u64
  rt_Target :: address
  rt_Origin :: "address option"
  rt_Data :: "byte list"
  rt_QueueOrigin :: string
  rt_QueueIndex :: "u64 option"
  rt_Decoded :: "decoded option"

record StateRoot =
  sr_Index :: u64
  sr_BatchIndex :: u64
  sr_Value :: string

record Enqueue =
  eq_Index :: "u64 option"
  eq_Target :: "address option"
  eq_Data :: "byte list option"
  eq_GasLimit :: "u64 option"
  eq_Origin :: "address option"
  eq_BlockNumber :: "u64 option"
  eq_Timestamp :: "u64 option"
  eq_QueueIndex :: "u64 option"

record TransactionResponse =
  tr_Transaction :: "transaction option"
  tr_Batch :: "Batch option"

record TransactionBatchResponse =
  tb_Batch :: "Batch option"
  tb_Transactions :: "transaction option list"

record StateRootResponse =
  sp_StateRoot :: "StateRoot option"
  sp_Batch :: "Batch option"

section \<open>From replies to transactions\<close>

fun need :: "string \<Rightarrow> 'a option \<Rightarrow> ('a \<Rightarrow> 'b res) \<Rightarrow> 'b res" where
  "need msg None f = Fail (ErrNew msg)"
| "need msg (Some a) f = f a"

definition enqueueToTransaction :: "Enqueue option \<Rightarrow> Transaction res" where
  "enqueueToTransaction enqueue = (case enqueue of
       None \<Rightarrow> Fail errElementNotFound
     | Some e \<Rightarrow> (case eq_QueueIndex e of
         None \<Rightarrow> Fail errElementNotFound
       | Some nonce \<Rightarrow>
           need ''Target not found for enqueue tx'' (eq_Target e) (\<lambda>target.
           need ''Gas limit not found for enqueue tx'' (eq_GasLimit e) (\<lambda>gasLimit.
           need ''Origin not found for enqueue tx'' (eq_Origin e) (\<lambda>origin.
           need ''Blocknumber not found for enqueue tx'' (eq_BlockNumber e) (\<lambda>blockNumber.
           need ''Timestamp not found for enqueue tx'' (eq_Timestamp e) (\<lambda>timestamp.
           need ''Data not found for enqueue tx'' (eq_Data e) (\<lambda>data.
           let tx = NewTransaction nonce target (Some 0) gasLimit (Some 0) data;
               txMeta = NewTransactionMeta (Some (uint blockNumber)) timestamp (Some origin) QueueOriginL1ToL2
                 (eq_Index e) (eq_QueueIndex e) (Some data)
           in Ok (SetTransactionMeta (Some txMeta) tx)))))))))"

text \<open>\<open>copy(sig[i:j], bs)\<close> for \<open>bs\<close> of length \<open>j - i\<close>; a negative \<open>i\<close> panics.\<close>

definition copyEnd :: "nat \<Rightarrow> byte list \<Rightarrow> byte list \<Rightarrow> byte list res" where
  "copyEnd j bs buf = (if length bs > j then Panic ''slice bounds out of range''
     else Ok (take (j - length bs) buf @ bs @ drop j buf))"

definition WithSignature :: "(Transaction \<Rightarrow> byte list \<Rightarrow> (int \<times> int \<times> int) res) \<Rightarrow> byte list \<Rightarrow> Transaction
    \<Rightarrow> Transaction res" where
  "WithSignature sigvals sig tx = bindR (sigvals tx sig) (\<lambda>(r, s, v). Ok (tx\<lparr>tx_R := r, tx_S := s, tx_V := v\<rparr>))"

text \<open>\<open>sigvals None\<close> is the Homestead signer, \<open>sigvals (Some chainID)\<close> the EIP-155 one.\<close>

type_synonym signers = "int option \<Rightarrow> Transaction \<Rightarrow> byte list \<Rightarrow> (int \<times> int \<times> int) res"

definition signDecoded :: "signers \<Rightarrow> int \<Rightarrow> signature \<Rightarrow> Transaction \<Rightarrow> Transaction res" where
  "signDecoded sigvals chainID sg tx =
     bindR (copyEnd 32 (sig_R sg) (replicate 65 0)) (\<lambda>sig.
     bindR (copyEnd 64 (sig_S sg) sig) (\<lambda>sig.
     if sig_V sg = 27 \<or> sig_V sg = 28
     then wrapR ''Cannot add signature to transaction'' (WithSignature (sigvals None) (sig[64 := ucast (sig_V sg - 27)]) tx)
     else wrapR ''Cannot add signature to transaction'' (WithSignature (sigvals (Some chainID)) (sig[64 := ucast (sig_V sg)]) tx)))"

definition queueOriginOf :: "string \<Rightarrow> QueueOrigin res" where
  "queueOriginOf s = (if s = ''sequencer'' then Ok QueueOriginSequencer
     else if s = ''l1'' then Ok QueueOriginL1ToL2
     else Fail (ErrNew ''Unknown queue origin''))"

definition batchedTransactionToTransaction :: "signers \<Rightarrow> transaction option \<Rightarrow> int \<Rightarrow> Transaction res" where
  "batchedTransactionToTransaction sigvals res chainID = (case res of
       None \<Rightarrow> Fail errElementNotFound
     | Some r \<Rightarrow> bindR (queueOriginOf (rt_QueueOrigin r)) (\<lambda>queueOrigin.
         let txMeta = NewTransactionMeta (Some (uint (rt_BlockNumber r))) (rt_Timestamp r) (rt_Origin r) queueOrigin
               (Some (rt_Index r)) (rt_QueueIndex r) (Some (rt_Data r)) in
         case rt_Decoded r of
           Some d \<Rightarrow>
             let gasPrice = uint (dc_GasPrice d);
                 tx = (case dc_Target d of
                     None \<Rightarrow> NewContractCreation (dc_Nonce d) (dc_Value d) (dc_GasLimit d) (Some gasPrice) (dc_Data d)
                   | Some to \<Rightarrow> NewTransaction (dc_Nonce d) to (dc_Value d) (dc_GasLimit d) (Some gasPrice) (dc_Data d))
             in signDecoded sigvals chainID (dc_Signature d) (SetTransactionMeta (Some txMeta) tx)
         | None \<Rightarrow>
             bindR (if rt_QueueOrigin r = ''l1''
                    then (case rt_QueueIndex r of
                        None \<Rightarrow> Fail (ErrNew ''Queue origin L1 to L2 without a queue index'')
                      | Some q \<Rightarrow> Ok q)
                    else Ok 0) (\<lambda>nonce.
             Ok (SetTransactionMeta (Some txMeta)
               (NewTransaction nonce (rt_Target r) (rt_Value r) (rt_GasLimit r) (Some 0) (rt_Data r))))))"

fun parseTransactions :: "signers \<Rightarrow> int \<Rightarrow> transaction option list \<Rightarrow> Transaction list res" where
  "parseTransactions sigvals chainID [] = Ok []"
| "parseTransactions sigvals chainID (tx # txs) =
     bindR (wrapR ''Cannot parse transaction batch'' (batchedTransactionToTransaction sigvals tx chainID)) (\<lambda>t.
     bindR (parseTransactions sigvals chainID txs) (\<lambda>ts. Ok (t # ts)))"

definition parseTransactionBatchResponse :: "signers \<Rightarrow> TransactionBatchResponse option \<Rightarrow> int
    \<Rightarrow> (Batch \<times> Transaction list) res" where
  "parseTransactionBatchResponse sigvals txBatch chainID = (case txBatch of
       None \<Rightarrow> Fail errElementNotFound
     | Some b \<Rightarrow> (case tb_Batch b of
         None \<Rightarrow> Fail errElementNotFound
       | Some batch \<Rightarrow> bindR (parseTransactions sigvals chainID (tb_Transactions b)) (\<lambda>txs. Ok (batch, txs))))"

section \<open>Queries\<close>

record 'w server =
  srv_enqueue :: "u64 \<Rightarrow> ('w, Enqueue option) sm"
  srv_enqueue_latest :: "('w, Enqueue option) sm"
  srv_transaction :: "u64 \<Rightarrow> string \<Rightarrow> ('w, TransactionResponse option) sm"
  srv_transaction_latest :: "string \<Rightarrow> ('w, TransactionResponse option) sm"
  srv_stateroot :: "u64 \<Rightarrow> string \<Rightarrow> ('w, StateRootResponse option) sm"
  srv_context :: "u64 \<Rightarrow> ('w, EthContext option) sm"
  srv_context_latest :: "('w, EthContext option) sm"
  srv_batch :: "u64 \<Rightarrow> ('w, TransactionBatchResponse option) sm"
  srv_batch_latest :: "('w, TransactionBatchResponse option) sm"
  srv_syncing :: "string \<Rightarrow> ('w, SyncStatus option) sm"

fun expectR :: "string \<Rightarrow> 'a option \<Rightarrow> 'a res" where
  "expectR msg (Some a) = Ok a"
| "expectR msg None = Fail (ErrNew msg)"

definition request :: "string \<Rightarrow> string \<Rightarrow> ('w, 'a option) sm \<Rightarrow> ('w, 'a) sm" where
  "request wrapmsg badmsg m = bindM (wrapM wrapmsg m) (\<lambda>r. liftR (expectR badmsg r))"

definition GetEnqueue :: "'w server \<Rightarrow> u64 \<Rightarrow> ('w, Transaction) sm" where
  "GetEnqueue srv index = bindM (request ''cannot fetch enqueue'' ''Cannot fetch enqueue'' (srv_enqueue srv index))
     (\<lambda>enqueue. liftR (enqueueToTransaction (Some enqueue)))"

definition GetLatestEnqueue :: "'w server \<Rightarrow> ('w, Transaction) sm" where
  "GetLatestEnqueue srv = bindM (request ''cannot fetch latest enqueue'' ''Cannot fetch latest enqueue'' (srv_enqueue_latest srv))
     (\<lambda>enqueue. liftR (wrapR ''Cannot parse enqueue tx'' (enqueueToTransaction (Some enqueue))))"

definition GetLatestEnqueueIndex :: "'w server \<Rightarrow> ('w, u64 option) sm" where
  "GetLatestEnqueueIndex srv = bindM (GetLatestEnqueue srv) (\<lambda>tx. case m_QueueIndex (tx_meta tx) of
       None \<Rightarrow> failM (ErrNew ''Latest queue index is nil'')
     | Some index \<Rightarrow> retM (Some index))"

definition GetRawTransaction :: "'w server \<Rightarrow> u64 \<Rightarrow> Backend \<Rightarrow> ('w, TransactionResponse) sm" where
  "GetRawTransaction srv index backend =
     request ''cannot fetch transaction'' ''could not get tx with index'' (srv_transaction srv index (Backend_String backend))"

definition GetTransaction :: "signers \<Rightarrow> int \<Rightarrow> 'w server \<Rightarrow> u64 \<Rightarrow> Backend \<Rightarrow> ('w, Transaction) sm" where
  "GetTransaction sigvals chainID srv index backend = bindM (GetRawTransaction srv index backend)
     (\<lambda>res. liftR (batchedTransactionToTransaction sigvals (tr_Transaction res) chainID))"

definition GetLatestTransaction :: "signers \<Rightarrow> int \<Rightarrow> 'w server \<Rightarrow> Backend \<Rightarrow> ('w, Transaction) sm" where
  "GetLatestTransaction sigvals chainID srv backend =
     bindM (request ''cannot fetch latest transactions'' ''Cannot get latest transaction'' (srv_transaction_latest srv (Backend_String backend)))
     (\<lambda>res. liftR (batchedTransactionToTransaction sigvals (tr_Transaction res) chainID))"

definition GetLatestTransactionIndex :: "signers \<Rightarrow> int \<Rightarrow> 'w server \<Rightarrow> Backend \<Rightarrow> ('w, u64 option) sm" where
  "GetLatestTransactionIndex sigvals chainID srv backend = bindM (GetLatestTransaction sigvals chainID srv backend)
     (\<lambda>tx. case m_Index (tx_meta tx) of
         None \<Rightarrow> failM (ErrNew ''Latest index is nil'')
       | Some index \<Rightarrow> retM (Some index))"

definition GetStateRoot :: "'w server \<Rightarrow> u64 \<Rightarrow> Backend \<Rightarrow> ('w, StateRoot) sm" where
  "GetStateRoot srv index backend =
     (let queryParam = (if Backend_String backend = ''da'' then ''l1'' else Backend_String backend) in
      bindM (request ''cannot fetch transaction'' ''could not get tx with index'' (srv_stateroot srv index queryParam))
      (\<lambda>res. case sp_StateRoot res of None \<Rightarrow> failM errElementNotFound | Some r \<Rightarrow> retM r))"

definition GetEthContext :: "'w server \<Rightarrow> u64 \<Rightarrow> ('w, EthContext) sm" where
  "GetEthContext srv blockNumber = bindM (srv_context srv blockNumber) (\<lambda>r. liftR (expectR ''Cannot parse EthContext'' r))"

definition GetLatestEthContext :: "'w server \<Rightarrow> ('w, EthContext) sm" where
  "GetLatestEthContext srv = request ''Cannot fetch eth context'' ''Cannot parse EthContext'' (srv_context_latest srv)"

definition GetSyncStatus :: "'w server \<Rightarrow> Backend \<Rightarrow> ('w, SyncStatus) sm" where
  "GetSyncStatus srv backend =
     request ''Cannot fetch sync status'' ''Cannot parse sync status'' (srv_syncing srv (Backend_String backend))"

definition GetLatestTransactionBatch :: "signers \<Rightarrow> int \<Rightarrow> 'w server \<Rightarrow> ('w, Batch \<times> Transaction list) sm" where
  "GetLatestTransactionBatch sigvals chainID srv =
     bindM (attemptM (srv_batch_latest srv)) (\<lambda>x. case x of
         Inl err \<Rightarrow> failM (ErrNew ''Cannot get latest transaction batch'')
       | Inr r \<Rightarrow> bindM (liftR (expectR ''Cannot parse transaction batch response'' r))
           (\<lambda>b. liftR (parseTransactionBatchResponse sigvals (Some b) chainID)))"

definition GetLatestTransactionBatchIndex :: "signers \<Rightarrow> int \<Rightarrow> 'w server \<Rightarrow> ('w, u64 option) sm" where
  "GetLatestTransactionBatchIndex sigvals chainID srv =
     bindM (GetLatestTransactionBatch sigvals chainID srv) (\<lambda>(batch, _). retM (Some (bt_Index batch)))"

definition GetTransactionBatch :: "signers \<Rightarrow> int \<Rightarrow> 'w server \<Rightarrow> u64 \<Rightarrow> ('w, Batch \<times> Transaction list) sm" where
  "GetTransactionBatch sigvals chainID srv index =
     bindM (request ''Cannot get transaction batch'' ''Cannot parse transaction batch response'' (srv_batch srv index))
     (\<lambda>b. liftR (parseTransactionBatchResponse sigvals (Some b) chainID))"

text \<open>
  The backward search of \<open>GetLastConfirmedEnqueue\<close>. When a fetch fails, the error message reads
  \<open>*meta.Index\<close>, which is nil on this path.
\<close>

fun confirmedFrom :: "'w server \<Rightarrow> nat \<Rightarrow> Transaction \<Rightarrow> ('w, Transaction) sm" where
  "confirmedFrom srv 0 enqueue = liftR Diverge"
| "confirmedFrom srv (Suc fuel) enqueue =
     (let meta = tx_meta enqueue in
      if m_Index meta \<noteq> None then retM enqueue
      else case m_QueueIndex meta of
        None \<Rightarrow> failM (ErrNew ''queue index is nil'')
      | Some q \<Rightarrow>
          if q = 0 then failM errElementNotFound
          else bindM (attemptM (GetEnqueue srv (q - 1))) (\<lambda>x. case x of
              Inl err \<Rightarrow> bindM (liftR (derefR (m_Index meta))) (\<lambda>_. failM (ErrWrap ''cannot get enqueue'' err))
            | Inr next \<Rightarrow> confirmedFrom srv fuel next))"

definition GetLastConfirmedEnqueue :: "'w server \<Rightarrow> nat \<Rightarrow> ('w, Transaction) sm" where
  "GetLastConfirmedEnqueue srv fuel =
     bindM (wrapM ''Cannot get latest enqueue'' (GetLatestEnqueue srv)) (\<lambda>enqueue. confirmedFrom srv fuel enqueue)"

section \<open>What the conversions keep\<close>

lemma need_Ok_iff: "need msg x f = Ok b \<longleftrightarrow> (\<exists>a. x = Some a \<and> f a = Ok b)"
  by (cases x) auto

lemma need_returns: "(\<And>a. f a \<noteq> Diverge) \<Longrightarrow> need msg x f \<noteq> Diverge"
  by (cases x) simp_all

lemma enqueue_returns: "enqueueToTransaction e \<noteq> Diverge"
  by (auto simp: enqueueToTransaction_def Let_def split: option.split intro!: need_returns)

lemma expectR_returns: "expectR msg r \<noteq> Diverge"
  by (cases r) simp_all

lemma signDecoded_keeps:
  assumes "signDecoded sigvals chainID sg tx = Ok t"
  shows "\<exists>r s v. t = tx\<lparr>tx_R := r, tx_S := s, tx_V := v\<rparr>"
  using assms by (auto simp: signDecoded_def WithSignature_def bindR_Ok_iff split: if_splits)

lemma SetTransactionMeta_Some [simp]: "tx_meta (SetTransactionMeta (Some m) t) = m"
  by (simp add: SetTransactionMeta_def)

lemma batched_meta:
  assumes "batchedTransactionToTransaction sigvals (Some r) chainID = Ok tx"
  shows "\<exists>q. queueOriginOf (rt_QueueOrigin r) = Ok q \<and>
    tx_meta tx = NewTransactionMeta (Some (uint (rt_BlockNumber r))) (rt_Timestamp r) (rt_Origin r) q
      (Some (rt_Index r)) (rt_QueueIndex r) (Some (rt_Data r))"
proof (cases "rt_Decoded r")
  case None
  with assms show ?thesis by (auto simp: batchedTransactionToTransaction_def bindR_Ok_iff Let_def)
next
  case (Some d)
  then show ?thesis
    using assms by (auto simp: batchedTransactionToTransaction_def bindR_Ok_iff Let_def dest!: signDecoded_keeps)
qed

lemma enqueue_meta:
  assumes "enqueueToTransaction (Some e) = Ok tx"
  shows "m_QueueIndex (tx_meta tx) = eq_QueueIndex e" and "m_Index (tx_meta tx) = eq_Index e"
    and "eq_QueueIndex e \<noteq> None"
  using assms
  by (auto simp: enqueueToTransaction_def need_Ok_iff Let_def NewTransactionMeta_def split: option.splits)

text \<open>an L1 to L2 transaction built from a queue element carries the element faithfully: it is
  marked as coming from L1, its nonce is its queue index, it moves no value and pays no gas price, and sender, L1 block
  number, timestamp and data are those of the element.\<close>

theorem enqueue_transaction_faithful:
  assumes "enqueueToTransaction (Some e) = Ok tx"
  shows "tx_QueueOrigin tx = QueueOriginL1ToL2 \<and> Some (tx_AccountNonce tx) = eq_QueueIndex e \<and>
    tx_Amount tx = 0 \<and> tx_Price tx = 0 \<and> tx_Recipient tx = eq_Target e \<and> Some (tx_GasLimit tx) = eq_GasLimit e \<and>
    L1MessageSender tx = eq_Origin e \<and> L1BlockNumber tx = map_option uint (eq_BlockNumber e) \<and>
    Some (L1Timestamp tx) = eq_Timestamp e \<and> Some (tx_Payload tx) = eq_Data e \<and>
    m_Index (tx_meta tx) = eq_Index e \<and> m_QueueIndex (tx_meta tx) = eq_QueueIndex e \<and> m_RawTransaction (tx_meta tx) = eq_Data e"
  using assms
  by (auto simp: enqueueToTransaction_def need_Ok_iff Let_def NewTransactionMeta_def SetTransactionMeta_def
      NewTransaction_def newTransaction_def tx_QueueOrigin_def L1MessageSender_def L1BlockNumber_def L1Timestamp_def
      split: option.splits)

definition sample_enqueue :: Enqueue where
  "sample_enqueue = \<lparr>eq_Index = None, eq_Target = Some zeroAddress, eq_Data = Some [1, 2], eq_GasLimit = Some 21000,
     eq_Origin = Some (replicate 20 3), eq_BlockNumber = Some 7, eq_Timestamp = Some 9, eq_QueueIndex = Some 4\<rparr>"

theorem enqueue_transaction_faithful_witness:
  "tx_AccountNonce (res_val (enqueueToTransaction (Some sample_enqueue))) = 4"
  using enqueue_transaction_faithful [of sample_enqueue "res_val (enqueueToTransaction (Some sample_enqueue))"]
  by (simp add: sample_enqueue_def enqueueToTransaction_def Let_def)

lemma parseTransactions_map:
  "parseTransactions sigvals chainID rs = Ok txs \<Longrightarrow>
     list_all2 (\<lambda>r tx. batchedTransactionToTransaction sigvals r chainID = Ok tx) rs txs"
  by (induction rs arbitrary: txs) (auto simp: bindR_Ok_iff)


definition sample_entry :: "u64 \<Rightarrow> transaction" where
  "sample_entry i = \<lparr>rt_Index = i, rt_BatchIndex = 0, rt_BlockNumber = 7, rt_Timestamp = 9, rt_Value = None,
     rt_GasLimit = 21000, rt_Target = zeroAddress, rt_Origin = None, rt_Data = [], rt_QueueOrigin = ''l1'',
     rt_QueueIndex = Some i, rt_Decoded = None\<rparr>"

definition sample_batch :: Batch where
  "sample_batch = \<lparr>bt_Index = 1, bt_Root = 0, bt_Size = 2, bt_PrevTotalElements = 0, bt_ExtraData = [], bt_BlockNumber = 7,
     bt_Timestamp = 9, bt_Submitter = zeroAddress\<rparr>"


section \<open>The backward search\<close>

text \<open>A server that answers a queue index with that element, or not at all.\<close>

definition queue_honest :: "'w server \<Rightarrow> bool" where
  "queue_honest srv \<longleftrightarrow> (\<forall>i w. (case srv_enqueue srv i w of
       (Ok (Some e), _) \<Rightarrow> eq_QueueIndex e = Some i
     | (Diverge, _) \<Rightarrow> False
     | _ \<Rightarrow> True))"

lemma GetEnqueue_honest:
  assumes "queue_honest srv"
  shows "GetEnqueue srv i w = (Ok tx, w') \<Longrightarrow> m_QueueIndex (tx_meta tx) = Some i"
    and "fst (GetEnqueue srv i w) \<noteq> Diverge"
proof -
  have h: "case srv_enqueue srv i w of (Ok (Some e), _) \<Rightarrow> eq_QueueIndex e = Some i | (Diverge, _) \<Rightarrow> False | _ \<Rightarrow> True"
    using assms by (simp add: queue_honest_def)
  then show "GetEnqueue srv i w = (Ok tx, w') \<Longrightarrow> m_QueueIndex (tx_meta tx) = Some i"
    using enqueue_meta(1)
    by (auto simp: GetEnqueue_def request_def bindM_def wrapM_def liftR_def split: prod.splits res.splits option.splits)
  show "fst (GetEnqueue srv i w) \<noteq> Diverge"
    using h enqueue_returns expectR_returns by (auto simp: GetEnqueue_def request_def bindM_def wrapM_def liftR_def split: prod.splits res.splits)
qed

lemma confirmedFrom_returns:
  assumes "queue_honest srv"
  shows "m_QueueIndex (tx_meta t) = Some q \<Longrightarrow> unat q < fuel \<Longrightarrow> fst (confirmedFrom srv fuel t w) \<noteq> Diverge"
proof (induction fuel arbitrary: t q w)
  case (Suc fuel)
  show ?case
  proof (cases "m_Index (tx_meta t) \<noteq> None \<or> q = 0")
    case True
    with Suc.prems show ?thesis by (auto simp: res_simps Let_def)
  next
    case False
    obtain x w1 where x: "GetEnqueue srv (q - 1) w = (x, w1)" by fastforce
    have "unat q \<noteq> 0" using False by (simp add: unat_eq_zero)
    then have "unat (q - 1) < fuel" using False Suc.prems(2) by (simp add: unat_minus_one)
    with x GetEnqueue_honest [OF assms, where i = "q - 1" and w = w] Suc.IH
    show ?thesis
      using False Suc.prems(1) by (cases x) (auto simp: bindM_def attemptM_def liftR_def)
  qed
qed simp

lemma confirmedFrom_confirmed: "confirmedFrom srv fuel t w = (Ok tx, w') \<Longrightarrow> m_Index (tx_meta tx) \<noteq> None"
proof (induction fuel arbitrary: t w)
  case 0
  then show ?case by (simp add: liftR_def)
next
  case (Suc fuel)
  then show ?case
    by (auto simp: Let_def retM_def failM_def bindM_def attemptM_def liftR_def split: if_splits option.splits prod.splits
        res.splits sum.splits)
qed


definition sample_server :: "unit server" where
  "sample_server = \<lparr>srv_enqueue = (\<lambda>i. failM io_EOF), srv_enqueue_latest = retM (Some sample_enqueue),
     srv_transaction = (\<lambda>_ _. failM io_EOF), srv_transaction_latest = (\<lambda>_. failM io_EOF),
     srv_stateroot = (\<lambda>_ _. failM io_EOF), srv_context = (\<lambda>_. failM io_EOF), srv_context_latest = failM io_EOF,
     srv_batch = (\<lambda>_. failM io_EOF), srv_batch_latest = failM io_EOF, srv_syncing = (\<lambda>_. failM io_EOF)\<rparr>"


text \<open>when the latest queue element is not confirmed and its predecessor cannot be fetched, the
  search does not return the error: it panics on the nil index it wants to print.\<close>

theorem confirmed_search_panics:
  assumes "GetLatestEnqueue srv w = (Ok tx, w1)" and "m_Index (tx_meta tx) = None"
    and "m_QueueIndex (tx_meta tx) = Some q" and "q \<noteq> 0" and "GetEnqueue srv (q - 1) w1 = (Fail err, w2)"
  shows "GetLastConfirmedEnqueue srv (Suc fuel) w = (Panic ''nil pointer dereference'', w2)"
  using assms by (simp add: GetLastConfirmedEnqueue_def bindM_def wrapM_def attemptM_def liftR_def)

theorem confirmed_search_panics_witness:
  "GetLastConfirmedEnqueue sample_server (Suc 3) () = (Panic ''nil pointer dereference'', ())"
  by (rule confirmed_search_panics [where tx = "res_val (enqueueToTransaction (Some sample_enqueue))" and q = 4
        and err = "ErrWrap ''cannot fetch enqueue'' io_EOF"])
    (simp_all add: GetLatestEnqueue_def GetEnqueue_def request_def sample_server_def sample_enqueue_def enqueueToTransaction_def
      Let_def bindM_def wrapM_def NewTransactionMeta_def res_simps)

end
