(* ===== verification/Big_Float.thy ===== *)
theory Big_Float
  imports Complex_Main "HOL-Library.Log_Nat" Go_Prelude
begin

text \<open>
  The part of Go's \<open>math/big.Float\<close> and of \<open>float64\<close> that the fee code uses: values as rational
  numbers, rounded to the precision of the result (to nearest, ties to even). Infinities do not
  arise before the final conversion to \<open>uint64\<close>, whose value outside the range of \<open>uint64\<close> Go
  leaves to the implementation: there it is the argument \<open>ov\<close>.
\<close>

section \<open>Rounding\<close>

definition round_even :: "rat \<Rightarrow> int" where
  "round_even x = (let f = \<lfloor>x\<rfloor>; d = x - of_int f in
     if d < 1 / 2 then f else if 1 / 2 < d then f + 1 else if even f then f else f + 1)"

text \<open>The exponent of the leading bit of a positive rational.\<close>

definition rat_log2 :: "rat \<Rightarrow> int" where
  "rat_log2 q = (case quotient_of q of (a, b) \<Rightarrow>
     let e = int (floorlog 2 (nat a)) - int (floorlog 2 (nat b))
     in if 2 powi e \<le> q then e else e - 1)"

definition round_prec :: "nat \<Rightarrow> rat \<Rightarrow> rat" where
  "round_prec p q = (if q = 0 then 0 else
     let u = 2 powi (rat_log2 \<bar>q\<bar> - int p + 1) in of_int (round_even (q / u)) * u)"

section \<open>Arbitrary-precision floats\<close>

record bigfloat =
  bf_prec :: nat
  bf_val :: rat

text \<open>\<open>NewFloat\<close> for an integral value, \<open>SetInt\<close> and \<open>SetUint64\<close> on a fresh float: exact.\<close>

definition bf_of_int :: "int \<Rightarrow> bigfloat" where
  "bf_of_int n = \<lparr>bf_prec = max 64 (floorlog 2 (nat \<bar>n\<bar>)), bf_val = of_int n\<rparr>"

definition bf_SetUint64 :: "u64 \<Rightarrow> bigfloat" where
  "bf_SetUint64 n = \<lparr>bf_prec = 64, bf_val = of_int (uint n)\<rparr>"

text \<open>\<open>new(big.Float).Quo(x, y)\<close> takes the larger precision; \<open>n.Mul(n, y)\<close> keeps that of \<open>n\<close>.\<close>

definition bf_Quo :: "bigfloat \<Rightarrow> bigfloat \<Rightarrow> bigfloat" where
  "bf_Quo x y = (let p = max (bf_prec x) (bf_prec y) in
     \<lparr>bf_prec = p, bf_val = round_prec p (bf_val x / bf_val y)\<rparr>)"

definition bf_Mul :: "bigfloat \<Rightarrow> bigfloat \<Rightarrow> bigfloat" where
  "bf_Mul n y = n\<lparr>bf_val := round_prec (bf_prec n) (bf_val n * bf_val y)\<rparr>"

text \<open>\<open>Float64\<close>: 53 bits, fewer below the normal range.\<close>

definition bf_Float64 :: "bigfloat \<Rightarrow> rat" where
  "bf_Float64 x = (if \<bar>bf_val x\<bar> < 2 powi (- 1022)
     then of_int (round_even (bf_val x * 2 ^ 1074)) / 2 ^ 1074
     else round_prec 53 (bf_val x))"

definition u64_of_float :: "(rat \<Rightarrow> u64) \<Rightarrow> int \<Rightarrow> u64" where
  "u64_of_float ov n = (if 0 \<le> n \<and> n < 2 ^ 64 then of_int n else ov (of_int n))"

section \<open>Rounding is close and exact where it can be\<close>

lemma round_even_error: "\<bar>of_int (round_even x) - x\<bar> \<le> 1 / 2"
proof -
  define f where "f = \<lfloor>x\<rfloor>"
  have "of_int f \<le> x" and "x < of_int f + 1" unfolding f_def by linarith+
  then show ?thesis by (auto simp: round_even_def Let_def abs_if simp flip: f_def)
qed

lemma round_even_int [simp]: "round_even (of_int k) = k"
  by (simp add: round_even_def)

lemma floorlog2_bounds:
  "0 < n \<Longrightarrow> 2 powi (int (floorlog 2 n) - 1) \<le> (of_nat n :: rat) \<and> (of_nat n :: rat) < 2 powi (int (floorlog 2 n))"
proof
  assume n: "0 < n"
  then have "2 ^ (floorlog 2 n - 1) \<le> n" and lt: "n < 2 ^ floorlog 2 n"
    using floorlog_bounds [of n 2] by auto
  moreover have "0 < floorlog 2 n" using n by (simp add: floorlog_def)
  ultimately have "(2 :: rat) powi (int (floorlog 2 n) - 1) = of_nat (2 ^ (floorlog 2 n - 1))"
    by (simp add: power_int_def nat_diff_distrib)
  then show "2 powi (int (floorlog 2 n) - 1) \<le> (of_nat n :: rat)"
    using \<open>2 ^ (floorlog 2 n - 1) \<le> n\<close> by (simp only: of_nat_le_iff)
  have "(of_nat n :: rat) < of_nat (2 ^ floorlog 2 n)" using lt by (simp only: of_nat_less_iff)
  then show "(of_nat n :: rat) < 2 powi (int (floorlog 2 n))" by simp
qed

lemma rat_log2_bounds:
  assumes "0 < q"
  shows "2 powi (rat_log2 q) \<le> q" and "q < 2 powi (rat_log2 q + 1)"
proof -
  obtain a b where ab: "quotient_of q = (a, b)" by fastforce
  then have q: "q = of_int a / of_int b" and b: "0 < b"
    by (simp_all add: quotient_of_div quotient_of_denom_pos)
  with assms have a: "0 < a" by (simp add: zero_less_divide_iff)
  define s t where "s = int (floorlog 2 (nat a))" and "t = int (floorlog 2 (nat b))"
  have A: "2 powi (s - 1) \<le> (of_int a :: rat)" "(of_int a :: rat) < 2 powi s"
    and B: "2 powi (t - 1) \<le> (of_int b :: rat)" "(of_int b :: rat) < 2 powi t"
    using floorlog2_bounds [of "nat a"] floorlog2_bounds [of "nat b"] a b by (auto simp: s_def t_def)
  have "q \<le> of_int a / 2 powi (t - 1)"
    unfolding q using A B a b by (intro divide_left_mono) auto
  also have "\<dots> < 2 powi s / 2 powi (t - 1)" using A by (intro divide_strict_right_mono) auto
  also have "\<dots> = 2 powi (s - t + 1)" by (simp flip: power_int_diff add: algebra_simps)
  finally have up: "q < 2 powi (s - t + 1)" .
  have "2 powi (s - t - 1) = (2 powi (s - 1) / 2 powi t :: rat)"
    by (simp flip: power_int_diff add: algebra_simps)
  also have "\<dots> \<le> of_int a / 2 powi t" using A by (intro divide_right_mono) auto
  also have "\<dots> \<le> q" unfolding q using A B a b by (intro divide_left_mono) auto
  finally have lo: "2 powi (s - t - 1) \<le> q" .
  have r: "rat_log2 q = (if 2 powi (s - t) \<le> q then s - t else s - t - 1)"
    by (simp add: rat_log2_def ab s_def t_def Let_def)
  show "2 powi (rat_log2 q) \<le> q" using lo by (simp add: r)
  show "q < 2 powi (rat_log2 q + 1)" using up by (simp add: r algebra_simps)
qed

lemma round_prec_error:
  assumes "0 < p"
  shows "\<bar>round_prec p q - q\<bar> \<le> \<bar>q\<bar> / 2 ^ p"
proof (cases "q = 0")
  case False
  define e where "e = rat_log2 \<bar>q\<bar>"
  define u :: rat where "u = 2 powi (e - int p + 1)"
  have u: "0 < u" by (simp add: u_def)
  have "round_prec p q - q = (of_int (round_even (q / u)) - q / u) * u"
    using False u by (simp add: round_prec_def Let_def u_def e_def field_simps)
  then have "\<bar>round_prec p q - q\<bar> \<le> 1 / 2 * u"
    using round_even_error [of "q / u"] u by (simp add: abs_mult mult_right_mono)
  also have "\<dots> = 2 powi e / 2 ^ p"
    by (simp add: u_def power_int_add power_int_diff)
  also have "\<dots> \<le> \<bar>q\<bar> / 2 ^ p"
    using rat_log2_bounds(1) [of "\<bar>q\<bar>"] False by (intro divide_right_mono) (simp_all add: e_def)
  finally show ?thesis .
qed (simp add: round_prec_def)

lemma round_prec_int:
  assumes "\<bar>k\<bar> < 2 ^ p"
  shows "round_prec p (of_int k) = of_int k"
proof (cases "k = 0")
  case False
  define e where "e = rat_log2 \<bar>of_int k\<bar>"
  have "(2 :: rat) powi e \<le> \<bar>of_int k\<bar>" using rat_log2_bounds(1) [of "\<bar>of_int k\<bar>"] False by (simp add: e_def)
  also have "\<dots> < 2 ^ p" using assms by (metis of_int_abs of_int_less_iff of_int_numeral of_int_power)
  finally have "(2 :: rat) powi e < 2 powi (int p)" by simp
  then have "e < int p" using power_int_increasing [of "int p" e "2 :: rat"] by force
  define j where "j = nat (int p - e - 1)"
  have "e - int p + 1 = - int j" using \<open>e < int p\<close> by (simp add: j_def)
  then have u: "(2 :: rat) powi (e - int p + 1) = 1 / 2 ^ j"
    by (simp only: power_int_minus power_int_of_nat) (simp add: field_simps)
  have "(of_int k :: rat) / (1 / 2 ^ j) = of_int (k * 2 ^ j)" by simp
  then have "round_even (of_int k / (1 / 2 ^ j)) = k * 2 ^ j"
    by (metis round_even_int)
  then show ?thesis using False by (simp add: round_prec_def Let_def flip: e_def) (simp add: u)
qed (simp add: round_prec_def)

lemma bf_Float64_int:
  assumes "\<bar>k\<bar> < 2 ^ 53" and "bf_val x = of_int k"
  shows "bf_Float64 x = of_int k"
proof (cases "\<bar>bf_val x\<bar> < 2 powi (- 1022)")
  case True
  have "(2 :: rat) powi (- 1022) \<le> 2 powi 0" by (intro power_int_increasing) auto
  with True assms(2) have "\<bar>of_int k :: rat\<bar> < 1" by simp
  then have "\<bar>k\<bar> < 1" by (metis of_int_abs of_int_1_less_iff linorder_not_le of_int_1_le_iff)
  then have "k = 0" by simp
  then show ?thesis using assms(2) by (simp add: bf_Float64_def round_even_def)
next
  case False
  then show ?thesis using round_prec_int [OF assms(1)] by (simp add: bf_Float64_def assms(2))
qed

end
