(* ===== verification/Fees.thy ===== *)
theory Fees
  imports Big_Float Tx_Meta
begin

text \<open>
  The rollup fee (\<open>l2geth/rollup/fees/rollup_fee.go\<close>) and the cache of the gas price oracle it is
  computed from (\<open>l2geth/eth/gasprice/rollup_gasprice.go\<close>). The RLP encoding of a transaction is
  the parameter \<open>enc\<close>; \<open>ov\<close> is the implementation's conversion of an out-of-range float.
\<close>

section \<open>The state that fees are read from\<close>

type_synonym hash = "256 word"

type_synonym StateDB = "address \<Rightarrow> hash \<Rightarrow> hash"

definition hash_Big :: "hash \<Rightarrow> int" where
  "hash_Big h = uint h"

definition L2GasPriceOracleOwnerSlot :: hash where "L2GasPriceOracleOwnerSlot = 0"
definition L2GasPriceSlot :: hash where "L2GasPriceSlot = 1"
definition L1GasPriceSlot :: hash where "L1GasPriceSlot = 2"
definition OverheadSlot :: hash where "OverheadSlot = 3"
definition ScalarSlot :: hash where "ScalarSlot = 4"
definition DecimalsSlot :: hash where "DecimalsSlot = 5"
definition IsBurningSlot :: hash where "IsBurningSlot = 6"
definition ChargeSlot :: hash where "ChargeSlot = 7"
definition SccAddressSlot :: hash where "SccAddressSlot = 8"
definition DaGasPriceSlot :: hash where "DaGasPriceSlot = 9"
definition DaSwitchSlot :: hash where "DaSwitchSlot = 10"

definition L2GasPriceOracleAddress :: address where
  "L2GasPriceOracleAddress = 0x42 # replicate 18 0 @ [0x0F]"

section \<open>Fee arithmetic\<close>

definition errMissingInput :: goerr where "errMissingInput = Sentinel ''errMissingInput''"
definition ErrGasPriceTooLow :: goerr where "ErrGasPriceTooLow = Sentinel ''ErrGasPriceTooLow''"
definition ErrGasPriceTooHigh :: goerr where "ErrGasPriceTooHigh = Sentinel ''ErrGasPriceTooHigh''"
definition errTransactionSigned :: goerr where "errTransactionSigned = Sentinel ''errTransactionSigned''"

definition zeroesAndOnes :: "byte list \<Rightarrow> u64 \<times> u64" where
  "zeroesAndOnes data = foldl (\<lambda>(zeroes, ones) byt. if byt = 0 then (zeroes + 1, ones) else (zeroes, ones + 1)) (0, 0) data"

definition mulByFloat :: "(rat \<Rightarrow> u64) \<Rightarrow> int \<Rightarrow> bigfloat \<Rightarrow> int" where
  "mulByFloat ov num float =
     (let n = bf_SetUint64 (big_Uint64 num);
          product = bf_Mul n float;
          pfloat = bf_Float64 product;
          rounded = \<lceil>pfloat\<rceil>
      in uint (u64_of_float ov rounded))"

definition ScaleDecimals :: "int \<Rightarrow> int \<Rightarrow> bigfloat" where
  "ScaleDecimals scalar decimals =
     (let divisor = (if decimals \<le> 0 then 1 else 10 ^ nat decimals) in bf_Quo (bf_of_int scalar) (bf_of_int divisor))"

definition CalculateL1GasUsed :: "byte list \<Rightarrow> int \<Rightarrow> int \<Rightarrow> int" where
  "CalculateL1GasUsed data overhead daSwitch =
     (if daSwitch = 1 then overhead
      else let (zeroes, ones) = zeroesAndOnes data;
               zeroesGas = zeroes * 4;
               onesGas = (ones + 68) * 16
           in uint (zeroesGas + onesGas) + overhead)"

definition CalculateL1Fee :: "(rat \<Rightarrow> u64) \<Rightarrow> byte list \<Rightarrow> int \<Rightarrow> int \<Rightarrow> bigfloat \<Rightarrow> int \<Rightarrow> int" where
  "CalculateL1Fee ov data overhead l1GasPrice scalar daSwitch =
     mulByFloat ov (CalculateL1GasUsed data overhead daSwitch * l1GasPrice) scalar"

definition CalculateDAGasUsed :: "byte list \<Rightarrow> int" where
  "CalculateDAGasUsed data = int (length data)"

definition CalculateDAFee :: "byte list \<Rightarrow> int \<Rightarrow> int" where
  "CalculateDAFee data daGasPrice = CalculateDAGasUsed data * daGasPrice"

definition rlpEncode :: "(Transaction \<Rightarrow> byte list res) \<Rightarrow> Transaction \<Rightarrow> byte list res" where
  "rlpEncode enc tx = bindR (enc tx) (\<lambda>b.
     if tx_V tx \<noteq> 0 \<or> tx_R tx \<noteq> 0 \<or> tx_S tx \<noteq> 0 then Fail errTransactionSigned
     else if length b < 3 then Panic ''slice bounds out of range''
     else Ok (take (length b - 3) b))"

definition copyTransaction :: "Transaction \<Rightarrow> Transaction" where
  "copyTransaction tx = (case tx_Recipient tx of
       None \<Rightarrow> NewContractCreation (tx_AccountNonce tx) (Some (tx_Amount tx)) (tx_GasLimit tx) (Some (tx_Price tx)) (tx_Payload tx)
     | Some to \<Rightarrow> NewTransaction (tx_AccountNonce tx) to (Some (tx_Amount tx)) (tx_GasLimit tx) (Some (tx_Price tx)) (tx_Payload tx))"

text \<open>The interface \<open>fees.Message\<close>.\<close>

record FeeMessage =
  fm_From :: address
  fm_To :: "address option"
  fm_GasPrice :: int
  fm_Gas :: u64
  fm_Value :: int
  fm_Nonce :: u64
  fm_Data :: "byte list"

definition asTransaction :: "FeeMessage \<Rightarrow> Transaction" where
  "asTransaction msg = (case fm_To msg of
       None \<Rightarrow> NewContractCreation (fm_Nonce msg) (Some (fm_Value msg)) (fm_Gas msg) (Some (fm_GasPrice msg)) (fm_Data msg)
     | Some to \<Rightarrow> NewTransaction (fm_Nonce msg) to (Some (fm_Value msg)) (fm_Gas msg) (Some (fm_GasPrice msg)) (fm_Data msg))"

definition readGPOStorageSlots :: "address \<Rightarrow> StateDB \<Rightarrow> int \<times> int \<times> bigfloat" where
  "readGPOStorageSlots addr state =
     (hash_Big (state addr L1GasPriceSlot), hash_Big (state addr OverheadSlot),
      ScaleDecimals (hash_Big (state addr ScalarSlot)) (hash_Big (state addr DecimalsSlot)))"

definition orOracle :: "address option \<Rightarrow> address" where
  "orOracle gpo = (case gpo of None \<Rightarrow> L2GasPriceOracleAddress | Some a \<Rightarrow> a)"

definition CalculateL1MsgFee :: "(rat \<Rightarrow> u64) \<Rightarrow> (Transaction \<Rightarrow> byte list res) \<Rightarrow> FeeMessage \<Rightarrow> StateDB
    \<Rightarrow> address option \<Rightarrow> int res" where
  "CalculateL1MsgFee ov enc msg state gpo = bindR (rlpEncode enc (asTransaction msg)) (\<lambda>raw.
     let (l1GasPrice, overhead, scalar) = readGPOStorageSlots (orOracle gpo) state;
         daSwitch = hash_Big (state (orOracle gpo) DaSwitchSlot)
     in Ok (CalculateL1Fee ov raw overhead l1GasPrice scalar daSwitch))"

definition CalculateDAMsgFee :: "(Transaction \<Rightarrow> byte list res) \<Rightarrow> FeeMessage \<Rightarrow> StateDB \<Rightarrow> address option \<Rightarrow> int res" where
  "CalculateDAMsgFee enc msg state gpo = bindR (rlpEncode enc (asTransaction msg)) (\<lambda>raw.
     Ok (CalculateDAFee raw (hash_Big (state (orOracle gpo) DaGasPriceSlot))))"

definition CalculateTotalMsgFee :: "(rat \<Rightarrow> u64) \<Rightarrow> (Transaction \<Rightarrow> byte list res) \<Rightarrow> FeeMessage \<Rightarrow> StateDB
    \<Rightarrow> int \<Rightarrow> address option \<Rightarrow> int res" where
  "CalculateTotalMsgFee ov enc msg state gasUsed gpo = bindR (CalculateL1MsgFee ov enc msg state gpo) (\<lambda>l1Fee.
     let fee = l1Fee + fm_GasPrice msg * gasUsed in
     if hash_Big (state (orOracle gpo) DaSwitchSlot) = 1
     then bindR (CalculateDAMsgFee enc msg state gpo) (\<lambda>daFee. Ok (fee + daFee))
     else Ok fee)"

definition DeriveL1GasInfo :: "(rat \<Rightarrow> u64) \<Rightarrow> (Transaction \<Rightarrow> byte list res) \<Rightarrow> FeeMessage \<Rightarrow> StateDB
    \<Rightarrow> (int \<times> int \<times> int \<times> bigfloat) res" where
  "DeriveL1GasInfo ov enc msg state = bindR (rlpEncode enc (asTransaction msg)) (\<lambda>raw.
     let (l1GasPrice, overhead, scalar) = readGPOStorageSlots L2GasPriceOracleAddress state;
         daSwitch = hash_Big (state L2GasPriceOracleAddress DaSwitchSlot);
         l1GasUsed = CalculateL1GasUsed raw overhead daSwitch;
         l1Fee = CalculateL1Fee ov raw overhead l1GasPrice scalar daSwitch
     in Ok (l1Fee, l1GasPrice, l1GasUsed, scalar))"

definition DeriveDAGasInfo :: "(Transaction \<Rightarrow> byte list res) \<Rightarrow> FeeMessage \<Rightarrow> StateDB \<Rightarrow> (int \<times> int \<times> int) res" where
  "DeriveDAGasInfo enc msg state = bindR (rlpEncode enc (asTransaction msg)) (\<lambda>raw.
     let daGasPrice = hash_Big (state L2GasPriceOracleAddress DaGasPriceSlot)
     in Ok (CalculateDAFee raw daGasPrice, daGasPrice, CalculateDAGasUsed raw))"

section \<open>The cached oracle\<close>

text \<open>\<open>NewRollupOracle\<close> sets every number except \<open>daGasPrice\<close> and \<open>daSwitch\<close>, which stay nil.\<close>

record RollupOracle =
  o_l1GasPrice :: int
  o_l2GasPrice :: int
  o_daGasPrice :: "int option"
  o_overhead :: int
  o_scalar :: bigfloat
  o_isBurning :: int
  o_charge :: int
  o_daSwitch :: "int option"
  o_sccAddress :: address

definition NewRollupOracle :: RollupOracle where
  "NewRollupOracle = \<lparr>o_l1GasPrice = 0, o_l2GasPrice = 0, o_daGasPrice = None, o_overhead = 0,
     o_scalar = \<lparr>bf_prec = 0, bf_val = 0\<rparr>, o_isBurning = 0, o_charge = 0, o_daSwitch = None, o_sccAddress = zeroAddress\<rparr>"

definition SetL1GasPrice :: "int \<Rightarrow> RollupOracle \<Rightarrow> RollupOracle" where
  "SetL1GasPrice gasPrice gpo = gpo\<lparr>o_l1GasPrice := gasPrice\<rparr>"

definition SetL2GasPrice :: "int \<Rightarrow> RollupOracle \<Rightarrow> RollupOracle" where
  "SetL2GasPrice gasPrice gpo = gpo\<lparr>o_l2GasPrice := gasPrice\<rparr>"

definition SetDAGasPrice :: "int \<Rightarrow> RollupOracle \<Rightarrow> RollupOracle" where
  "SetDAGasPrice daGasPrice gpo = gpo\<lparr>o_daGasPrice := Some daGasPrice\<rparr>"

definition SetOverhead :: "int \<Rightarrow> RollupOracle \<Rightarrow> RollupOracle" where
  "SetOverhead overhead gpo = gpo\<lparr>o_overhead := overhead\<rparr>"

definition SetScalar :: "int \<Rightarrow> int \<Rightarrow> RollupOracle \<Rightarrow> RollupOracle" where
  "SetScalar scalar decimals gpo = gpo\<lparr>o_scalar := ScaleDecimals scalar decimals\<rparr>"

definition SetIsBurning :: "int \<Rightarrow> RollupOracle \<Rightarrow> RollupOracle" where
  "SetIsBurning isBurning gpo = gpo\<lparr>o_isBurning := isBurning\<rparr>"

definition SetCharge :: "int \<Rightarrow> RollupOracle \<Rightarrow> RollupOracle" where
  "SetCharge charge gpo = gpo\<lparr>o_charge := charge\<rparr>"

definition SetDASwitch :: "int \<Rightarrow> RollupOracle \<Rightarrow> RollupOracle" where
  "SetDASwitch daSwitch gpo = gpo\<lparr>o_daSwitch := Some daSwitch\<rparr>"

definition SetSCCAddress :: "address \<Rightarrow> RollupOracle \<Rightarrow> RollupOracle" where
  "SetSCCAddress sccAddress gpo = gpo\<lparr>o_sccAddress := sccAddress\<rparr>"

lemmas oracle_setters = SetL1GasPrice_def SetL2GasPrice_def SetDAGasPrice_def SetOverhead_def SetScalar_def
  SetIsBurning_def SetCharge_def SetDASwitch_def SetSCCAddress_def

definition CalculateTotalFee :: "(rat \<Rightarrow> u64) \<Rightarrow> (Transaction \<Rightarrow> byte list res) \<Rightarrow> Transaction \<Rightarrow> RollupOracle \<Rightarrow> int res" where
  "CalculateTotalFee ov enc tx gpo =
     (let l1GasPrice = o_l1GasPrice gpo; overhead = o_overhead gpo; scalar = o_scalar gpo;
          unsigned = copyTransaction tx in
      bindR (rlpEncode enc unsigned) (\<lambda>raw.
      bindR (derefR (o_daSwitch gpo)) (\<lambda>daSwitch.
      let l1Fee = CalculateL1Fee ov raw overhead l1GasPrice scalar daSwitch;
          l2Fee = tx_Price tx * uint (tx_GasLimit tx);
          fee = l1Fee + l2Fee in
      if daSwitch = 1
      then bindR (derefR (o_daGasPrice gpo)) (\<lambda>daGasPrice. Ok (fee + CalculateDAFee raw daGasPrice))
      else Ok fee)))"

section \<open>Whether a transaction pays enough\<close>

record PaysEnoughOpts =
  pe_UserGasPrice :: "int option"
  pe_ExpectedGasPrice :: "int option"
  pe_ThresholdUp :: "bigfloat option"
  pe_ThresholdDown :: "bigfloat option"

definition PaysEnough :: "(rat \<Rightarrow> u64) \<Rightarrow> PaysEnoughOpts \<Rightarrow> unit res" where
  "PaysEnough ov opts = (case pe_UserGasPrice opts of
       None \<Rightarrow> Fail (ErrWrap ''no user fee'' errMissingInput)
     | Some user \<Rightarrow> (case pe_ExpectedGasPrice opts of
         None \<Rightarrow> Fail (ErrWrap ''no expected fee'' errMissingInput)
       | Some expected \<Rightarrow>
           let fee = (case pe_ThresholdDown opts of None \<Rightarrow> expected | Some f \<Rightarrow> mulByFloat ov expected f) in
           if user < fee then Fail ErrGasPriceTooLow
           else (case pe_ThresholdUp opts of
               None \<Rightarrow> Ok ()
             | Some f \<Rightarrow> if mulByFloat ov expected f < user then Fail ErrGasPriceTooHigh else Ok ())))"

section \<open>What the fee routines compute\<close>

lemma zeroesAndOnes_counts:
  "zeroesAndOnes data = (of_nat (length (filter (\<lambda>b. b = 0) data)), of_nat (length (filter (\<lambda>b. b \<noteq> 0) data)))"
proof -
  have "foldl (\<lambda>(zeroes, ones) byt. if byt = 0 then (zeroes + 1, ones) else (zeroes, ones + 1)) (z, n) data =
    (z + of_nat (length (filter (\<lambda>b. b = 0) data)), n + of_nat (length (filter (\<lambda>b. b \<noteq> 0) data)))" for z n :: u64
    by (induction data arbitrary: z n) (simp_all add: ac_simps)
  then show ?thesis by (simp add: zeroesAndOnes_def)
qed

lemma big_Uint64_uint_of: "0 \<le> n \<Longrightarrow> n < 2 ^ 64 \<Longrightarrow> uint (big_Uint64 n) = n"
proof -
  assume n: "0 \<le> n" "n < 2 ^ 64"
  then have "big_Uint64 n = of_int n" by (simp add: big_Uint64_def of_nat_nat)
  then show "uint (big_Uint64 n) = n" using uint_of_int_u64 [OF n] by simp
qed

lemma mulByFloat_int:
  assumes "0 \<le> n" and "n < 2 ^ 64" and "0 \<le> k" and "n * k < 2 ^ 53"
  shows "mulByFloat ov n (bf_of_int k) = n * k"
proof -
  have nk: "\<bar>n * k\<bar> < 2 ^ 53" using assms by simp
  then have nk64: "\<bar>n * k\<bar> < 2 ^ 64" by simp
  have "bf_val (bf_Mul (bf_SetUint64 (big_Uint64 n)) (bf_of_int k)) = round_prec 64 (of_int (n * k))"
    using assms by (simp add: bf_Mul_def bf_SetUint64_def bf_of_int_def big_Uint64_uint_of)
  also have "\<dots> = of_int (n * k)" by (rule round_prec_int [OF nk64])
  finally have "bf_Float64 (bf_Mul (bf_SetUint64 (big_Uint64 n)) (bf_of_int k)) = of_int (n * k)"
    using bf_Float64_int [OF nk] by blast
  then have "mulByFloat ov n (bf_of_int k) = uint (u64_of_float ov (n * k))"
    unfolding mulByFloat_def Let_def by (simp only: ceiling_of_int)
  also have "\<dots> = n * k"
    unfolding u64_of_float_def using assms nk64 uint_of_int_u64 [of "n * k"] by (simp del: of_int_mult)
  finally show ?thesis .
qed

lemma two_roundings:
  assumes "1 \<le> (x :: rat)"
  defines "y \<equiv> round_prec 53 (round_prec 64 x)"
  shows "x * (1 - 1 / 2 ^ 52) \<le> y" and "y \<le> x * (1 + 1 / 2 ^ 52)" and "1 / 2 \<le> round_prec 64 x"
proof -
  define r where "r = round_prec 64 x"
  have "\<bar>r - x\<bar> \<le> x / 2 ^ 64" using round_prec_error [of 64 x] assms(1) by (simp add: r_def)
  then have r: "x - x / 2 ^ 64 \<le> r" "r \<le> x + x / 2 ^ 64" by linarith+
  then have "1 / 2 \<le> r" using assms(1) by simp
  then show "1 / 2 \<le> round_prec 64 x" by (simp add: r_def)
  have "\<bar>y - r\<bar> \<le> r / 2 ^ 53" using round_prec_error [of 53 r] \<open>1 / 2 \<le> r\<close> by (simp add: y_def r_def)
  then have y: "r - r / 2 ^ 53 \<le> y" "y \<le> r + r / 2 ^ 53" by linarith+
  show "x * (1 - 1 / 2 ^ 52) \<le> y" using r y assms(1) by (simp add: field_simps)
  show "y \<le> x * (1 + 1 / 2 ^ 52)" using r y assms(1) by (simp add: field_simps)
qed

subsection \<open>Properties\<close>



text \<open>with a lower threshold of 1 and an upper threshold of \<open>k\<close>, \<open>PaysEnough\<close> accepts exactly the
  gas prices from the expected one up to \<open>k\<close> times it, and names the reason otherwise, as long
  as the products are below \<open>2^53\<close>.\<close>

theorem pays_enough_window:
  assumes "0 \<le> e" and "e < 2 ^ 53" and "0 \<le> k" and "e * k < 2 ^ 53"
  shows "PaysEnough ov \<lparr>pe_UserGasPrice = Some u, pe_ExpectedGasPrice = Some e,
      pe_ThresholdUp = Some (bf_of_int k), pe_ThresholdDown = Some (bf_of_int 1)\<rparr> =
    (if u < e then Fail ErrGasPriceTooLow else if e * k < u then Fail ErrGasPriceTooHigh else Ok ())"
  using assms mulByFloat_int [of e 1 ov] mulByFloat_int [of e k ov] by (simp add: PaysEnough_def)

theorem pays_enough_window_witness:
  "PaysEnough (\<lambda>_. 0) \<lparr>pe_UserGasPrice = Some 7, pe_ExpectedGasPrice = Some 5,
     pe_ThresholdUp = Some (bf_of_int 4000), pe_ThresholdDown = Some (bf_of_int 1)\<rparr> = Ok ()"
  using pays_enough_window [of 5 4000 "\<lambda>_. 0" 7] by simp

text \<open>the L1 gas of a transaction is its call data cost, four per zero byte and sixteen per other
  byte, plus 68 bytes for the signature, plus the overhead; with the DA switch on it is the
  overhead alone.\<close>

theorem l1_gas_used:
  assumes "length data < 2 ^ 59"
  shows "CalculateL1GasUsed data overhead daSwitch =
    (if daSwitch = 1 then overhead
     else 4 * int (length (filter (\<lambda>b. b = 0) data)) + 16 * (int (length (filter (\<lambda>b. b \<noteq> 0) data)) + 68) + overhead)"
proof -
  let ?z = "length (filter (\<lambda>b. b = 0) data)" and ?o = "length (filter (\<lambda>b. b \<noteq> 0) data)"
  have "?z + ?o = length data" by (simp add: sum_length_filter_compl)
  then have "int ?z + int ?o < 2 ^ 59" using assms by (simp flip: of_nat_add)
  then have lt: "4 * int ?z + 16 * (int ?o + 68) < 2 ^ 64" by simp
  have "(of_nat ?z * 4 + (of_nat ?o + 68) * 16 :: u64) = of_int (4 * int ?z + 16 * (int ?o + 68))"
    by (simp add: algebra_simps)
  then have "uint (of_nat ?z * 4 + (of_nat ?o + 68) * 16 :: u64) = 4 * int ?z + 16 * (int ?o + 68)"
    using uint_of_int_u64 [OF _ lt] by (simp only:) simp
  then show ?thesis by (simp add: CalculateL1GasUsed_def zeroesAndOnes_counts)
qed

theorem l1_gas_used_witness: "CalculateL1GasUsed [0, 1, 2] 10 0 = 4 + 16 * 70 + 10"
  using l1_gas_used [of "[0, 1, 2]" 10 0] by simp

text \<open>C32: the L1 fee is computed from the low 64 bits of gas times price: what does not fit is
  dropped before the scalar is applied.\<close>

theorem l1_fee_wraps:
  assumes "0 \<le> CalculateL1GasUsed data overhead daSwitch * l1GasPrice"
  shows "CalculateL1Fee ov data overhead l1GasPrice scalar daSwitch =
    mulByFloat ov (CalculateL1GasUsed data overhead daSwitch * l1GasPrice mod 2 ^ 64) scalar"
proof -
  have "uint (big_Uint64 n) = n mod 2 ^ 64" if "0 \<le> n" for n
    using that by (simp only: big_Uint64_def abs_of_nonneg of_nat_nat uint_word_of_int_eq) (simp add: take_bit_eq_mod)
  then have "big_Uint64 (n mod 2 ^ 64) = big_Uint64 n" if "0 \<le> n" for n
    using that by (simp add: word_uint_eq_iff)
  then show ?thesis using assms by (simp add: CalculateL1Fee_def mulByFloat_def)
qed

theorem l1_fee_wraps_witness:
  "CalculateL1Fee (\<lambda>_. 0) [] (2 ^ 64 + 5) 1 (bf_of_int 2) 1 = mulByFloat (\<lambda>_. 0) 5 (bf_of_int 2)"
  using l1_fee_wraps [of "[]" "2 ^ 64 + 5" 1 1 "\<lambda>_. 0" "bf_of_int 2"] by (simp add: CalculateL1GasUsed_def)

text \<open>A cache that holds what the oracle contract stores, and a message that carries a transaction.\<close>

definition oracle_synced :: "RollupOracle \<Rightarrow> StateDB \<Rightarrow> bool" where
  "oracle_synced gpo state \<longleftrightarrow> (let s = (\<lambda>slot. hash_Big (state L2GasPriceOracleAddress slot)) in
     o_l1GasPrice gpo = s L1GasPriceSlot \<and> o_l2GasPrice gpo = s L2GasPriceSlot \<and> o_overhead gpo = s OverheadSlot \<and>
     o_scalar gpo = ScaleDecimals (s ScalarSlot) (s DecimalsSlot) \<and> o_isBurning gpo = s IsBurningSlot \<and>
     o_charge gpo = s ChargeSlot \<and> o_daSwitch gpo = Some (s DaSwitchSlot) \<and> o_daGasPrice gpo = Some (s DaGasPriceSlot))"

definition message_of :: "address \<Rightarrow> Transaction \<Rightarrow> FeeMessage" where
  "message_of sndr tx = \<lparr>fm_From = sndr, fm_To = tx_Recipient tx, fm_GasPrice = tx_Price tx, fm_Gas = tx_GasLimit tx,
     fm_Value = tx_Amount tx, fm_Nonce = tx_AccountNonce tx, fm_Data = tx_Payload tx\<rparr>"

lemma asTransaction_message: "asTransaction (message_of sndr tx) = copyTransaction tx"
  by (simp add: asTransaction_def copyTransaction_def message_of_def cong: option.case_cong)

lemma message_price: "fm_GasPrice (message_of sndr tx) = tx_Price tx"
  by (simp add: message_of_def)

lemma total_fee_message:
  assumes "oracle_synced gpo state"
  shows "CalculateTotalFee ov enc tx gpo =
    CalculateTotalMsgFee ov enc (message_of sndr tx) state (uint (tx_GasLimit tx)) None"
proof (cases "rlpEncode enc (copyTransaction tx)")
  case (Ok raw)
  with assms show ?thesis
    by (simp add: CalculateTotalFee_def CalculateTotalMsgFee_def CalculateL1MsgFee_def CalculateDAMsgFee_def
        asTransaction_message oracle_synced_def readGPOStorageSlots_def orOracle_def Let_def message_price)
qed (simp_all add: CalculateTotalFee_def CalculateTotalMsgFee_def CalculateL1MsgFee_def asTransaction_message Let_def)

text \<open>the fee that is checked when a transaction is admitted is the fee charged when it is executed
  with all of its gas: \<open>CalculateTotalFee\<close> on a cache in sync with the oracle contract equals
  \<open>CalculateTotalMsgFee\<close> on the message of the transaction, errors included.\<close>

theorem fee_admission_execution:
  assumes "oracle_synced gpo state"
  shows "CalculateTotalFee ov enc tx gpo =
    CalculateTotalMsgFee ov enc (message_of sndr tx) state (uint (tx_GasLimit tx)) None"
  by (rule total_fee_message [OF assms])

definition sample_oracle :: RollupOracle where
  "sample_oracle = SetDASwitch 0 (SetDAGasPrice 0 (SetScalar 0 0 NewRollupOracle))"

theorem fee_admission_execution_witness:
  "CalculateTotalFee (\<lambda>_. 0) (\<lambda>_. Ok [1, 2, 3, 4]) (NewTransaction 0 zeroAddress (Some 1) 21000 (Some 2) []) sample_oracle =
   CalculateTotalMsgFee (\<lambda>_. 0) (\<lambda>_. Ok [1, 2, 3, 4])
     (message_of zeroAddress (NewTransaction 0 zeroAddress (Some 1) 21000 (Some 2) [])) (\<lambda>_ _. 0)
     (uint (tx_GasLimit (NewTransaction 0 zeroAddress (Some 1) 21000 (Some 2) []))) None"
  by (rule fee_admission_execution)
    (simp add: oracle_synced_def sample_oracle_def oracle_setters NewRollupOracle_def hash_Big_def)

text \<open>before the cache is first filled, a fee cannot be computed: on a fresh oracle, whose DA switch
  is nil, \<open>CalculateTotalFee\<close> panics for every transaction that can be encoded.\<close>

theorem fresh_oracle_panics:
  assumes "enc (copyTransaction tx) = Ok b" and "3 \<le> length b"
  shows "\<exists>m. CalculateTotalFee ov enc tx NewRollupOracle = Panic m"
proof -
  have "rlpEncode enc (copyTransaction tx) = Ok (take (length b - 3) b)"
    using assms by (simp add: rlpEncode_def copyTransaction_def NewContractCreation_def NewTransaction_def
        newTransaction_def split: option.split)
  then show ?thesis by (simp add: CalculateTotalFee_def NewRollupOracle_def Let_def)
qed

theorem fresh_oracle_panics_witness:
  "\<exists>m. CalculateTotalFee (\<lambda>_. 0) (\<lambda>_. Ok [1, 2, 3]) (NewTransaction 0 zeroAddress None 0 None []) NewRollupOracle = Panic m"
  by (rule fresh_oracle_panics [where b = "[1, 2, 3]"]) simp_all

end
