(* ===== verification/Sync_State.thy ===== *)
theory Sync_State
  imports Rollup_Index Rollup_Client Fees
begin

text \<open>
  The sync service of l2geth (\<open>l2geth/rollup/sync_service.go\<close>), first part: its state, what it
  calls outside itself, the accessors of the rollup indices and of the L1 context, and the cache
  of the gas price oracle.

  The block chain, the miner, the transaction pool, the executor, the remote clients and the
  clock are outside: computations on a world \<open>'w\<close>, collected in the record \<open>outside\<close>. Locks are
  not modelled, an operation runs without interference.
\<close>

section \<open>State\<close>

record 'w SyncService =
  s_enable :: bool
  s_verifier :: bool
  s_mpcVerifier :: bool
  s_db :: memdb
  s_RollupGpo :: RollupOracle
  s_dtlEigenEnable :: bool
  s_l1MsgSender :: string
  s_syncing :: "bool option"
  s_blockNumber :: u64
  s_timestamp :: u64
  s_timestampRefreshThreshold :: int
  s_backend :: Backend
  s_gasPriceOracleOwnerAddress :: address
  s_enforceFees :: bool
  s_feeThresholdUp :: "bigfloat option"
  s_feeThresholdDown :: "bigfloat option"
  s_extra :: "byte list"
  s_world :: 'w

section \<open>The outside\<close>

record Block =
  blk_Number :: int
  blk_Transactions :: "Transaction list"

record statedb =
  sd_GetState :: StateDB
  sd_GetBalance :: "address \<Rightarrow> int"

text \<open>\<open>message.Data\<close>, the arguments of \<open>relayMessage\<close>.\<close>

record MessageData =
  md_Target :: address
  md_Sender :: address
  md_Message :: "byte list"
  md_MessageNonce :: int

text \<open>
  \<open>x_mine tx\<close> is sending the transaction to the miner and waiting: an error when the miner
  answers on the error channel, success when the chain has a new head. \<open>x_applyTx\<close> gives the state
  root, as a string, of the block that the executor builds. The unpack functions are the ABI
  decoder on the bytes after the selector.
\<close>

record 'w outside =
  c_GetEnqueue :: "u64 \<Rightarrow> ('w, Transaction) sm"
  c_GetLatestEnqueueIndex :: "('w, u64 option) sm"
  c_GetRawTransaction :: "u64 \<Rightarrow> Backend \<Rightarrow> ('w, TransactionResponse) sm"
  c_GetTransaction :: "u64 \<Rightarrow> Backend \<Rightarrow> ('w, Transaction) sm"
  c_GetLatestTransactionIndex :: "Backend \<Rightarrow> ('w, u64 option) sm"
  c_GetStateRoot :: "u64 \<Rightarrow> Backend \<Rightarrow> ('w, StateRoot) sm"
  c_GetTxStatusResponse :: "u64 \<Rightarrow> Backend \<Rightarrow> ('w, string option) sm"
  c_GetEthContext :: "u64 \<Rightarrow> ('w, EthContext) sm"
  c_GetLatestEthContext :: "('w, EthContext) sm"
  c_GetLastConfirmedEnqueue :: "('w, Transaction) sm"
  c_GetLatestTransactionBatchIndex :: "('w, u64 option) sm"
  c_GetTransactionBatch :: "u64 \<Rightarrow> ('w, Batch \<times> Transaction list) sm"
  c_SyncStatus :: "Backend \<Rightarrow> ('w, SyncStatus) sm"
  e_GetLatestTransactionBatchIndex :: "('w, u64 option) sm"
  e_GetRollupStoreByRollupBatchIndex :: "int \<Rightarrow> ('w, 32 word) sm"
  e_GetBatchTransactionByDataStoreId :: "32 word \<Rightarrow> string \<Rightarrow> ('w, Transaction list) sm"
  d_GetDtlLatestBatchIndex :: "('w, u64 option) sm"
  d_GetDtlRollupStoreByBatchIndex :: "int \<Rightarrow> ('w, 32 word \<times> 32 word) sm"
  d_GetDtlBatchTransactionByDataStoreId :: "32 word \<Rightarrow> ('w, Transaction list) sm"
  x_CurrentBlock :: "('w, Block option) sm"
  x_GetBlockByNumber :: "u64 \<Rightarrow> ('w, Block option) sm"
  x_SetHead :: "u64 \<Rightarrow> ('w, unit) sm"
  x_State :: "('w, statedb) sm"
  x_StateAt :: "hash \<Rightarrow> ('w, statedb) sm"
  x_mine :: "Transaction \<Rightarrow> ('w, unit) sm"
  x_ValidateTx :: "Transaction \<Rightarrow> ('w, unit) sm"
  x_applyTx :: "Transaction \<Rightarrow> ('w, string) sm"
  x_Now :: "'w \<Rightarrow> int \<times> 'w"
  x_Sender :: "Transaction \<Rightarrow> address res"
  x_Hash :: "Transaction \<Rightarrow> hash"
  x_EncodeRLP :: "Transaction \<Rightarrow> byte list res"
  x_overflow :: "rat \<Rightarrow> u64"
  x_UnpackRelay :: "byte list \<Rightarrow> MessageData res"
  x_UnpackRollback :: "byte list \<Rightarrow> int res"

type_synonym ('w, 'a) svc = "('w SyncService, 'a) sm"

definition ext :: "('w, 'a) sm \<Rightarrow> ('w, 'a) svc" where
  "ext m s = (case m (s_world s) of (r, w) \<Rightarrow> (r, s\<lparr>s_world := w\<rparr>))"

definition onDb :: "(memdb, 'a) sm \<Rightarrow> ('w, 'a) svc" where
  "onDb m s = (case m (s_db s) of (r, d) \<Rightarrow> (r, s\<lparr>s_db := d\<rparr>))"

text \<open>The client of \<open>client.go\<close> as the service sees it.\<close>

definition http_client :: "signers \<Rightarrow> int \<Rightarrow> 'w server \<Rightarrow> nat \<Rightarrow> 'w outside \<Rightarrow> 'w outside" where
  "http_client sigvals chainID srv fuel env = env\<lparr>c_GetEnqueue := GetEnqueue srv,
     c_GetLatestEnqueueIndex := GetLatestEnqueueIndex srv, c_GetRawTransaction := GetRawTransaction srv,
     c_GetTransaction := GetTransaction sigvals chainID srv,
     c_GetLatestTransactionIndex := GetLatestTransactionIndex sigvals chainID srv,
     c_GetStateRoot := GetStateRoot srv, c_GetEthContext := GetEthContext srv,
     c_GetLatestEthContext := GetLatestEthContext srv, c_GetLastConfirmedEnqueue := GetLastConfirmedEnqueue srv fuel,
     c_GetLatestTransactionBatchIndex := GetLatestTransactionBatchIndex sigvals chainID srv,
     c_GetTransactionBatch := GetTransactionBatch sigvals chainID srv, c_SyncStatus := GetSyncStatus srv\<rparr>"

section \<open>Indices and L1 context\<close>

definition GetLatestL1Timestamp :: "'w SyncService \<Rightarrow> u64" where
  "GetLatestL1Timestamp s = s_timestamp s"

definition GetLatestL1BlockNumber :: "'w SyncService \<Rightarrow> u64" where
  "GetLatestL1BlockNumber s = s_blockNumber s"

definition SetLatestL1Timestamp :: "u64 \<Rightarrow> ('w, unit) svc" where
  "SetLatestL1Timestamp ts = modM (\<lambda>s. s\<lparr>s_timestamp := ts\<rparr>)"

definition SetLatestL1BlockNumber :: "u64 \<Rightarrow> ('w, unit) svc" where
  "SetLatestL1BlockNumber bn = modM (\<lambda>s. s\<lparr>s_blockNumber := bn\<rparr>)"

definition SvcLatestEnqueueIndex :: "'w SyncService \<Rightarrow> u64 option" where
  "SvcLatestEnqueueIndex s = ReadHeadQueueIndex (s_db s)"

definition GetNextEnqueueIndex :: "'w SyncService \<Rightarrow> u64" where
  "GetNextEnqueueIndex s = (case SvcLatestEnqueueIndex s of None \<Rightarrow> 0 | Some latest \<Rightarrow> latest + 1)"

definition SetLatestEnqueueIndex :: "u64 option \<Rightarrow> ('w, unit) svc" where
  "SetLatestEnqueueIndex index = (case index of None \<Rightarrow> retM () | Some i \<Rightarrow> onDb (WriteHeadQueueIndex i))"

definition GetLatestIndex :: "'w SyncService \<Rightarrow> u64 option" where
  "GetLatestIndex s = ReadHeadIndex (s_db s)"

definition GetNextIndex :: "'w SyncService \<Rightarrow> u64" where
  "GetNextIndex s = (case GetLatestIndex s of None \<Rightarrow> 0 | Some latest \<Rightarrow> latest + 1)"

definition SetLatestIndex :: "u64 option \<Rightarrow> ('w, unit) svc" where
  "SetLatestIndex index = (case index of None \<Rightarrow> retM () | Some i \<Rightarrow> onDb (WriteHeadIndex i))"

definition GetLatestVerifiedIndex :: "'w SyncService \<Rightarrow> u64 option" where
  "GetLatestVerifiedIndex s = ReadHeadVerifiedIndex (s_db s)"

definition GetNextVerifiedIndex :: "'w SyncService \<Rightarrow> u64" where
  "GetNextVerifiedIndex s = (case GetLatestVerifiedIndex s of None \<Rightarrow> 0 | Some index \<Rightarrow> index + 1)"

definition SetLatestVerifiedIndex :: "u64 option \<Rightarrow> ('w, unit) svc" where
  "SetLatestVerifiedIndex index = (case index of None \<Rightarrow> retM () | Some i \<Rightarrow> onDb (WriteHeadVerifiedIndex i))"

definition GetLatestBatchIndex :: "'w SyncService \<Rightarrow> u64 option" where
  "GetLatestBatchIndex s = ReadHeadBatchIndex (s_db s)"

definition GetNextBatchIndex :: "'w SyncService \<Rightarrow> u64" where
  "GetNextBatchIndex s = (case GetLatestBatchIndex s of None \<Rightarrow> 0 | Some index \<Rightarrow> index + 1)"

definition SetLatestBatchIndex :: "u64 option \<Rightarrow> ('w, unit) svc" where
  "SetLatestBatchIndex index = (case index of None \<Rightarrow> retM () | Some i \<Rightarrow> onDb (WriteHeadBatchIndex i))"

definition GetEigenNextBatchIndex :: "'w SyncService \<Rightarrow> u64" where
  "GetEigenNextBatchIndex s = (case ReadEigenBatchIndex (s_db s) of None \<Rightarrow> 0 | Some index \<Rightarrow> index + 1)"

definition GetLatestEigenBatchIndex :: "'w SyncService \<Rightarrow> u64 option" where
  "GetLatestEigenBatchIndex s = ReadLatestEigenBatchIndex (s_db s)"

definition SetLatestEigenBatchIndex :: "u64 option \<Rightarrow> ('w, unit) svc" where
  "SetLatestEigenBatchIndex index = (case index of None \<Rightarrow> retM () | Some i \<Rightarrow> onDb (WriteLatestEigenIndex i))"

definition setSyncStatus :: "bool \<Rightarrow> ('w, unit) svc" where
  "setSyncStatus status = modM (\<lambda>s. s\<lparr>s_syncing := Some status\<rparr>)"

definition IsSyncing :: "'w SyncService \<Rightarrow> bool" where
  "IsSyncing s = (case s_syncing s of None \<Rightarrow> False | Some val \<Rightarrow> val)"

section \<open>The cache of the gas price oracle\<close>

definition BytesToAddress :: "byte list \<Rightarrow> address" where
  "BytesToAddress b = (let b = drop (length b - 20) b in replicate (20 - length b) 0 @ b)"

definition BigToAddress :: "int \<Rightarrow> address" where
  "BigToAddress n = BytesToAddress (big_bytes (nat \<bar>n\<bar>))"

definition readGPOStorageSlot :: "'w outside \<Rightarrow> statedb option \<Rightarrow> hash \<Rightarrow> ('w, int) svc" where
  "readGPOStorageSlot env sd slot =
     bindM (case sd of None \<Rightarrow> ext (x_State env) | Some d \<Rightarrow> retM d)
       (\<lambda>d. retM (hash_Big (sd_GetState d L2GasPriceOracleAddress slot)))"

definition onGpo :: "(RollupOracle \<Rightarrow> RollupOracle) \<Rightarrow> ('w, unit) svc" where
  "onGpo f = modM (\<lambda>s. s\<lparr>s_RollupGpo := f (s_RollupGpo s)\<rparr>)"

definition updateL1GasPrice :: "'w outside \<Rightarrow> statedb option \<Rightarrow> ('w, unit) svc" where
  "updateL1GasPrice env sd = bindM (readGPOStorageSlot env sd L1GasPriceSlot) (\<lambda>v. onGpo (SetL1GasPrice v))"

definition updateL2GasPrice :: "'w outside \<Rightarrow> statedb option \<Rightarrow> ('w, unit) svc" where
  "updateL2GasPrice env sd = bindM (readGPOStorageSlot env sd L2GasPriceSlot) (\<lambda>v. onGpo (SetL2GasPrice v))"

definition updateDAGasPrice :: "'w outside \<Rightarrow> statedb option \<Rightarrow> ('w, unit) svc" where
  "updateDAGasPrice env sd = bindM (readGPOStorageSlot env sd DaGasPriceSlot) (\<lambda>v. onGpo (SetDAGasPrice v))"

definition updateOverhead :: "'w outside \<Rightarrow> statedb option \<Rightarrow> ('w, unit) svc" where
  "updateOverhead env sd = bindM (readGPOStorageSlot env sd OverheadSlot) (\<lambda>v. onGpo (SetOverhead v))"

definition updateScalar :: "'w outside \<Rightarrow> statedb option \<Rightarrow> ('w, unit) svc" where
  "updateScalar env sd = bindM (readGPOStorageSlot env sd ScalarSlot) (\<lambda>scalar.
     bindM (readGPOStorageSlot env sd DecimalsSlot) (\<lambda>decimals. onGpo (SetScalar scalar decimals)))"

definition updateIsBurning :: "'w outside \<Rightarrow> statedb option \<Rightarrow> ('w, unit) svc" where
  "updateIsBurning env sd = bindM (readGPOStorageSlot env sd IsBurningSlot) (\<lambda>v. onGpo (SetIsBurning v))"

definition updateCharge :: "'w outside \<Rightarrow> statedb option \<Rightarrow> ('w, unit) svc" where
  "updateCharge env sd = bindM (readGPOStorageSlot env sd ChargeSlot) (\<lambda>v. onGpo (SetCharge v))"

definition updateDASwitch :: "'w outside \<Rightarrow> statedb option \<Rightarrow> ('w, unit) svc" where
  "updateDASwitch env sd = bindM (readGPOStorageSlot env sd DaSwitchSlot) (\<lambda>v. onGpo (SetDASwitch v))"

definition updateSCCAddress :: "'w outside \<Rightarrow> statedb option \<Rightarrow> ('w, unit) svc" where
  "updateSCCAddress env sd = bindM (readGPOStorageSlot env sd SccAddressSlot) (\<lambda>scc. onGpo (SetSCCAddress (BigToAddress scc)))"

definition cacheGasPriceOracleOwner :: "'w outside \<Rightarrow> statedb option \<Rightarrow> ('w, unit) svc" where
  "cacheGasPriceOracleOwner env sd = bindM (readGPOStorageSlot env sd L2GasPriceOracleOwnerSlot)
     (\<lambda>v. modM (\<lambda>s. s\<lparr>s_gasPriceOracleOwnerAddress := BigToAddress v\<rparr>))"

definition updateGasPriceOracleCache :: "'w outside \<Rightarrow> hash option \<Rightarrow> ('w, unit) svc" where
  "updateGasPriceOracleCache env hash =
     bindM (case hash of Some h \<Rightarrow> ext (x_StateAt env h) | None \<Rightarrow> ext (x_State env)) (\<lambda>d.
     let sd = Some d in
     seqM (cacheGasPriceOracleOwner env sd) (
     seqM (updateL2GasPrice env sd) (
     seqM (updateL1GasPrice env sd) (
     seqM (updateOverhead env sd) (
     seqM (updateScalar env sd) (
     seqM (updateIsBurning env sd) (
     seqM (updateCharge env sd) (
     seqM (updateSCCAddress env sd) (
     seqM (updateDASwitch env sd) (
     updateDAGasPrice env sd))))))))))"

definition ensureClient :: "'w outside \<Rightarrow> ('w, unit) svc" where
  "ensureClient env = bindM (wrapM ''Cannot connect to data service'' (ext (c_GetLatestEthContext env))) (\<lambda>_. retM ())"

definition updateL1BlockNumber :: "'w outside \<Rightarrow> ('w, unit) svc" where
  "updateL1BlockNumber env =
     bindM (wrapM ''Cannot get eth context'' (ext (c_GetLatestEthContext env))) (\<lambda>context.
     bindM (getsM GetLatestL1BlockNumber) (\<lambda>latest.
     if ec_BlockNumber context > latest then SetLatestL1BlockNumber (ec_BlockNumber context) else retM ()))"

section \<open>What the building blocks change\<close>

text \<open>The part of the state that decides what is processed next: the stored indices and the L1 context.\<close>

definition core :: "'w SyncService \<Rightarrow> memdb \<times> u64 \<times> u64" where
  "core s = (s_db s, s_blockNumber s, s_timestamp s)"

definition onCore :: "(memdb \<times> u64 \<times> u64 \<Rightarrow> bool) \<Rightarrow> 'w SyncService \<Rightarrow> bool" where
  "onCore P s = P (core s)"

lemma keeps_ext [keeps_intros]: "keeps (onCore P) (ext m)"
  by (auto simp: keeps_def onCore_def core_def ext_def case_prod_unfold)

lemma keeps_onGpo [keeps_intros]: "keeps (onCore P) (onGpo f)"
  by (auto simp: keeps_def onCore_def core_def onGpo_def modM_def)

lemma keeps_owner [keeps_intros]: "keeps (onCore P) (modM (\<lambda>s. s\<lparr>s_gasPriceOracleOwnerAddress := a\<rparr>))"
  by (auto simp: keeps_def onCore_def core_def modM_def)

lemma keeps_readGPO [keeps_intros]: "keeps (onCore P) (readGPOStorageSlot env sd slot)"
  unfolding readGPOStorageSlot_def by (intro keeps_intros)

lemma keeps_updates [keeps_intros]:
  "keeps (onCore P) (updateL1GasPrice env sd)" "keeps (onCore P) (updateL2GasPrice env sd)"
  "keeps (onCore P) (updateDAGasPrice env sd)" "keeps (onCore P) (updateOverhead env sd)"
  "keeps (onCore P) (updateScalar env sd)" "keeps (onCore P) (updateIsBurning env sd)"
  "keeps (onCore P) (updateCharge env sd)" "keeps (onCore P) (updateDASwitch env sd)"
  "keeps (onCore P) (updateSCCAddress env sd)" "keeps (onCore P) (cacheGasPriceOracleOwner env sd)"
  unfolding updateL1GasPrice_def updateL2GasPrice_def updateDAGasPrice_def updateOverhead_def updateScalar_def
    updateIsBurning_def updateCharge_def updateDASwitch_def updateSCCAddress_def cacheGasPriceOracleOwner_def
  by (intro keeps_intros)+

lemma keeps_updateCache [keeps_intros]: "keeps (onCore P) (updateGasPriceOracleCache env hash)"
  unfolding updateGasPriceOracleCache_def Let_def by (intro keeps_intros)

lemma core_ext [simp]: "core (snd (ext m s)) = core s"
  by (simp add: core_def ext_def case_prod_unfold)

lemma core_updateCache: "core (snd (updateGasPriceOracleCache env hash s)) = core s"
  using keepsD [OF keeps_updateCache [of "\<lambda>c. c = core s" env hash], of s] by (simp add: onCore_def)

text \<open>Observations that depend on the core only.\<close>

lemma core_obs:
  "core s = core t \<Longrightarrow> s_blockNumber s = s_blockNumber t" "core s = core t \<Longrightarrow> s_timestamp s = s_timestamp t"
  "core s = core t \<Longrightarrow> GetLatestIndex s = GetLatestIndex t" "core s = core t \<Longrightarrow> SvcLatestEnqueueIndex s = SvcLatestEnqueueIndex t"
  "core s = core t \<Longrightarrow> GetLatestVerifiedIndex s = GetLatestVerifiedIndex t"
  "core s = core t \<Longrightarrow> GetLatestBatchIndex s = GetLatestBatchIndex t"
  "core s = core t \<Longrightarrow> GetLatestEigenBatchIndex s = GetLatestEigenBatchIndex t"
  by (simp_all add: core_def GetLatestIndex_def SvcLatestEnqueueIndex_def GetLatestVerifiedIndex_def
      GetLatestBatchIndex_def GetLatestEigenBatchIndex_def)

subsection \<open>Writing an index\<close>

lemma onDb_simps [simp]:
  "s_blockNumber (snd (onDb m s)) = s_blockNumber s" "s_timestamp (snd (onDb m s)) = s_timestamp s"
  "s_db (snd (onDb m s)) = snd (m (s_db s))" "fst (onDb m s) = fst (m (s_db s))"
  "s_world (snd (onDb m s)) = s_world s"
  by (simp_all add: onDb_def case_prod_unfold)

context index_slot
begin

lemma onDb_wr:
  assumes "onDb (wr i) s = (Ok (), s')"
  shows "rd (s_db s') = Some i" and "s_db s' = snd (wr i (s_db s))"
    and "s_blockNumber s' = s_blockNumber s" and "s_timestamp s' = s_timestamp s" and "s_world s' = s_world s"
  using assms wr_cases [of i "s_db s"] by (auto simp: onDb_def case_prod_unfold)

end

lemmas index_obs = GetLatestIndex_def SvcLatestEnqueueIndex_def GetLatestVerifiedIndex_def GetLatestBatchIndex_def
  GetLatestEigenBatchIndex_def

lemma setIndex_Ok:
  assumes "SetLatestIndex (Some i) s = (Ok (), s')"
  shows "GetLatestIndex s' = Some i" and "SvcLatestEnqueueIndex s' = SvcLatestEnqueueIndex s"
    and "GetLatestVerifiedIndex s' = GetLatestVerifiedIndex s" and "GetLatestBatchIndex s' = GetLatestBatchIndex s"
    and "GetLatestEigenBatchIndex s' = GetLatestEigenBatchIndex s"
    and "s_blockNumber s' = s_blockNumber s" and "s_timestamp s' = s_timestamp s"
  using head.onDb_wr [of i s s'] assms by (simp_all add: SetLatestIndex_def index_obs)

lemma setEnqueue_Some_Ok:
  assumes "SetLatestEnqueueIndex (Some i) s = (Ok (), s')"
  shows "SvcLatestEnqueueIndex s' = Some i" and "GetLatestIndex s' = GetLatestIndex s"
    and "GetLatestVerifiedIndex s' = GetLatestVerifiedIndex s" and "GetLatestBatchIndex s' = GetLatestBatchIndex s"
    and "GetLatestEigenBatchIndex s' = GetLatestEigenBatchIndex s"
    and "s_blockNumber s' = s_blockNumber s" and "s_timestamp s' = s_timestamp s"
  using queue.onDb_wr [of i s s'] assms by (simp_all add: SetLatestEnqueueIndex_def index_obs)

lemma setEnqueue_Ok:
  assumes "SetLatestEnqueueIndex q s = (Ok (), s')"
  shows "SvcLatestEnqueueIndex s' = (case q of None \<Rightarrow> SvcLatestEnqueueIndex s | Some i \<Rightarrow> Some i) \<and>
    GetLatestIndex s' = GetLatestIndex s \<and> GetLatestVerifiedIndex s' = GetLatestVerifiedIndex s \<and>
    GetLatestBatchIndex s' = GetLatestBatchIndex s \<and> GetLatestEigenBatchIndex s' = GetLatestEigenBatchIndex s \<and>
    s_blockNumber s' = s_blockNumber s \<and> s_timestamp s' = s_timestamp s"
proof (cases q)
  case None
  with assms have "s' = s" by (simp add: SetLatestEnqueueIndex_def retM_def)
  with None show ?thesis by simp
next
  case (Some i)
  with assms have "SetLatestEnqueueIndex (Some i) s = (Ok (), s')" by simp
  from setEnqueue_Some_Ok [OF this] Some show ?thesis by simp
qed

lemma setVerified_Ok:
  assumes "SetLatestVerifiedIndex (Some i) s = (Ok (), s')"
  shows "GetLatestVerifiedIndex s' = Some i" and "GetLatestIndex s' = GetLatestIndex s"
    and "SvcLatestEnqueueIndex s' = SvcLatestEnqueueIndex s" and "GetLatestBatchIndex s' = GetLatestBatchIndex s"
    and "s_blockNumber s' = s_blockNumber s" and "s_timestamp s' = s_timestamp s"
  using verified.onDb_wr [of i s s'] assms by (simp_all add: SetLatestVerifiedIndex_def index_obs)

lemma setBatch_Ok:
  assumes "SetLatestBatchIndex (Some i) s = (Ok (), s')"
  shows "GetLatestBatchIndex s' = Some i" and "GetLatestIndex s' = GetLatestIndex s"
    and "GetLatestVerifiedIndex s' = GetLatestVerifiedIndex s" and "SvcLatestEnqueueIndex s' = SvcLatestEnqueueIndex s"
    and "s_blockNumber s' = s_blockNumber s" and "s_timestamp s' = s_timestamp s"
  using headbatch.onDb_wr [of i s s'] assms by (simp_all add: SetLatestBatchIndex_def index_obs)

end
