(* ===== verification/Sync_Apply.thy ===== *)
theory Sync_Apply
  imports Sync_State
begin

text \<open>
  The sync service, second part: applying transactions. A transaction is applied to the tip of the
  chain, or compared with the block it is in when its index is already processed; batched
  transactions also advance the verified index; a relayed rollback message rewinds the chain and
  replays it; transactions of users are checked for their fee first.
\<close>

section \<open>Comparing transactions\<close>

definition isCtcTxEqual :: "Transaction \<Rightarrow> Transaction \<Rightarrow> bool" where
  "isCtcTxEqual a b =
     (let to_ok = (case (tx_Recipient a, tx_Recipient b) of
            (None, Some t) \<Rightarrow> t = zeroAddress
          | (Some t, None) \<Rightarrow> False
          | (Some t, Some u) \<Rightarrow> t = u
          | (None, None) \<Rightarrow> True);
          sender_ok = (case (L1MessageSender a, L1MessageSender b) of
            (None, Some t) \<Rightarrow> False
          | (Some t, None) \<Rightarrow> False
          | (Some t, Some u) \<Rightarrow> t = u
          | (None, None) \<Rightarrow> True)
      in to_ok \<and> tx_Payload a = tx_Payload b \<and> sender_ok \<and> tx_GasLimit a = tx_GasLimit b)"

section \<open>Applying to the tip\<close>

text \<open>Durations are nanoseconds; \<open>Time.Sub\<close> saturates at the range of \<open>int64\<close>.\<close>

definition second :: int where
  "second = 1000000000"

definition sat64 :: "int \<Rightarrow> int" where
  "sat64 d = max (- (2 ^ 63)) (min (2 ^ 63 - 1) d)"

definition time_Now :: "'w outside \<Rightarrow> ('w, int) sm" where
  "time_Now env w = (case x_Now env w of (n, w') \<Rightarrow> (Ok n, w'))"

definition stampTimestamp :: "'w outside \<Rightarrow> u64 \<Rightarrow> Transaction \<Rightarrow> ('w, Transaction) svc" where
  "stampTimestamp env ts tx =
     bindM (getsM s_verifier) (\<lambda>verifier.
     let shouldMalleateTimestamp = (\<not> verifier \<and> tx_QueueOrigin tx = QueueOriginL1ToL2 \<and> m_Index (tx_meta tx) = None) in
     if L1Timestamp tx = 0 \<or> shouldMalleateTimestamp then
       bindM (ext (time_Now env)) (\<lambda>now.
       bindM (getsM s_timestampRefreshThreshold) (\<lambda>threshold.
       let current = (if sat64 (now - sint ts * second) > threshold then now else sint ts * second)
       in retM (SetL1Timestamp (of_int (current div second)) tx)))
     else retM tx)"

definition stampBlockNumber :: "u64 \<Rightarrow> Transaction \<Rightarrow> ('w, Transaction) svc" where
  "stampBlockNumber bn tx = (case L1BlockNumber tx of
       None \<Rightarrow> retM (SetL1BlockNumber bn tx)
     | Some n \<Rightarrow>
         if big_Uint64 n > bn then seqM (SetLatestL1BlockNumber (big_Uint64 n)) (retM tx)
         else retM tx)"

definition stampIndex :: "u64 option \<Rightarrow> Transaction \<Rightarrow> Transaction" where
  "stampIndex index tx = (if m_Index (tx_meta tx) = None
     then (case index of None \<Rightarrow> SetIndex 0 tx | Some i \<Rightarrow> SetIndex (i + 1) tx) else tx)"

definition restoreContext :: "u64 \<Rightarrow> u64 \<Rightarrow> u64 option \<Rightarrow> ('w, unit) svc" where
  "restoreContext ts bn index =
     seqM (SetLatestL1Timestamp ts) (seqM (SetLatestL1BlockNumber bn) (SetLatestIndex index))"

definition senderOf :: "'w outside \<Rightarrow> Transaction \<Rightarrow> address" where
  "senderOf env tx = (case x_Sender env tx of Ok a \<Rightarrow> a | _ \<Rightarrow> zeroAddress)"

definition mineTx :: "'w outside \<Rightarrow> u64 \<Rightarrow> u64 \<Rightarrow> u64 option \<Rightarrow> Transaction \<Rightarrow> ('w, unit) svc" where
  "mineTx env ts bn index tx =
     bindM (attemptM (ext (x_mine env tx))) (\<lambda>r. case r of
         Inl err \<Rightarrow> seqM (restoreContext ts bn index) (failM err)
       | Inr _ \<Rightarrow>
           bindM (getsM s_gasPriceOracleOwnerAddress) (\<lambda>owner.
           if senderOf env tx = owner then
             bindM (attemptM (updateGasPriceOracleCache env None)) (\<lambda>r. case r of
                 Inl err \<Rightarrow> seqM (restoreContext ts bn index) (failM err)
               | Inr _ \<Rightarrow> retM ())
           else retM ()))"

definition applyTransactionToTip :: "'w outside \<Rightarrow> Transaction option \<Rightarrow> ('w, unit) svc" where
  "applyTransactionToTip env txp = (case txp of
       None \<Rightarrow> failM (ErrNew ''nil transaction passed to applyTransactionToTip'')
     | Some tx \<Rightarrow>
         if tx_QueueOrigin tx = QueueOriginL1ToL2 \<and> L1Timestamp tx = 0
         then failM (ErrNew ''Queue origin L1 to L2 transaction without a timestamp'')
         else
           bindM (getsM GetLatestL1Timestamp) (\<lambda>ts.
           bindM (getsM GetLatestL1BlockNumber) (\<lambda>bn.
           bindM (stampTimestamp env ts tx) (\<lambda>tx.
           bindM (stampBlockNumber bn tx) (\<lambda>tx.
           seqM (if L1Timestamp tx > ts then SetLatestL1Timestamp (L1Timestamp tx) else retM ()) (
           bindM (getsM GetLatestIndex) (\<lambda>index.
           let tx = stampIndex index tx in
           seqM (SetLatestIndex (m_Index (tx_meta tx))) (
           seqM (SetLatestEnqueueIndex (m_QueueIndex (tx_meta tx))) (
           mineTx env ts bn index tx)))))))))"

section \<open>Indexed and batched transactions\<close>

text \<open>The comparison of a historical transaction with the one in its block (\<open>isCtcTxEqual\<close>) is only
  logged, it does not change the outcome.\<close>

definition applyHistoricalTransaction :: "'w outside \<Rightarrow> Transaction option \<Rightarrow> ('w, unit) svc" where
  "applyHistoricalTransaction env txp = (case txp of
       None \<Rightarrow> failM (ErrNew ''Transaction is nil in applyHistoricalTransaction'')
     | Some tx \<Rightarrow> (case m_Index (tx_meta tx) of
         None \<Rightarrow> failM (ErrNew ''No index is found in applyHistoricalTransaction'')
       | Some index \<Rightarrow>
           bindM (ext (x_GetBlockByNumber env (index + 1))) (\<lambda>b. case b of
               None \<Rightarrow> failM (ErrNew ''Block is not found'')
             | Some block \<Rightarrow>
                 if length (blk_Transactions block) \<noteq> 1 then failM (ErrNew ''More than one transaction found in block'')
                 else retM ())))"

definition applyIndexedTransaction :: "'w outside \<Rightarrow> Transaction option \<Rightarrow> ('w, unit) svc" where
  "applyIndexedTransaction env txp = (case txp of
       None \<Rightarrow> failM (ErrNew ''Transaction is nil in applyIndexedTransaction'')
     | Some tx \<Rightarrow> (case m_Index (tx_meta tx) of
         None \<Rightarrow> failM (ErrNew ''No index found in applyIndexedTransaction'')
       | Some index \<Rightarrow>
           bindM (getsM GetNextIndex) (\<lambda>next.
           if index = next then applyTransactionToTip env (Some tx)
           else if index < next then applyHistoricalTransaction env (Some tx)
           else
             bindM (getsM s_dtlEigenEnable) (\<lambda>dtlEigenEnable.
             seqM (if dtlEigenEnable \<and> index > next then
                     bindM (getsM GetLatestEigenBatchIndex) (\<lambda>latest.
                     bindM (liftR (derefR latest)) (\<lambda>l. SetLatestEigenBatchIndex (Some (l - 1))))
                   else retM ())
               (failM (ErrNew ''Received tx at index when looking for another''))))))"

definition applyBatchedTransaction :: "'w outside \<Rightarrow> Transaction option \<Rightarrow> ('w, unit) svc" where
  "applyBatchedTransaction env txp = (case txp of
       None \<Rightarrow> failM (ErrNew ''nil transaction passed into applyBatchedTransaction'')
     | Some tx \<Rightarrow> (case m_Index (tx_meta tx) of
         None \<Rightarrow> failM (ErrNew ''No index found on transaction'')
       | Some index \<Rightarrow>
           seqM (wrapM ''Cannot apply batched transaction'' (applyIndexedTransaction env (Some tx)))
             (SetLatestVerifiedIndex (Some index))))"

section \<open>Rewinding the chain\<close>

definition SetHead :: "'w outside \<Rightarrow> u64 \<Rightarrow> ('w, unit) svc" where
  "SetHead env number =
     (if number = 0 then failM (ErrNew ''cannot reset to genesis'')
      else
        seqM (ext (x_SetHead env number)) (
        bindM (ext (x_CurrentBlock env)) (\<lambda>b.
        bindM (liftR (derefR b)) (\<lambda>block. case blk_Transactions block of
            [] \<Rightarrow> failM (ErrNew ''no transactions found in block'')
          | tx # _ \<Rightarrow> (case L1BlockNumber tx of
              None \<Rightarrow> failM (ErrNew ''no L1BlockNumber found in transaction'')
            | Some blockNumber \<Rightarrow>
                seqM (SetLatestL1Timestamp (L1Timestamp tx)) (
                seqM (SetLatestL1BlockNumber (big_Uint64 blockNumber)) (
                SetLatestIndex (m_Index (tx_meta tx)))))))))"

definition rollbackTx :: "'w outside \<Rightarrow> u64 \<Rightarrow> ('w, Transaction) svc" where
  "rollbackTx env i =
     bindM (ext (x_GetBlockByNumber env i)) (\<lambda>b.
     bindM (liftR (derefR b)) (\<lambda>block. case blk_Transactions block of
         [] \<Rightarrow> panicM ''index out of range''
       | tx # _ \<Rightarrow>
           if tx_QueueOrigin tx = QueueOriginL1ToL2 then
             bindM (liftR (derefR (m_QueueIndex (tx_meta tx)))) (\<lambda>q.
             bindM (ext (c_GetEnqueue env q)) (\<lambda>enqueueTx.
             if x_Hash env tx \<noteq> x_Hash env enqueueTx then
               bindM (liftR (derefR (m_Index (tx_meta tx)))) (\<lambda>index.
               bindM (liftR (derefR (L1BlockNumber tx))) (\<lambda>bn.
               retM (SetL1Timestamp (L1Timestamp tx) (SetL1BlockNumber (big_Uint64 bn) (SetIndex index enqueueTx)))))
             else retM tx))
           else retM tx))"

fun rollbackTxs :: "'w outside \<Rightarrow> u64 list \<Rightarrow> ('w, Transaction list) svc" where
  "rollbackTxs env [] = retM []"
| "rollbackTxs env (i # is) =
     bindM (rollbackTx env i) (\<lambda>tx. bindM (rollbackTxs env is) (\<lambda>txs. retM (tx # txs)))"

text \<open>\<open>log.Crit\<close> on an error of \<open>m\<close>.\<close>

definition orCrit :: "string \<Rightarrow> ('s, 'a) sm \<Rightarrow> ('s, 'a) sm" where
  "orCrit msg m = bindM (attemptM m) (\<lambda>r. case r of Inl err \<Rightarrow> panicM msg | Inr a \<Rightarrow> retM a)"

definition SchedulerRollback :: "'w outside \<Rightarrow> u64 \<Rightarrow> ('w, unit) svc" where
  "SchedulerRollback env start =
     bindM (ext (x_CurrentBlock env)) (\<lambda>b.
     bindM (liftR (derefR b)) (\<lambda>current.
     let latest = big_Uint64 (blk_Number current) in
     if start > latest then failM (ErrNew ''invalid block number'')
     else
       bindM (rollbackTxs env (u64_range start latest)) (\<lambda>txs.
       seqM (if latest = - 1 then liftR Diverge else retM ()) (
       seqM (orCrit ''rollback setHead failed'' (SetHead env (start - 1))) (
       forM (enumerate 0 txs) (\<lambda>(i, t).
         seqM (orCrit ''rollback applyIndexedTransaction tx'' (applyIndexedTransaction env (Some t))) (
         bindM (ext (x_GetBlockByNumber env (of_nat i + start))) (\<lambda>newBlock.
         bindM (liftR (derefR newBlock)) (\<lambda>_. retM ())))))))))"

section \<open>Applying any transaction\<close>

definition BvmRollbackAddress :: address where
  "BvmRollbackAddress = BytesToAddress (big_bytes 0xDeadDeAddeAddEAddeadDEaDDEAdDeaDDeAD2222)"

definition UnPackData :: "(byte list \<Rightarrow> 'a res) \<Rightarrow> byte list \<Rightarrow> 'a res" where
  "UnPackData unpack bytesData = (if length bytesData < 4 then Fail (ErrNew ''UnPacketData err:invalid bytesData lenght'')
     else unpack (drop 4 bytesData))"

text \<open>A failed unpacking leaves the zero value of \<open>message.Data\<close> and a nil \<open>ShouldRollBack\<close>; both
  errors, and an error of the rollback itself, are only logged.\<close>

definition zeroMessage :: MessageData where
  "zeroMessage = \<lparr>md_Target = zeroAddress, md_Sender = zeroAddress, md_Message = [], md_MessageNonce = 0\<rparr>"

definition handleRollback :: "'w outside \<Rightarrow> Transaction \<Rightarrow> ('w, unit) svc" where
  "handleRollback env tx =
     (let raw = (case m_RawTransaction (tx_meta tx) of None \<Rightarrow> [] | Some r \<Rightarrow> r) in
      bindM (attemptM (liftR (UnPackData (x_UnpackRelay env) raw))) (\<lambda>r.
      let data = (case r of Inl err \<Rightarrow> zeroMessage | Inr d \<Rightarrow> d) in
      bindM (getsM (\<lambda>s. o_sccAddress (s_RollupGpo s))) (\<lambda>sccAddress.
      if sccAddress = zeroAddress then panicM ''sccAddr is zeroAddr''
      else if md_Target data = BvmRollbackAddress \<and> md_Sender data = sccAddress then
        bindM (attemptM (liftR (UnPackData (x_UnpackRollback env) (md_Message data)))) (\<lambda>r. case r of
            Inl err \<Rightarrow> retM ()
          | Inr n \<Rightarrow> bindM (attemptM (SchedulerRollback env (big_Uint64 n))) (\<lambda>_. retM ()))
      else retM ())))"

definition applyTransaction :: "'w outside \<Rightarrow> Transaction option \<Rightarrow> ('w, unit) svc" where
  "applyTransaction env txp =
     bindM (liftR (derefR txp)) (\<lambda>tx.
     seqM (if m_Index (tx_meta tx) = None \<and> tx_QueueOrigin tx = QueueOriginL1ToL2 then handleRollback env tx else retM ())
       (if m_Index (tx_meta tx) \<noteq> None then applyIndexedTransaction env (Some tx)
        else applyTransactionToTip env (Some tx)))"

definition IngestTransaction :: "'w outside \<Rightarrow> Transaction option \<Rightarrow> ('w, unit) svc" where
  "IngestTransaction env txp = applyTransaction env txp"

section \<open>Transactions of users\<close>

definition errZeroGasPriceTx :: goerr where "errZeroGasPriceTx = Sentinel ''errZeroGasPriceTx''"
definition ErrInvalidSender :: goerr where "ErrInvalidSender = Sentinel ''ErrInvalidSender''"
definition ErrInsufficientFunds :: goerr where "ErrInsufficientFunds = Sentinel ''ErrInsufficientFunds''"

definition payError :: "goerr \<Rightarrow> goerr" where
  "payError err =
     (if errors_is err ''ErrGasPriceTooLow'' then ErrWrap ''use at least tx.gasPrice'' ErrGasPriceTooLow
      else if errors_is err ''ErrGasPriceTooHigh'' then ErrWrap ''use at most tx.gasPrice'' ErrGasPriceTooHigh
      else err)"

definition verifyFee :: "'w outside \<Rightarrow> Transaction \<Rightarrow> ('w, unit) svc" where
  "verifyFee env tx =
     bindM (getsM s_RollupGpo) (\<lambda>gpo.
     bindM (wrapM ''invalid transaction'' (liftR (CalculateTotalFee (x_overflow env) (x_EncodeRLP env) tx gpo))) (\<lambda>fee.
     let cost = (if tx_Price tx \<noteq> 0 then tx_Amount tx + fee else tx_Amount tx) in
     bindM (ext (x_State env)) (\<lambda>state.
     bindM (attemptM (liftR (x_Sender env tx))) (\<lambda>r. case r of
         Inl err \<Rightarrow> failM (ErrWrap ''invalid transaction'' ErrInvalidSender)
       | Inr from' \<Rightarrow>
           if sd_GetBalance state from' < cost then failM (ErrWrap ''invalid transaction'' ErrInsufficientFunds)
           else if tx_Price tx = 0 then
             bindM (getsM s_gasPriceOracleOwnerAddress) (\<lambda>gpoOwner.
             if from' = gpoOwner then retM ()
             else bindM (getsM s_enforceFees) (\<lambda>enforceFees. if enforceFees then failM errZeroGasPriceTx else retM ()))
           else
             bindM (getsM (\<lambda>s. \<lparr>pe_UserGasPrice = Some (tx_Price tx), pe_ExpectedGasPrice = Some (o_l2GasPrice gpo),
                 pe_ThresholdUp = s_feeThresholdUp s, pe_ThresholdDown = s_feeThresholdDown s\<rparr>)) (\<lambda>opts.
             bindM (attemptM (liftR (PaysEnough (x_overflow env) opts))) (\<lambda>r. case r of
                 Inl err \<Rightarrow> failM (payError err)
               | Inr _ \<Rightarrow> retM ()))))))"

definition ValidateAndApplySequencerTransaction :: "'w outside \<Rightarrow> Transaction option \<Rightarrow> ('w, unit) svc" where
  "ValidateAndApplySequencerTransaction env txp =
     bindM (getsM s_verifier) (\<lambda>verifier.
     if verifier then failM (ErrNew ''Verifier does not accept transactions out of band'')
     else case txp of
       None \<Rightarrow> failM (ErrNew ''nil transaction passed to ValidateAndApplySequencerTransaction'')
     | Some tx \<Rightarrow>
         seqM (verifyFee env tx) (
         if tx_QueueOrigin tx \<noteq> QueueOriginSequencer then failM (ErrNew ''invalid transaction with queue origin'')
         else
           seqM (wrapM ''invalid transaction'' (ext (x_ValidateTx env tx))) (
           applyTransaction env (Some tx))))"

section \<open>The phases of applying to the tip\<close>

lemma stampTimestamp_cases:
  obtains tx1 s1 where "stampTimestamp env ts tx s = (Ok tx1, s1)" and "core s1 = core s"
    and "tx1 = tx \<or> (\<exists>t. tx1 = SetL1Timestamp t tx)"
    and "L1Timestamp tx \<noteq> 0 \<Longrightarrow> s_verifier s \<or> tx_QueueOrigin tx \<noteq> QueueOriginL1ToL2 \<or> m_Index (tx_meta tx) \<noteq> None \<Longrightarrow>
      tx1 = tx"
proof (cases "L1Timestamp tx = 0 \<or> \<not> s_verifier s \<and> tx_QueueOrigin tx = QueueOriginL1ToL2 \<and> m_Index (tx_meta tx) = None")
  case True
  obtain n w where "x_Now env (s_world s) = (n, w)" by fastforce
  then have now: "ext (time_Now env) s = (Ok n, s\<lparr>s_world := w\<rparr>)" by (simp add: ext_def time_Now_def)
  let ?t = "of_int ((if sat64 (n - sint ts * second) > s_timestampRefreshThreshold s then n else sint ts * second) div second)"
  have "stampTimestamp env ts tx s = (Ok (SetL1Timestamp ?t tx), s\<lparr>s_world := w\<rparr>)"
    using True by (simp add: stampTimestamp_def Let_def bindM_simps(1) [of "ext (time_Now env)", OF now] retM_def)
  moreover have "core (s\<lparr>s_world := w\<rparr>) = core s" by (simp add: core_def)
  ultimately show thesis by (rule that) (use True in auto)
next
  case False
  then have "stampTimestamp env ts tx s = (Ok tx, s)" by (auto simp: stampTimestamp_def Let_def retM_def)
  then show thesis by (rule that) simp_all
qed

lemma stampBlockNumber_eq:
  "stampBlockNumber bn tx s =
     (Ok (case L1BlockNumber tx of None \<Rightarrow> SetL1BlockNumber bn tx | Some _ \<Rightarrow> tx),
      s\<lparr>s_blockNumber := (case L1BlockNumber tx of None \<Rightarrow> s_blockNumber s
        | Some n \<Rightarrow> if big_Uint64 n > bn then big_Uint64 n else s_blockNumber s)\<rparr>)"
  by (simp add: stampBlockNumber_def SetLatestL1BlockNumber_def seqM_def res_simps split: option.split)

lemma restoreContext_cases:
  assumes "restoreContext ts bn index s = (r, s')"
  shows "s_timestamp s' = ts \<and> s_blockNumber s' = bn \<and> SvcLatestEnqueueIndex s' = SvcLatestEnqueueIndex s \<and>
    GetLatestVerifiedIndex s' = GetLatestVerifiedIndex s \<and> GetLatestBatchIndex s' = GetLatestBatchIndex s \<and>
    GetLatestEigenBatchIndex s' = GetLatestEigenBatchIndex s"
    and "r = Ok () \<Longrightarrow> GetLatestIndex s' = (case index of None \<Rightarrow> GetLatestIndex s | Some i \<Rightarrow> Some i)"
proof -
  let ?t = "s\<lparr>s_timestamp := ts, s_blockNumber := bn\<rparr>"
  have eq: "SetLatestIndex index ?t = (r, s')"
    using assms by (simp add: restoreContext_def SetLatestL1Timestamp_def SetLatestL1BlockNumber_def)
  have t: "GetLatestIndex ?t = GetLatestIndex s" "SvcLatestEnqueueIndex ?t = SvcLatestEnqueueIndex s"
    "GetLatestVerifiedIndex ?t = GetLatestVerifiedIndex s" "GetLatestBatchIndex ?t = GetLatestBatchIndex s"
    "GetLatestEigenBatchIndex ?t = GetLatestEigenBatchIndex s"
    by (simp_all add: index_obs)
  show "s_timestamp s' = ts \<and> s_blockNumber s' = bn \<and> SvcLatestEnqueueIndex s' = SvcLatestEnqueueIndex s \<and>
    GetLatestVerifiedIndex s' = GetLatestVerifiedIndex s \<and> GetLatestBatchIndex s' = GetLatestBatchIndex s \<and>
    GetLatestEigenBatchIndex s' = GetLatestEigenBatchIndex s"
    using eq by (auto simp: SetLatestIndex_def onDb_def case_prod_unfold index_obs retM_def split: option.splits)
  show "GetLatestIndex s' = (case index of None \<Rightarrow> GetLatestIndex s | Some i \<Rightarrow> Some i)" if "r = Ok ()"
  proof (cases index)
    case None
    with eq t(1) show ?thesis by (auto simp: SetLatestIndex_def retM_def)
  next
    case (Some i)
    with setIndex_Ok(1) [of i ?t s'] eq that show ?thesis by simp
  qed
qed

lemma restore_then_fail:
  "fst (seqM (restoreContext ts bn index) (failM e) s) \<noteq> Ok a"
  "seqM (restoreContext ts bn index) (failM e') s = (Fail e, s') \<Longrightarrow> restoreContext ts bn index s = (Ok (), s')"
proof -
  obtain r t where r: "restoreContext ts bn index s = (r, t)" by fastforce
  have "r \<noteq> Fail e" for e
    using r head.wr_cases [of "the index" "s_db s"]
    by (cases index) (auto simp: restoreContext_def SetLatestL1Timestamp_def SetLatestL1BlockNumber_def SetLatestIndex_def
        onDb_def retM_def)
  with r show "fst (seqM (restoreContext ts bn index) (failM e) s) \<noteq> Ok a"
    "seqM (restoreContext ts bn index) (failM e') s = (Fail e, s') \<Longrightarrow> restoreContext ts bn index s = (Ok (), s')"
    by (cases r; simp add: seqM_def bindM_def failM_def)+
qed

text \<open>The outcomes of waiting for the miner: restored after an error, otherwise the core is kept.\<close>

lemma mineTx_cases:
  obtains (kept) "core (snd (mineTx env ts bn index tx s)) = core s" and "\<forall>e. fst (mineTx env ts bn index tx s) \<noteq> Fail e"
  | (restored) e t where "core t = core s" and "mineTx env ts bn index tx s = seqM (restoreContext ts bn index) (failM e) t"
proof -
  obtain r s1 where m: "ext (x_mine env tx) s = (r, s1)" by fastforce
  then have c1: "core s1 = core s" using core_ext [of "x_mine env tx" s] by simp
  obtain r2 s2 where u: "updateGasPriceOracleCache env None s1 = (r2, s2)" by fastforce
  then have c2: "core s2 = core s" using core_updateCache [of env None s1] c1 by simp
  show thesis
  proof (cases r)
    case (Fail e)
    with m have "mineTx env ts bn index tx s = seqM (restoreContext ts bn index) (failM e) s1"
      by (simp add: mineTx_def bindM_attemptM)
    with c1 show thesis by (rule restored)
  next
    case (Ok a)
    show thesis
    proof (cases "senderOf env tx = s_gasPriceOracleOwnerAddress s1")
      case True
      show thesis
      proof (cases r2)
        case (Fail e)
        with True m Ok u have "mineTx env ts bn index tx s = seqM (restoreContext ts bn index) (failM e) s2"
          by (simp add: mineTx_def bindM_attemptM)
        with c2 show thesis by (rule restored)
      qed (use True m Ok u c2 kept in \<open>simp_all add: mineTx_def bindM_attemptM retM_def\<close>)
    qed (use m Ok c1 kept in \<open>simp add: mineTx_def bindM_attemptM retM_def\<close>)
  qed (use m c1 kept in \<open>simp_all add: mineTx_def bindM_attemptM\<close>)
qed

lemma mineTx_Ok:
  assumes "mineTx env ts bn index tx s = (Ok (), s')"
  shows "core s' = core s"
proof (rule mineTx_cases [of env ts bn index tx s])
  fix e t assume "mineTx env ts bn index tx s = seqM (restoreContext ts bn index) (failM e) t"
  with assms restore_then_fail(1) [of ts bn index e t "()"] show ?thesis by simp
qed (use assms in simp)

lemma mineTx_Fail:
  assumes "mineTx env ts bn index tx s = (Fail e, s')"
  shows "s_timestamp s' = ts \<and> s_blockNumber s' = bn \<and> SvcLatestEnqueueIndex s' = SvcLatestEnqueueIndex s \<and>
    GetLatestVerifiedIndex s' = GetLatestVerifiedIndex s \<and> GetLatestBatchIndex s' = GetLatestBatchIndex s \<and>
    GetLatestIndex s' = (case index of None \<Rightarrow> GetLatestIndex s | Some i \<Rightarrow> Some i)"
proof (rule mineTx_cases [of env ts bn index tx s])
  fix e' t assume t: "core t = core s" and "mineTx env ts bn index tx s = seqM (restoreContext ts bn index) (failM e') t"
  with assms have "restoreContext ts bn index t = (Ok (), s')" using restore_then_fail(2) [of ts bn index e' t e s'] by simp
  then show ?thesis using restoreContext_cases [of ts bn index t "Ok ()" s'] core_obs [OF t] by (simp split: option.split)
qed (use assms in simp)

definition tipGuard :: "Transaction \<Rightarrow> bool" where
  "tipGuard tx \<longleftrightarrow> \<not> (tx_QueueOrigin tx = QueueOriginL1ToL2 \<and> L1Timestamp tx = 0)"

definition tipIndex :: "'w SyncService \<Rightarrow> Transaction \<Rightarrow> u64" where
  "tipIndex s tx = (case m_Index (tx_meta tx) of Some i \<Rightarrow> i | None \<Rightarrow> GetNextIndex s)"

definition tipBlockNumber :: "'w SyncService \<Rightarrow> Transaction \<Rightarrow> u64" where
  "tipBlockNumber s tx = (case L1BlockNumber tx of None \<Rightarrow> s_blockNumber s | Some n \<Rightarrow> max (s_blockNumber s) (big_Uint64 n))"

definition tipEnqueue :: "'w SyncService \<Rightarrow> Transaction \<Rightarrow> u64 option" where
  "tipEnqueue s tx = (case m_QueueIndex (tx_meta tx) of None \<Rightarrow> SvcLatestEnqueueIndex s | Some q \<Rightarrow> Some q)"

text \<open>The transaction is not given a new timestamp.\<close>

definition keepsTimestamp :: "'w SyncService \<Rightarrow> Transaction \<Rightarrow> bool" where
  "keepsTimestamp s tx \<longleftrightarrow> L1Timestamp tx \<noteq> 0 \<and>
     (s_verifier s \<or> tx_QueueOrigin tx \<noteq> QueueOriginL1ToL2 \<or> m_Index (tx_meta tx) \<noteq> None)"

lemma stampIndex_meta:
  "m_Index (tx_meta (stampIndex index tx)) = Some (case m_Index (tx_meta tx) of Some i \<Rightarrow> i
     | None \<Rightarrow> (case index of None \<Rightarrow> 0 | Some i \<Rightarrow> i + 1))"
  "m_QueueIndex (tx_meta (stampIndex index tx)) = m_QueueIndex (tx_meta tx)"
  "L1Timestamp (stampIndex index tx) = L1Timestamp tx" "L1BlockNumber (stampIndex index tx) = L1BlockNumber tx"
  by (auto simp: stampIndex_def tx_access split: option.splits)

lemma SetL1_meta:
  "m_Index (tx_meta (SetL1Timestamp t tx)) = m_Index (tx_meta tx)" "m_QueueIndex (tx_meta (SetL1Timestamp t tx)) = m_QueueIndex (tx_meta tx)"
  "L1BlockNumber (SetL1Timestamp t tx) = L1BlockNumber tx"
  "m_Index (tx_meta (SetL1BlockNumber b tx)) = m_Index (tx_meta tx)" "m_QueueIndex (tx_meta (SetL1BlockNumber b tx)) = m_QueueIndex (tx_meta tx)"
  "L1Timestamp (SetL1BlockNumber b tx) = L1Timestamp tx"
  by (simp_all add: tx_access)

lemma seqM_set_index:
  assumes "seqM (SetLatestIndex index) n s = (r, s')" and "\<forall>p. r \<noteq> Panic p"
  obtains t where "SetLatestIndex index s = (Ok (), t)" and "n t = (r, s')"
  using assms head.wr_cases [of "the index" "s_db s"]
  by (cases index) (auto simp: SetLatestIndex_def seqM_def bindM_def onDb_def retM_def)

lemma seqM_set_enqueue:
  assumes "seqM (SetLatestEnqueueIndex index) n s = (r, s')" and "\<forall>p. r \<noteq> Panic p"
  obtains t where "SetLatestEnqueueIndex index s = (Ok (), t)" and "n t = (r, s')"
  using assms queue.wr_cases [of "the index" "s_db s"]
  by (cases index) (auto simp: SetLatestEnqueueIndex_def seqM_def bindM_def onDb_def retM_def)

text \<open>The stamped transaction \<open>tx'\<close> and the state \<open>t\<close> with its context advanced, before the indices are
  written; then the state when the transaction is handed to the miner.\<close>

definition stamped :: "'w SyncService \<Rightarrow> Transaction \<Rightarrow> Transaction \<Rightarrow> bool" where
  "stamped s tx tx' \<longleftrightarrow>
     m_Index (tx_meta tx') = Some (tipIndex s tx) \<and> m_QueueIndex (tx_meta tx') = m_QueueIndex (tx_meta tx) \<and>
     L1BlockNumber tx' \<noteq> None \<and> (keepsTimestamp s tx \<longrightarrow> L1Timestamp tx' = L1Timestamp tx)"

definition sameIndices :: "'w SyncService \<Rightarrow> 'w SyncService \<Rightarrow> bool" where
  "sameIndices s t \<longleftrightarrow> s_db t = s_db s"

definition advanced :: "'w SyncService \<Rightarrow> Transaction \<Rightarrow> Transaction \<Rightarrow> 'w SyncService \<Rightarrow> bool" where
  "advanced s tx tx' t \<longleftrightarrow> s_timestamp t = max (s_timestamp s) (L1Timestamp tx') \<and> s_blockNumber t = tipBlockNumber s tx"

definition atMiner :: "'w SyncService \<Rightarrow> Transaction \<Rightarrow> Transaction \<Rightarrow> 'w SyncService \<Rightarrow> bool" where
  "atMiner s tx tx' t \<longleftrightarrow> stamped s tx tx' \<and> advanced s tx tx' t \<and>
     GetLatestIndex t = Some (tipIndex s tx) \<and> SvcLatestEnqueueIndex t = tipEnqueue s tx \<and>
     GetLatestVerifiedIndex t = GetLatestVerifiedIndex s \<and> GetLatestBatchIndex t = GetLatestBatchIndex s \<and>
     GetLatestEigenBatchIndex t = GetLatestEigenBatchIndex s"

lemma sameIndices_obs:
  assumes "sameIndices s t"
  shows "GetLatestIndex t = GetLatestIndex s" "SvcLatestEnqueueIndex t = SvcLatestEnqueueIndex s"
    "GetLatestVerifiedIndex t = GetLatestVerifiedIndex s" "GetLatestBatchIndex t = GetLatestBatchIndex s"
    "GetLatestEigenBatchIndex t = GetLatestEigenBatchIndex s"
  using assms by (simp_all add: sameIndices_def index_obs)

lemma tip_steps:
  assumes "tipGuard tx"
  obtains tx' t where "stamped s tx tx'" and "advanced s tx tx' t" and "sameIndices s t"
    and "applyTransactionToTip env (Some tx) s =
      seqM (SetLatestIndex (Some (tipIndex s tx))) (seqM (SetLatestEnqueueIndex (m_QueueIndex (tx_meta tx)))
        (mineTx env (s_timestamp s) (s_blockNumber s) (GetLatestIndex s) tx')) t"
proof -
  obtain tx1 s1 where st: "stampTimestamp env (s_timestamp s) tx s = (Ok tx1, s1)" and c: "core s1 = core s"
    and tx1: "tx1 = tx \<or> (\<exists>t. tx1 = SetL1Timestamp t tx)" and keep: "keepsTimestamp s tx \<Longrightarrow> tx1 = tx"
    by (rule stampTimestamp_cases [of env "s_timestamp s" tx s]) (auto simp: keepsTimestamp_def)
  define tx2 where "tx2 = (case L1BlockNumber tx1 of None \<Rightarrow> SetL1BlockNumber (s_blockNumber s) tx1 | Some _ \<Rightarrow> tx1)"
  define s2 where "s2 = s1\<lparr>s_blockNumber := tipBlockNumber s tx\<rparr>"
  define s3 where "s3 = (if L1Timestamp tx2 > s_timestamp s then s2\<lparr>s_timestamp := L1Timestamp tx2\<rparr> else s2)"
  define tx3 where "tx3 = stampIndex (GetLatestIndex s) tx2"
  have s1: "s_blockNumber s1 = s_blockNumber s" "s_timestamp s1 = s_timestamp s" "s_db s1 = s_db s"
    using c by (simp_all add: core_def)
  have same1: "m_Index (tx_meta tx1) = m_Index (tx_meta tx)" "m_QueueIndex (tx_meta tx1) = m_QueueIndex (tx_meta tx)"
    "L1BlockNumber tx1 = L1BlockNumber tx"
    using tx1 by (auto simp: SetL1_meta)
  have sb: "stampBlockNumber (s_blockNumber s) tx1 s1 = (Ok tx2, s2)"
    by (simp add: stampBlockNumber_eq tx2_def s2_def tipBlockNumber_def s1 same1 max_def split: option.split)
  have stp: "seqM (if L1Timestamp tx2 > s_timestamp s then SetLatestL1Timestamp (L1Timestamp tx2) else retM ()) n s2 = n s3"
    for n :: "('a, unit) svc"
    by (simp add: s3_def SetLatestL1Timestamp_def seqM_def)
  have idx: "m_Index (tx_meta tx3) = Some (tipIndex s tx)" and q: "m_QueueIndex (tx_meta tx3) = m_QueueIndex (tx_meta tx)"
    by (simp_all add: tx3_def stampIndex_meta tx2_def tipIndex_def GetNextIndex_def same1 SetL1_meta split: option.split)
  have ts: "L1Timestamp tx3 = L1Timestamp tx2" "L1Timestamp tx2 = L1Timestamp tx1"
    by (simp_all add: tx3_def stampIndex_meta tx2_def SetL1_meta split: option.split)
  have bl: "L1BlockNumber tx3 \<noteq> None"
    unfolding tx3_def stampIndex_meta by (simp add: tx2_def tx_access split: option.split)
  have same3: "sameIndices s s3" by (simp add: sameIndices_def s3_def s2_def s1)
  show thesis
  proof (rule that)
    show "stamped s tx tx3" using idx q ts bl keep by (simp add: stamped_def)
    show "advanced s tx tx3 s3" using s1 ts by (auto simp: advanced_def s3_def s2_def max_def)
    show "sameIndices s s3" by (rule same3)
    show "applyTransactionToTip env (Some tx) s =
      seqM (SetLatestIndex (Some (tipIndex s tx))) (seqM (SetLatestEnqueueIndex (m_QueueIndex (tx_meta tx)))
        (mineTx env (s_timestamp s) (s_blockNumber s) (GetLatestIndex s) tx3)) s3"
      using assms unfolding applyTransactionToTip_def tipGuard_def
      by (simp add: bindM_simps(1) [of "stampTimestamp env (s_timestamp s) tx", OF st] GetLatestL1Timestamp_def
          GetLatestL1BlockNumber_def bindM_simps(1) [of "stampBlockNumber (s_blockNumber s) tx1", OF sb] stp
          sameIndices_obs(1) [OF same3] Let_def idx q flip: tx3_def) auto
  qed
qed

lemma tip_reaches_miner:
  assumes "applyTransactionToTip env (Some tx) s = (r, s')" and "tipGuard tx" and "\<forall>p. r \<noteq> Panic p"
  obtains tx' t where "atMiner s tx tx' t"
    and "mineTx env (s_timestamp s) (s_blockNumber s) (GetLatestIndex s) tx' t = (r, s')"
proof -
  obtain tx' t where t: "stamped s tx tx'" "advanced s tx tx' t" "sameIndices s t"
    and eq: "applyTransactionToTip env (Some tx) s =
      seqM (SetLatestIndex (Some (tipIndex s tx))) (seqM (SetLatestEnqueueIndex (m_QueueIndex (tx_meta tx)))
        (mineTx env (s_timestamp s) (s_blockNumber s) (GetLatestIndex s) tx')) t"
    by (rule tip_steps [OF assms(2), of s env])
  obtain s4 where s4: "SetLatestIndex (Some (tipIndex s tx)) t = (Ok (), s4)"
    and rest: "seqM (SetLatestEnqueueIndex (m_QueueIndex (tx_meta tx)))
      (mineTx env (s_timestamp s) (s_blockNumber s) (GetLatestIndex s) tx') s4 = (r, s')"
    using assms(1,3) unfolding eq by (rule seqM_set_index)
  obtain s5 where s5: "SetLatestEnqueueIndex (m_QueueIndex (tx_meta tx)) s4 = (Ok (), s5)"
    and mn: "mineTx env (s_timestamp s) (s_blockNumber s) (GetLatestIndex s) tx' s5 = (r, s')"
    using rest assms(3) by (rule seqM_set_enqueue)
  have "atMiner s tx tx' s5"
    using t setIndex_Ok [OF s4] setEnqueue_Ok [OF s5] sameIndices_obs [OF t(3)]
    by (simp add: atMiner_def advanced_def tipEnqueue_def split: option.split)
  then show thesis using mn by (rule that)
qed

section \<open>Properties of applying to the tip\<close>

lemma tip_Ok_guard: "applyTransactionToTip env (Some tx) s = (Ok (), s') \<Longrightarrow> tipGuard tx"
  by (auto simp: applyTransactionToTip_def tipGuard_def failM_def)

lemma tip_Ok_effect:
  assumes "applyTransactionToTip env (Some tx) s = (Ok (), s')"
  shows "GetLatestIndex s' = Some (tipIndex s tx) \<and> SvcLatestEnqueueIndex s' = tipEnqueue s tx \<and>
    s_blockNumber s' = tipBlockNumber s tx \<and> s_timestamp s \<le> s_timestamp s' \<and>
    (keepsTimestamp s tx \<longrightarrow> s_timestamp s' = max (s_timestamp s) (L1Timestamp tx)) \<and>
    GetLatestVerifiedIndex s' = GetLatestVerifiedIndex s \<and> GetLatestBatchIndex s' = GetLatestBatchIndex s \<and>
    GetLatestEigenBatchIndex s' = GetLatestEigenBatchIndex s"
proof -
  obtain tx' t where t: "atMiner s tx tx' t"
    and m: "mineTx env (s_timestamp s) (s_blockNumber s) (GetLatestIndex s) tx' t = (Ok (), s')"
    using tip_reaches_miner [OF assms tip_Ok_guard [OF assms]] by blast
  show ?thesis using t core_obs [OF mineTx_Ok [OF m]] by (auto simp: atMiner_def advanced_def stamped_def)
qed

text \<open>C5: a transaction applied to the tip moves the service forward by exactly that transaction: the
  latest index becomes the transaction's index, or the next free one when it has none, the queue
  index follows a queue transaction, the L1 block number and timestamp become the maximum of old and new and never
  decrease, and the verified, batch and DA batch indices stay.\<close>

theorem tip_applied:
  assumes "applyTransactionToTip env (Some tx) s = (Ok (), s')"
  shows "GetLatestIndex s' = Some (tipIndex s tx) \<and> SvcLatestEnqueueIndex s' = tipEnqueue s tx \<and>
    s_blockNumber s' = tipBlockNumber s tx \<and> s_timestamp s \<le> s_timestamp s' \<and>
    (keepsTimestamp s tx \<longrightarrow> s_timestamp s' = max (s_timestamp s) (L1Timestamp tx)) \<and>
    GetLatestVerifiedIndex s' = GetLatestVerifiedIndex s \<and> GetLatestBatchIndex s' = GetLatestBatchIndex s \<and>
    GetLatestEigenBatchIndex s' = GetLatestEigenBatchIndex s"
  by (rule tip_Ok_effect [OF assms])

definition sample_env :: "unit outside" where
  "sample_env = \<lparr>c_GetEnqueue = (\<lambda>_. failM io_EOF), c_GetLatestEnqueueIndex = failM io_EOF,
     c_GetRawTransaction = (\<lambda>_ _. failM io_EOF), c_GetTransaction = (\<lambda>_ _. failM io_EOF),
     c_GetLatestTransactionIndex = (\<lambda>_. failM io_EOF), c_GetStateRoot = (\<lambda>_ _. failM io_EOF),
     c_GetTxStatusResponse = (\<lambda>_ _. failM io_EOF), c_GetEthContext = (\<lambda>_. failM io_EOF),
     c_GetLatestEthContext = failM io_EOF, c_GetLastConfirmedEnqueue = failM io_EOF,
     c_GetLatestTransactionBatchIndex = failM io_EOF, c_GetTransactionBatch = (\<lambda>_. failM io_EOF),
     c_SyncStatus = (\<lambda>_. failM io_EOF),
     e_GetLatestTransactionBatchIndex = failM io_EOF, e_GetRollupStoreByRollupBatchIndex = (\<lambda>_. failM io_EOF),
     e_GetBatchTransactionByDataStoreId = (\<lambda>_ _. failM io_EOF), d_GetDtlLatestBatchIndex = failM io_EOF,
     d_GetDtlRollupStoreByBatchIndex = (\<lambda>_. failM io_EOF), d_GetDtlBatchTransactionByDataStoreId = (\<lambda>_. failM io_EOF),
     x_CurrentBlock = retM None, x_GetBlockByNumber = (\<lambda>_. retM None), x_SetHead = (\<lambda>_. retM ()),
     x_State = failM io_EOF, x_StateAt = (\<lambda>_. failM io_EOF), x_mine = (\<lambda>_. retM ()), x_ValidateTx = (\<lambda>_. retM ()),
     x_applyTx = (\<lambda>_. failM io_EOF), x_Now = (\<lambda>w. (0, w)), x_Sender = (\<lambda>_. Ok [1]), x_Hash = (\<lambda>_. 0),
     x_EncodeRLP = (\<lambda>_. Ok [1, 2, 3, 4]), x_overflow = (\<lambda>_. 0), x_UnpackRelay = (\<lambda>_. Fail io_EOF),
     x_UnpackRollback = (\<lambda>_. Fail io_EOF)\<rparr>"

definition sample_service :: "unit SyncService" where
  "sample_service = \<lparr>s_enable = True, s_verifier = True, s_mpcVerifier = False, s_db = db_New, s_RollupGpo = NewRollupOracle,
     s_dtlEigenEnable = False, s_l1MsgSender = [], s_syncing = None, s_blockNumber = 5, s_timestamp = 100,
     s_timestampRefreshThreshold = 0, s_backend = BackendL1, s_gasPriceOracleOwnerAddress = zeroAddress, s_enforceFees = True,
     s_feeThresholdUp = None, s_feeThresholdDown = None, s_extra = [], s_world = ()\<rparr>"

definition sample_tx :: Transaction where
  "sample_tx = SetTransactionMeta (Some (NewTransactionMeta (Some 7) 90 None QueueOriginL1ToL2 (Some 0) (Some 3) None))
     (NewTransaction 0 zeroAddress (Some 0) 21000 (Some 0) [])"

lemma sample_tip_ok: "fst (applyTransactionToTip sample_env (Some sample_tx) sample_service) = Ok ()"
  by code_simp

theorem tip_applied_witness:
  "GetLatestIndex (snd (applyTransactionToTip sample_env (Some sample_tx) sample_service)) = Some 0 \<and>
   s_blockNumber (snd (applyTransactionToTip sample_env (Some sample_tx) sample_service)) = 7 \<and>
   s_timestamp (snd (applyTransactionToTip sample_env (Some sample_tx) sample_service)) = 100"
proof -
  have "applyTransactionToTip sample_env (Some sample_tx) sample_service =
    (Ok (), snd (applyTransactionToTip sample_env (Some sample_tx) sample_service))"
    using sample_tip_ok by (metis prod.collapse)
  from tip_applied [OF this] show ?thesis
    by (simp add: tipIndex_def tipBlockNumber_def keepsTimestamp_def sample_tx_def sample_service_def SetTransactionMeta_def
        NewTransactionMeta_def tx_access big_Uint64_def max_def)
qed

lemma tip_Fail_effect:
  assumes "applyTransactionToTip env (Some tx) s = (Fail e, s')" and "tipGuard tx"
  shows "s_timestamp s' = s_timestamp s \<and> s_blockNumber s' = s_blockNumber s \<and>
    GetLatestVerifiedIndex s' = GetLatestVerifiedIndex s \<and> GetLatestBatchIndex s' = GetLatestBatchIndex s \<and>
    GetLatestIndex s' = (case GetLatestIndex s of None \<Rightarrow> Some (tipIndex s tx) | Some i \<Rightarrow> Some i) \<and>
    SvcLatestEnqueueIndex s' = tipEnqueue s tx"
proof -
  obtain tx' t where t: "atMiner s tx tx' t"
    and m: "mineTx env (s_timestamp s) (s_blockNumber s) (GetLatestIndex s) tx' t = (Fail e, s')"
    using tip_reaches_miner [OF assms] by blast
  show ?thesis using t mineTx_Fail [OF m] by (simp add: atMiner_def split: option.splits)
qed

text \<open>C30: when the miner rejects a transaction, the L1 context is exactly restored and nothing counts as
  verified; the latest index is restored too, unless there was none, in which case it stays at the
  rejected transaction's index; the queue index is not restored, so a rejected queue transaction counts as processed.\<close>

theorem tip_rejected:
  assumes "applyTransactionToTip env (Some tx) s = (Fail e, s')" and "tipGuard tx"
  shows "s_timestamp s' = s_timestamp s \<and> s_blockNumber s' = s_blockNumber s \<and>
    GetLatestVerifiedIndex s' = GetLatestVerifiedIndex s \<and> GetLatestBatchIndex s' = GetLatestBatchIndex s \<and>
    GetLatestIndex s' = (case GetLatestIndex s of None \<Rightarrow> Some (tipIndex s tx) | Some i \<Rightarrow> Some i) \<and>
    SvcLatestEnqueueIndex s' = tipEnqueue s tx"
  by (rule tip_Fail_effect [OF assms])

lemma sample_tip_rejected:
  "fst (applyTransactionToTip (sample_env\<lparr>x_mine := \<lambda>_. failM io_EOF\<rparr>) (Some sample_tx) sample_service) = Fail io_EOF"
  by code_simp

theorem tip_rejected_witness:
  "GetLatestIndex (snd (applyTransactionToTip (sample_env\<lparr>x_mine := \<lambda>_. failM io_EOF\<rparr>) (Some sample_tx) sample_service)) = Some 0 \<and>
   SvcLatestEnqueueIndex (snd (applyTransactionToTip (sample_env\<lparr>x_mine := \<lambda>_. failM io_EOF\<rparr>) (Some sample_tx) sample_service)) = Some 3"
proof -
  have "applyTransactionToTip (sample_env\<lparr>x_mine := \<lambda>_. failM io_EOF\<rparr>) (Some sample_tx) sample_service =
    (Fail io_EOF, snd (applyTransactionToTip (sample_env\<lparr>x_mine := \<lambda>_. failM io_EOF\<rparr>) (Some sample_tx) sample_service))"
    using sample_tip_rejected by (metis prod.collapse)
  from tip_rejected [OF this] show ?thesis
    by (simp add: tipGuard_def tipIndex_def tipEnqueue_def sample_tx_def sample_service_def SetTransactionMeta_def
        NewTransactionMeta_def tx_access index_obs db_New_def ReadHeadIndex_def get_data_def db_Get_def)
qed

section \<open>Every outcome of applying a transaction\<close>

text \<open>A bound below which the L1 context does not go, and the values the processed and verified
  indices can take, kept by every step whether it succeeds, fails or panics.\<close>

definition l1_floor :: "u64 \<Rightarrow> u64 \<Rightarrow> 'w SyncService \<Rightarrow> bool" where
  "l1_floor bn ts s \<longleftrightarrow> bn \<le> s_blockNumber s \<and> ts \<le> s_timestamp s"

definition index_one_of :: "u64 option set \<Rightarrow> u64 option \<Rightarrow> 'w SyncService \<Rightarrow> bool" where
  "index_one_of L v s \<longleftrightarrow> GetLatestIndex s \<in> L \<and> GetLatestVerifiedIndex s = v"

lemma l1_floor_core: "l1_floor bn ts = onCore (\<lambda>(_, b, t). bn \<le> b \<and> ts \<le> t)"
  by (simp add: fun_eq_iff l1_floor_def onCore_def core_def)

lemma index_one_of_core: "index_one_of L v = onCore (\<lambda>(d, _, _). ReadHeadIndex d \<in> L \<and> ReadHeadVerifiedIndex d = v)"
  by (simp add: fun_eq_iff index_one_of_def onCore_def core_def index_obs)

lemma keeps_onDb: "(\<And>d b t. P (d, b, t) \<Longrightarrow> P (snd (m d), b, t)) \<Longrightarrow> keeps (onCore P) (onDb m)"
  by (auto simp: keeps_def onCore_def core_def onDb_def case_prod_unfold)

lemma floor_setters [keeps_intros]:
  "keeps (l1_floor bn ts) (SetLatestIndex i)" "keeps (l1_floor bn ts) (SetLatestEnqueueIndex i)"
  "keeps (l1_floor bn ts) (SetLatestVerifiedIndex i)" "keeps (l1_floor bn ts) (SetLatestBatchIndex i)"
  "keeps (l1_floor bn ts) (SetLatestEigenBatchIndex i)"
  unfolding l1_floor_core SetLatestIndex_def SetLatestEnqueueIndex_def SetLatestVerifiedIndex_def SetLatestBatchIndex_def
    SetLatestEigenBatchIndex_def
  by (intro keeps_case_option keeps_basic keeps_onDb; simp)+

lemma floor_ext [keeps_intros]: "keeps (l1_floor bn ts) (ext m)"
  and floor_cache [keeps_intros]: "keeps (l1_floor bn ts) (updateGasPriceOracleCache env h)"
  unfolding l1_floor_core by (rule keeps_ext, rule keeps_updateCache)

lemma floor_raise:
  "ts \<le> t \<Longrightarrow> keeps (l1_floor bn ts) (SetLatestL1Timestamp t)" "bn \<le> b \<Longrightarrow> keeps (l1_floor bn ts) (SetLatestL1BlockNumber b)"
  by (auto simp: keeps_def l1_floor_def SetLatestL1Timestamp_def SetLatestL1BlockNumber_def modM_def)

lemma floor_restore [keeps_intros]: "keeps (l1_floor bn ts) (restoreContext ts bn i)"
  unfolding restoreContext_def by (intro keeps_intros floor_raise order_refl)

lemma floor_mineTx [keeps_intros]: "keeps (l1_floor bn ts) (mineTx env ts bn i tx)"
  unfolding mineTx_def by (intro keeps_intros)

lemma index_set: "Some i \<in> L \<Longrightarrow> keeps (index_one_of L v) (SetLatestIndex (Some i))"
  unfolding index_one_of_core SetLatestIndex_def option.case
proof (rule keeps_onDb)
  fix d b t assume "Some i \<in> L" "case (d, b, t) of (d, _, _) \<Rightarrow> ReadHeadIndex d \<in> L \<and> ReadHeadVerifiedIndex d = v"
  then show "case (snd (WriteHeadIndex i d), b, t) of (d, _, _) \<Rightarrow> ReadHeadIndex d \<in> L \<and> ReadHeadVerifiedIndex d = v"
    using head.wr_cases [of i d] by auto
qed

lemma index_set_opt: "i \<in> L \<Longrightarrow> keeps (index_one_of L v) (SetLatestIndex i)"
proof (cases i)
  case None
  then show ?thesis by (simp add: SetLatestIndex_def keeps_basic)
qed (simp add: index_set)

lemma index_frames [keeps_intros]:
  "keeps (index_one_of L v) (SetLatestEnqueueIndex i)" "keeps (index_one_of L v) (SetLatestBatchIndex i)"
  "keeps (index_one_of L v) (SetLatestEigenBatchIndex i)" "keeps (index_one_of L v) (ext m)"
  "keeps (index_one_of L v) (updateGasPriceOracleCache env h)"
  "keeps (index_one_of L v) (SetLatestL1Timestamp ts)" "keeps (index_one_of L v) (SetLatestL1BlockNumber bn)"
  unfolding index_one_of_core SetLatestEnqueueIndex_def SetLatestBatchIndex_def SetLatestEigenBatchIndex_def
  by ((intro keeps_case_option keeps_basic keeps_onDb keeps_ext keeps_updateCache; simp)+,
      simp_all add: keeps_def onCore_def core_def SetLatestL1Timestamp_def SetLatestL1BlockNumber_def modM_def)

lemma index_mineTx: "i \<in> L \<Longrightarrow> keeps (index_one_of L v) (mineTx env ts bn i tx)"
  unfolding mineTx_def restoreContext_def by (intro keeps_intros index_set_opt)

subsection \<open>The L1 context only moves forward\<close>

definition l1_below :: "'w SyncService \<Rightarrow> 'w SyncService \<Rightarrow> bool" where
  "l1_below s = l1_floor (s_blockNumber s) (s_timestamp s)"

interpretation l1ctx: state_preorder l1_below
  by unfold_locales (auto simp: l1_below_def l1_floor_def)

lemma tip_climbs: "l1ctx.climbs (applyTransactionToTip env txp)"
  unfolding l1ctx.climbs_def
proof
  fix s :: "'a SyncService"
  have refl: "l1_below s s" by (rule l1ctx.below_refl)
  show "l1_below s (snd (applyTransactionToTip env txp s))"
  proof (cases txp)
    case None
    with refl show ?thesis by (simp add: applyTransactionToTip_def failM_def)
  next
    case (Some tx)
    show ?thesis
    proof (cases "tipGuard tx")
      case True
      obtain tx' t where adv: "advanced s tx tx' t" and eq: "applyTransactionToTip env (Some tx) s =
          seqM (SetLatestIndex (Some (tipIndex s tx))) (seqM (SetLatestEnqueueIndex (m_QueueIndex (tx_meta tx)))
            (mineTx env (s_timestamp s) (s_blockNumber s) (GetLatestIndex s) tx')) t"
        by (rule tip_steps [OF True, of s env])
      have "l1_floor (s_blockNumber s) (s_timestamp s) t"
        using adv by (auto simp: l1_floor_def advanced_def tipBlockNumber_def split: option.split)
      then have "l1_floor (s_blockNumber s) (s_timestamp s) (snd (applyTransactionToTip env (Some tx) s))"
        unfolding eq by (rule keepsD [rotated]) (intro keeps_intros)
      with Some show ?thesis by (simp add: l1_below_def)
    qed (use refl Some in \<open>auto simp: applyTransactionToTip_def tipGuard_def failM_def\<close>)
  qed
qed

lemma climbs_service:
  "l1ctx.climbs (ext m)"
  "l1ctx.climbs (SetLatestVerifiedIndex i)" "l1ctx.climbs (SetLatestBatchIndex i)" "l1ctx.climbs (SetLatestEigenBatchIndex i)"
  by (rule l1ctx.keeps_climbs, simp only: l1_below_def, rule floor_ext floor_setters)+

lemmas climbs_rules = climbs_service l1ctx.climbs_basic l1ctx.climbs_wrapM l1ctx.climbs_attemptM l1ctx.climbs_seqM l1ctx.climbs_if
  l1ctx.climbs_option l1ctx.climbs_sum l1ctx.climbs_bindM l1ctx.climbs_forM l1ctx.climbs_rangeM

lemma historical_climbs: "l1ctx.climbs (applyHistoricalTransaction env txp)"
  unfolding applyHistoricalTransaction_def by (intro climbs_rules)

lemma indexed_climbs: "l1ctx.climbs (applyIndexedTransaction env txp)"
  unfolding applyIndexedTransaction_def by (intro climbs_rules tip_climbs historical_climbs)

lemma batched_climbs: "l1ctx.climbs (applyBatchedTransaction env txp)"
  unfolding applyBatchedTransaction_def by (intro climbs_rules indexed_climbs)

subsection \<open>Processed and verified indices\<close>

lemma historical_core: "core (snd (applyHistoricalTransaction env txp s)) = core s"
proof -
  have "keeps (onCore (\<lambda>c. c = core s)) (applyHistoricalTransaction env txp)"
    unfolding applyHistoricalTransaction_def by (intro keeps_intros)
  from keepsD [OF this, of s] show ?thesis by (simp add: onCore_def)
qed

lemma tip_indices:
  "index_one_of {GetLatestIndex s, Some (tipIndex s tx)} (GetLatestVerifiedIndex s) (snd (applyTransactionToTip env (Some tx) s))"
  (is "index_one_of ?L ?v _")
proof (cases "tipGuard tx")
  case True
  obtain tx' t where t: "sameIndices s t" and eq: "applyTransactionToTip env (Some tx) s =
      seqM (SetLatestIndex (Some (tipIndex s tx))) (seqM (SetLatestEnqueueIndex (m_QueueIndex (tx_meta tx)))
        (mineTx env (s_timestamp s) (s_blockNumber s) (GetLatestIndex s) tx')) t"
    by (rule tip_steps [OF True, of s env])
  have "index_one_of ?L ?v t" using sameIndices_obs [OF t] by (simp add: index_one_of_def)
  then show ?thesis
    unfolding eq by (rule keepsD [rotated]) (intro keeps_intros index_set index_mineTx; simp)
next
  case False
  then show ?thesis by (auto simp: applyTransactionToTip_def tipGuard_def failM_def index_one_of_def)
qed

lemma indexed_cases:
  assumes i: "m_Index (tx_meta tx) = Some i"
  shows "i = GetNextIndex s \<Longrightarrow> applyIndexedTransaction env (Some tx) s = applyTransactionToTip env (Some tx) s"
    and "i < GetNextIndex s \<Longrightarrow> applyIndexedTransaction env (Some tx) s = applyHistoricalTransaction env (Some tx) s"
    and "GetNextIndex s < i \<Longrightarrow> fst (applyIndexedTransaction env (Some tx) s) \<noteq> Ok ()"
proof -
  show "applyIndexedTransaction env (Some tx) s = applyTransactionToTip env (Some tx) s" if "i = GetNextIndex s"
    using that by (simp add: applyIndexedTransaction_def i)
  show "applyIndexedTransaction env (Some tx) s = applyHistoricalTransaction env (Some tx) s" if "i < GetNextIndex s"
    using that less_imp_neq [OF that] by (simp add: applyIndexedTransaction_def i)
  show "fst (applyIndexedTransaction env (Some tx) s) \<noteq> Ok ()" if lt: "GetNextIndex s < i"
  proof -
    have "i \<noteq> GetNextIndex s" and "\<not> i < GetNextIndex s" using lt by auto
    then show ?thesis by (simp add: applyIndexedTransaction_def i seqM_failM)
  qed
qed

lemma gap_indices:
  assumes "m_Index (tx_meta tx) = Some i" and "GetNextIndex s < i"
  shows "index_one_of {GetLatestIndex s} (GetLatestVerifiedIndex s) (snd (applyIndexedTransaction env (Some tx) s))"
proof -
  let ?m = "bindM (getsM s_dtlEigenEnable) (\<lambda>dtlEigenEnable.
     seqM (if dtlEigenEnable \<and> i > GetNextIndex s then
             bindM (getsM GetLatestEigenBatchIndex) (\<lambda>latest.
             bindM (liftR (derefR latest)) (\<lambda>l. SetLatestEigenBatchIndex (Some (l - 1))))
           else retM ())
       (failM (ErrNew ''Received tx at index when looking for another'')))"
  have "i \<noteq> GetNextIndex s" and "\<not> i < GetNextIndex s" using assms(2) by auto
  then have eq: "applyIndexedTransaction env (Some tx) s = ?m s" by (simp add: applyIndexedTransaction_def assms(1))
  have k: "keeps (index_one_of {GetLatestIndex s} (GetLatestVerifiedIndex s)) ?m" by (intro keeps_intros)
  show ?thesis unfolding eq by (rule keepsD [OF k]) (simp add: index_one_of_def)
qed

lemma tipIndex_indexed: "m_Index (tx_meta tx) = Some i \<Longrightarrow> tipIndex s tx = i"
  by (simp add: tipIndex_def)

lemma indexed_indices:
  assumes "m_Index (tx_meta tx) = Some i"
  shows "index_one_of (if i = GetNextIndex s then {GetLatestIndex s, Some i} else {GetLatestIndex s}) (GetLatestVerifiedIndex s)
    (snd (applyIndexedTransaction env (Some tx) s))"
proof -
  consider "i = GetNextIndex s" | "i < GetNextIndex s" | "GetNextIndex s < i" by fastforce
  then show ?thesis
  proof cases
    case 1
    show ?thesis
      using 1 indexed_cases(1) [OF assms 1, of env] tip_indices [of s tx env] tipIndex_indexed [OF assms, of s] by simp
  next
    case 2
    then have "applyIndexedTransaction env (Some tx) s = applyHistoricalTransaction env (Some tx) s"
      by (rule indexed_cases(2) [OF assms])
    then show ?thesis using 2 core_obs [OF historical_core [of env "Some tx" s]] by (simp add: index_one_of_def)
  next
    case 3
    then show ?thesis using gap_indices [OF assms 3] by auto
  qed
qed

lemma indexed_Ok:
  assumes "applyIndexedTransaction env (Some tx) s = (Ok (), s')"
  shows "\<exists>i. m_Index (tx_meta tx) = Some i \<and> i \<le> GetNextIndex s \<and>
    GetLatestIndex s' = (if i = GetNextIndex s then Some i else GetLatestIndex s) \<and>
    GetLatestVerifiedIndex s' = GetLatestVerifiedIndex s"
proof -
  obtain i where i: "m_Index (tx_meta tx) = Some i"
    using assms by (cases "m_Index (tx_meta tx)") (auto simp: applyIndexedTransaction_def failM_def)
  have "i \<le> GetNextIndex s" using indexed_cases(3) [OF i, of s env] assms by fastforce
  moreover have "GetLatestIndex s' = (if i = GetNextIndex s then Some i else GetLatestIndex s)"
  proof (cases "i = GetNextIndex s")
    case True
    then have tip: "applyTransactionToTip env (Some tx) s = (Ok (), s')" using indexed_cases(1) [OF i True] assms by simp
    then obtain tx' t where t: "atMiner s tx tx' t"
      and m: "mineTx env (s_timestamp s) (s_blockNumber s) (GetLatestIndex s) tx' t = (Ok (), s')"
      using tip_reaches_miner [OF tip tip_Ok_guard [OF tip]] by blast
    show ?thesis using True t core_obs(3) [OF mineTx_Ok [OF m]] tipIndex_indexed [OF i, of s] by (simp add: atMiner_def)
  next
    case False
    with \<open>i \<le> GetNextIndex s\<close> have "i < GetNextIndex s" by simp
    then have "applyHistoricalTransaction env (Some tx) s = (Ok (), s')" using indexed_cases(2) [OF i, of s env] assms by simp
    then show ?thesis using False core_obs(3) [OF historical_core [of env "Some tx" s]] by simp
  qed
  moreover have "GetLatestVerifiedIndex s' = GetLatestVerifiedIndex s"
    using indexed_indices [OF i, of s env] assms by (simp add: index_one_of_def)
  ultimately show ?thesis using i by blast
qed


lemma sample_indexed_ok: "fst (applyIndexedTransaction sample_env (Some sample_tx) sample_service) = Ok ()"
  by code_simp


subsection \<open>The verified index\<close>

definition verified_behind :: "'w SyncService \<Rightarrow> bool" where
  "verified_behind s \<longleftrightarrow> GetLatestIndex s \<noteq> Some (- 1) \<and>
     (case GetLatestVerifiedIndex s of None \<Rightarrow> True
      | Some v \<Rightarrow> (case GetLatestIndex s of None \<Rightarrow> False | Some l \<Rightarrow> v \<le> l))"

lemma less_next:
  assumes "i < l + 1" and "(l :: u64) \<noteq> - 1"
  shows "i \<le> l"
  using assms unat_add_one [of l] by (simp add: word_less_nat_alt word_le_nat_alt)

lemma next_bound:
  assumes "GetLatestIndex s \<noteq> Some (- 1)" and "i < GetNextIndex s"
  obtains l where "GetLatestIndex s = Some l" and "i \<le> l"
  using assms less_next by (auto simp: GetNextIndex_def split: option.splits)

lemma verified_behind_indexed:
  assumes "verified_behind s" and "m_Index (tx_meta tx) = Some i" and "i \<noteq> - 1"
  shows "verified_behind (snd (applyIndexedTransaction env (Some tx) s))"
proof -
  let ?s = "snd (applyIndexedTransaction env (Some tx) s)"
  have "v \<le> l + 1" if "v \<le> l" and "l \<noteq> - 1" for v l :: u64
    using that unat_add_one [of l] by (simp add: word_le_nat_alt)
  then show ?thesis
    using indexed_indices [OF assms(2), of s env] assms(1,3)
    by (auto simp: index_one_of_def verified_behind_def GetNextIndex_def split: if_splits option.splits)
qed

lemma setVerified_cases:
  "(\<exists>t. SetLatestVerifiedIndex (Some i) s = (Ok (), t)) \<or> (\<exists>p. SetLatestVerifiedIndex (Some i) s = (Panic p, s))"
proof (cases "s_db s")
  case None
  then obtain p where "WriteHeadVerifiedIndex i (s_db s) = (Panic p, None)" using verified.wr_closed [of i] by auto
  with None show ?thesis by (simp add: SetLatestVerifiedIndex_def onDb_def)
qed (use verified.wr_cases [of i "s_db s"] in \<open>auto simp: SetLatestVerifiedIndex_def onDb_def\<close>)

lemma verified_behind_batched:
  assumes "verified_behind s" and "m_Index (tx_meta tx) \<noteq> Some (- 1)"
  shows "verified_behind (snd (applyBatchedTransaction env (Some tx) s))"
proof (cases "m_Index (tx_meta tx)")
  case None
  with assms(1) show ?thesis by (simp add: applyBatchedTransaction_def failM_def)
next
  case (Some i)
  obtain r t where t: "applyIndexedTransaction env (Some tx) s = (r, t)" by fastforce
  have vt: "verified_behind t" using verified_behind_indexed [OF assms(1) Some, of env] assms(2) Some t by simp
  show ?thesis
  proof (cases r)
    case (Ok u)
    then obtain "i \<le> GetNextIndex s" and l: "GetLatestIndex t = (if i = GetNextIndex s then Some i else GetLatestIndex s)"
      using indexed_Ok [of env tx s t] t Some by auto
    have latest: "GetLatestIndex s \<noteq> Some (- 1)" using assms(1) by (simp add: verified_behind_def)
    obtain l where "GetLatestIndex t = Some l" and "i \<le> l"
    proof (cases "i = GetNextIndex s")
      case False
      with \<open>i \<le> GetNextIndex s\<close> have "i < GetNextIndex s" by simp
      from next_bound [OF latest this] obtain l where "GetLatestIndex s = Some l" and "i \<le> l" .
      with l False that show thesis by simp
    qed (use l that in simp)
    moreover have "snd (applyBatchedTransaction env (Some tx) s) = snd (SetLatestVerifiedIndex (Some i) t)"
      using Some t Ok by (simp add: applyBatchedTransaction_def seqM_def bindM_def wrapM_def)
    ultimately show ?thesis
      using setVerified_cases [of i t] vt setVerified_Ok(1,2) [of i t] by (fastforce simp: verified_behind_def)
  qed (use Some t vt in \<open>simp_all add: applyBatchedTransaction_def seqM_def bindM_def wrapM_def\<close>)
qed

text \<open>the verified index never runs ahead of the processed index: applying a batched transaction
  keeps \<open>verified \<le> processed\<close>, whatever the outcome of the call, for indices below \<open>2^64 - 1\<close>.\<close>

theorem verified_never_ahead:
  assumes "verified_behind s" and "m_Index (tx_meta tx) \<noteq> Some (- 1)"
  shows "verified_behind (snd (applyBatchedTransaction env (Some tx) s))"
  by (rule verified_behind_batched [OF assms])

theorem verified_never_ahead_witness:
  "verified_behind (snd (applyBatchedTransaction sample_env (Some sample_tx) sample_service))"
  by (rule verified_never_ahead)
    (simp_all add: verified_behind_def sample_service_def sample_tx_def index_obs db_New_def ReadHeadIndex_def
      ReadHeadVerifiedIndex_def get_data_def db_Get_def SetTransactionMeta_def NewTransactionMeta_def)

end
