(* ===== verification/Sync_Admission.thy ===== *)
theory Sync_Admission
  imports Sync_Apply
begin

text \<open>
  What the sequencer demands of a user's transaction before it applies it: properties of
  \<open>updateGasPriceOracleCache\<close>, \<open>verifyFee\<close> and \<open>ValidateAndApplySequencerTransaction\<close>
  of \<open>l2geth/rollup/sync_service.go\<close>, and of \<open>isCtcTxEqual\<close> of \<open>l2geth/rollup/types.go\<close>.
\<close>

section \<open>The cache after a refresh\<close>

lemmas cache_steps = cacheGasPriceOracleOwner_def updateL1GasPrice_def updateL2GasPrice_def updateOverhead_def updateScalar_def
  updateIsBurning_def updateCharge_def updateSCCAddress_def updateDASwitch_def updateDAGasPrice_def

text \<open>The state a refresh reads: that of the given block, or the current one.\<close>

definition stateFor :: "'w outside \<Rightarrow> hash option \<Rightarrow> ('w, statedb) sm" where
  "stateFor env h = (case h of Some r \<Rightarrow> x_StateAt env r | None \<Rightarrow> x_State env)"

lemma cache_reads_state:
  assumes "updateGasPriceOracleCache env h s = (Ok (), s')"
  obtains d w where "stateFor env h (s_world s) = (Ok d, w)" and "s_world s' = w"
    and "oracle_synced (s_RollupGpo s') (sd_GetState d)"
    and "s_gasPriceOracleOwnerAddress s' = BigToAddress (hash_Big (sd_GetState d L2GasPriceOracleAddress L2GasPriceOracleOwnerSlot))"
    and "o_sccAddress (s_RollupGpo s') = BigToAddress (hash_Big (sd_GetState d L2GasPriceOracleAddress SccAddressSlot))"
proof -
  obtain r w where w: "stateFor env h (s_world s) = (r, w)" by fastforce
  have state: "(case h of Some r \<Rightarrow> ext (x_StateAt env r) | None \<Rightarrow> ext (x_State env)) s = (r, s\<lparr>s_world := w\<rparr>)"
    using w by (cases h) (simp_all add: stateFor_def ext_def)
  from assms obtain d where d: "r = Ok d"
    unfolding updateGasPriceOracleCache_def by (cases r) (simp_all add: bindM_def state)
  note st = state [unfolded d]
  show thesis
  proof (rule that)
    show "stateFor env h (s_world s) = (Ok d, w)" using w d by simp
  qed (use assms in \<open>auto simp: updateGasPriceOracleCache_def Let_def st cache_steps
      seqM_def onGpo_def modM_def bindM_def readGPOStorageSlot_def retM_def oracle_synced_def oracle_setters\<close>)
qed

text \<open>a refresh of the gas price oracle cache that succeeds leaves every cached parameter equal to
  what the oracle contract stores in the state that was read, the owner and the address of the state
  commitment chain included, and it touches neither the stored indices nor the L1 context.\<close>

theorem cache_refresh_synced:
  assumes "updateGasPriceOracleCache env h s = (Ok (), s')"
  shows "\<exists>d. stateFor env h (s_world s) = (Ok d, s_world s') \<and> oracle_synced (s_RollupGpo s') (sd_GetState d) \<and>
    s_gasPriceOracleOwnerAddress s' = BigToAddress (hash_Big (sd_GetState d L2GasPriceOracleAddress L2GasPriceOracleOwnerSlot)) \<and>
    o_sccAddress (s_RollupGpo s') = BigToAddress (hash_Big (sd_GetState d L2GasPriceOracleAddress SccAddressSlot)) \<and>
    core s' = core s"
  using cache_reads_state [OF assms] core_updateCache [of env h s] assms by (metis snd_conv)

definition sample_state :: statedb where
  "sample_state = \<lparr>sd_GetState = (\<lambda>_ _. 0), sd_GetBalance = (\<lambda>_. 10 ^ 30)\<rparr>"

theorem cache_refresh_synced_witness:
  "oracle_synced (s_RollupGpo (snd (updateGasPriceOracleCache (sample_env\<lparr>x_State := retM sample_state\<rparr>) None sample_service)))
     (sd_GetState sample_state)"
proof -
  let ?env = "sample_env\<lparr>x_State := retM sample_state\<rparr>"
  have "fst (updateGasPriceOracleCache ?env None sample_service) = Ok ()"
    by (simp add: updateGasPriceOracleCache_def Let_def cache_steps seqM_def onGpo_def modM_def bindM_def readGPOStorageSlot_def
        retM_def ext_def)
  then have "updateGasPriceOracleCache ?env None sample_service = (Ok (), snd (updateGasPriceOracleCache ?env None sample_service))"
    by (metis prod.collapse)
  from cache_refresh_synced [OF this] show ?thesis by (auto simp: stateFor_def retM_def)
qed

section \<open>The fee check\<close>

lemma verifyFee_Ok:
  assumes "verifyFee env tx s = (Ok (), s')"
  obtains fee state sndr where "CalculateTotalFee (x_overflow env) (x_EncodeRLP env) tx (s_RollupGpo s) = Ok fee"
    and "x_State env (s_world s) = (Ok state, s_world s')" and "x_Sender env tx = Ok sndr" and "s' = s\<lparr>s_world := s_world s'\<rparr>"
    and "(if tx_Price tx \<noteq> 0 then tx_Amount tx + fee else tx_Amount tx) \<le> sd_GetBalance state sndr"
    and "tx_Price tx = 0 \<Longrightarrow> sndr = s_gasPriceOracleOwnerAddress s \<or> \<not> s_enforceFees s"
    and "tx_Price tx \<noteq> 0 \<Longrightarrow> PaysEnough (x_overflow env) \<lparr>pe_UserGasPrice = Some (tx_Price tx),
      pe_ExpectedGasPrice = Some (o_l2GasPrice (s_RollupGpo s)),
      pe_ThresholdUp = s_feeThresholdUp s, pe_ThresholdDown = s_feeThresholdDown s\<rparr> = Ok ()"
proof -
  from assms obtain fee where fee: "CalculateTotalFee (x_overflow env) (x_EncodeRLP env) tx (s_RollupGpo s) = Ok fee"
    unfolding verifyFee_def by (auto elim!: bindM_OkE simp: liftR_def)
  obtain r w where w: "x_State env (s_world s) = (r, w)" by fastforce
  show thesis
  proof (cases r)
    case (Ok state)
    show thesis
    proof (cases "x_Sender env tx")
      case (Ok sndr)
      show thesis
        by (rule that [OF fee _ Ok]) (use assms w \<open>r = Ok state\<close> fee Ok in \<open>auto simp: verifyFee_def bindM_def attemptM_def
          liftR_def ext_def retM_def failM_def getsM_def wrapM_def Let_def split: if_splits res.splits\<close>)
    qed (use assms w Ok fee in \<open>auto simp: verifyFee_def bindM_def attemptM_def liftR_def ext_def failM_def wrapM_def Let_def
        getsM_def\<close>)
  qed (use assms w fee in \<open>auto simp: verifyFee_def bindM_def attemptM_def liftR_def ext_def failM_def wrapM_def Let_def
        getsM_def\<close>)
qed


lemma mulByFloat_bound: "mulByFloat ov n f < 2 ^ 64"
  using uint_lt2p [where 'a = 64] by (simp add: mulByFloat_def Let_def)

definition priced_tx :: Transaction where
  "priced_tx = NewTransaction 0 zeroAddress (Some 5) 21000 (Some 1) []"

definition open_env :: "unit outside" where
  "open_env = sample_env\<lparr>x_State := retM sample_state\<rparr>"

definition open_service :: "unit SyncService" where
  "open_service = sample_service\<lparr>s_verifier := False\<rparr>"

lemma open_cache: "updateGasPriceOracleCache open_env None open_service =
    (Ok (), snd (updateGasPriceOracleCache open_env None open_service))"
  by (simp add: updateGasPriceOracleCache_def Let_def cache_steps seqM_def onGpo_def modM_def bindM_def readGPOStorageSlot_def
        retM_def ext_def open_env_def)

lemma open_fee:
  assumes "oracle_synced (s_RollupGpo s) (sd_GetState sample_state)" and "s_feeThresholdUp s = None" and "s_feeThresholdDown s = None"
  shows "verifyFee open_env priced_tx s = (Ok (), s)"
proof -
  have zero: "o_l2GasPrice (s_RollupGpo s) = 0" "o_daSwitch (s_RollupGpo s) = Some 0"
    using assms(1) by (simp_all add: oracle_synced_def sample_state_def hash_Big_def Let_def)
  have enc: "rlpEncode (x_EncodeRLP open_env) (copyTransaction priced_tx) = Ok [1]"
    by (simp add: rlpEncode_def open_env_def sample_env_def copyTransaction_def priced_tx_def NewTransaction_def newTransaction_def)
  obtain fee where fee: "CalculateTotalFee (x_overflow open_env) (x_EncodeRLP open_env) priced_tx (s_RollupGpo s) = Ok fee"
    and "fee \<le> 2 ^ 64 + 21000"
    using mulByFloat_bound zero(2)
    by (simp add: CalculateTotalFee_def Let_def enc CalculateL1Fee_def)
      (auto simp: priced_tx_def NewTransaction_def newTransaction_def less_imp_le)
  then have "5 + fee \<le> 10 ^ 30" by simp
  with fee zero(1) assms(2,3) show ?thesis
    by (simp add: verifyFee_def Let_def bindM_def liftR_def wrapM_def getsM_def attemptM_def ext_def retM_def PaysEnough_def)
      (simp add: open_env_def sample_env_def retM_def priced_tx_def NewTransaction_def newTransaction_def sample_state_def
        bindM_def liftR_def getsM_def attemptM_def PaysEnough_def)
qed

lemma open_synced: "oracle_synced (s_RollupGpo (snd (updateGasPriceOracleCache open_env None open_service))) (sd_GetState sample_state)"
  using cache_reads_state [OF open_cache] by (auto simp: stateFor_def open_env_def retM_def)

lemma open_thresholds:
  "s_feeThresholdUp (snd (updateGasPriceOracleCache open_env None open_service)) = None"
  "s_feeThresholdDown (snd (updateGasPriceOracleCache open_env None open_service)) = None"
  by (simp_all add: updateGasPriceOracleCache_def Let_def cache_steps seqM_def onGpo_def modM_def bindM_def readGPOStorageSlot_def
        retM_def ext_def open_env_def open_service_def sample_service_def)


section \<open>Transactions of the sequencer\<close>

lemma validate_Ok:
  assumes "ValidateAndApplySequencerTransaction env (Some tx) s = (Ok (), s')"
  obtains s1 s2 where "\<not> s_verifier s" and "verifyFee env tx s = (Ok (), s1)" and "tx_QueueOrigin tx = QueueOriginSequencer"
    and "ext (x_ValidateTx env tx) s1 = (Ok (), s2)" and "applyTransaction env (Some tx) s2 = (Ok (), s')"
  using assms unfolding ValidateAndApplySequencerTransaction_def seqM_def
  by (cases "s_verifier s"; cases "tx_QueueOrigin tx = QueueOriginSequencer")
    (auto simp: failM_def getsM_def elim!: bindM_OkE)

lemma verifyFee_core: "verifyFee env tx s = (Ok (), s') \<Longrightarrow> core s' = core s"
  by (elim verifyFee_Ok) (metis core_ext ext_def split_conv snd_conv)


lemma open_applied: "fst (ValidateAndApplySequencerTransaction open_env (Some priced_tx)
    (snd (updateGasPriceOracleCache open_env None open_service))) = Ok ()"
proof -
  let ?s = "snd (updateGasPriceOracleCache open_env None open_service)"
  have v: "\<not> s_verifier ?s"
    by (simp add: updateGasPriceOracleCache_def Let_def cache_steps seqM_def onGpo_def modM_def bindM_def readGPOStorageSlot_def
        retM_def ext_def open_env_def open_service_def)
  have "ext (x_ValidateTx open_env priced_tx) ?s = (Ok (), ?s)" by (simp add: open_env_def sample_env_def ext_def retM_def)
  moreover have "fst (applyTransactionToTip open_env (Some priced_tx) ?s) = Ok ()" by code_simp
  ultimately show ?thesis using v open_fee [OF open_synced open_thresholds]
    by (simp add: ValidateAndApplySequencerTransaction_def seqM_def bindM_def wrapM_def getsM_def applyTransaction_def liftR_def retM_def)
      (simp add: priced_tx_def NewTransaction_def newTransaction_def NewTransactionMeta_def tx_QueueOrigin_def
        QueueOriginSequencer_def QueueOriginL1ToL2_def)
qed


text \<open>C37: the comparison of a transaction of the queue with one of a batch is reflexive and fails to be symmetric
  in exactly one case: the left one creates a contract and the right one goes to the zero address.\<close>

theorem ctc_equal_asymmetry:
  "isCtcTxEqual a a \<and> (isCtcTxEqual a b \<and> \<not> isCtcTxEqual b a \<longleftrightarrow>
     tx_Recipient a = None \<and> tx_Recipient b = Some zeroAddress \<and> tx_Payload a = tx_Payload b \<and>
     L1MessageSender a = L1MessageSender b \<and> tx_GasLimit a = tx_GasLimit b)"
  by (auto simp: isCtcTxEqual_def Let_def split: option.splits)

end
