(* ===== verification/Sync_Tip.thy ===== *)
theory Sync_Tip
  imports Sync_Admission
begin

text \<open>
  The loops of the sync service (\<open>l2geth/rollup/sync_service.go\<close>): syncing a range, syncing to the
  tip, the verifier's and the sequencer's tick, and start-up. A loop of the source that polls a
  remote has no bound of its own: its model takes fuel and answers \<open>Diverge\<close> when the fuel is used up.
\<close>

section \<open>Syncing to the tip\<close>

definition errShortRemoteTip :: goerr where "errShortRemoteTip = Sentinel ''errShortRemoteTip''"
definition errBadConfig :: goerr where "errBadConfig = Sentinel ''errBadConfig''"

definition isAtTip :: "u64 option \<Rightarrow> ('w, u64 option) svc \<Rightarrow> ('w, bool) svc" where
  "isAtTip index get =
     bindM (attemptM get) (\<lambda>r. case r of
         Inl err \<Rightarrow> if errors_is err ''errElementNotFound'' then retM (index = None) else failM err
       | Inr latest \<Rightarrow> (case (latest, index) of
           (None, None) \<Rightarrow> retM True
         | (None, Some i) \<Rightarrow> retM False
         | (Some l, None) \<Rightarrow> retM False
         | (Some l, Some i) \<Rightarrow>
             if l = i then retM True
             else if l < i then failM (ErrWrap ''is at tip mismatch'' errShortRemoteTip)
             else retM False))"

fun syncToTip :: "nat \<Rightarrow> ('w, u64 option) svc \<Rightarrow> ('w, u64 option) svc \<Rightarrow> ('w, unit) svc" where
  "syncToTip 0 sync getTip = liftR Diverge"
| "syncToTip (Suc fuel) sync getTip =
     bindM (attemptM sync) (\<lambda>r. case r of
         Inl err \<Rightarrow> if errors_is err ''errElementNotFound'' then retM () else failM err
       | Inr index \<Rightarrow>
           bindM (isAtTip index getTip) (\<lambda>atTip. if atTip then retM () else syncToTip fuel sync getTip))"

definition syncRange :: "('w, u64 option) svc \<Rightarrow> ('w SyncService \<Rightarrow> u64) \<Rightarrow> (u64 \<Rightarrow> u64 \<Rightarrow> ('w, unit) svc)
    \<Rightarrow> ('w, u64 option) svc" where
  "syncRange getLatest getNext syncer =
     bindM (wrapM ''Cannot sync'' getLatest) (\<lambda>latestIndex. case latestIndex of
         None \<Rightarrow> failM (ErrNew ''Latest index is not defined'')
       | Some latest \<Rightarrow>
           bindM (getsM getNext) (\<lambda>nextIndex.
           if nextIndex = latest + 1 then retM (Some latest)
           else seqM (syncer nextIndex latest) (retM (Some latest))))"

section \<open>What is synced\<close>

definition verifyTx :: "'w outside \<Rightarrow> Transaction \<Rightarrow> ('w, bool) svc" where
  "verifyTx env tx =
     bindM (getsM s_mpcVerifier) (\<lambda>mpcVerifier.
     if \<not> mpcVerifier then
       bindM (liftR (derefR (m_Index (tx_meta tx)))) (\<lambda>index.
       bindM (getsM s_backend) (\<lambda>backend.
       bindM (wrapM ''Cannot get stateroot from dtl'' (ext (c_GetStateRoot env index backend))) (\<lambda>stateRoot.
       bindM (getsM GetNextIndex) (\<lambda>next.
       if index < next then retM False
       else
         bindM (wrapM ''Cannot apply tx'' (ext (x_applyTx env tx))) (\<lambda>root.
         if root \<noteq> sr_Value stateRoot then failM (ErrNew ''stateroot is different'')
         else retM True)))))
     else retM True)"

definition syncTransactionBatchRange :: "'w outside \<Rightarrow> u64 \<Rightarrow> u64 \<Rightarrow> ('w, unit) svc" where
  "syncTransactionBatchRange env start end' = rangeM start end' (\<lambda>i.
     bindM (wrapM ''Cannot get transaction batch'' (ext (c_GetTransactionBatch env i))) (\<lambda>(_, txs).
     seqM (forM txs (\<lambda>tx.
       bindM (verifyTx env tx) (\<lambda>verified.
       if verified then wrapM ''cannot apply batched transaction'' (applyBatchedTransaction env (Some tx)) else retM ())))
     (SetLatestBatchIndex (Some i))))"

definition applyBatched :: "'w outside \<Rightarrow> Transaction list \<Rightarrow> ('w, unit) svc" where
  "applyBatched env txs = forM txs (\<lambda>tx. wrapM ''cannot apply batched transaction'' (applyBatchedTransaction env (Some tx)))"

definition syncEigenTransactionBatchRange :: "'w outside \<Rightarrow> u64 \<Rightarrow> u64 \<Rightarrow> ('w, unit) svc" where
  "syncEigenTransactionBatchRange env start end' = rangeM start end' (\<lambda>i.
     bindM (getsM s_dtlEigenEnable) (\<lambda>dtlEigenEnable.
     if dtlEigenEnable then
       bindM (wrapM ''cannot get rollup store by batch index from dtl'' (ext (d_GetDtlRollupStoreByBatchIndex env (sint i))))
         (\<lambda>(dataStoreId, upgradeDataStoreId).
       if dataStoreId \<noteq> 0 then
         bindM (wrapM ''cannot get eigen transaction batch from dtl''
           (ext (d_GetDtlBatchTransactionByDataStoreId env (dataStoreId + upgradeDataStoreId)))) (\<lambda>txs.
         seqM (applyBatched env txs) (SetLatestEigenBatchIndex (Some i)))
       else retM ())
     else
       bindM (wrapM ''cannot get rollup store by batch index'' (ext (e_GetRollupStoreByRollupBatchIndex env (sint i)))) (\<lambda>dataStoreId.
       if dataStoreId \<noteq> 0 then
         bindM (getsM s_l1MsgSender) (\<lambda>l1MsgSender.
         bindM (wrapM ''cannot get eigen transaction batch'' (ext (e_GetBatchTransactionByDataStoreId env dataStoreId l1MsgSender))) (\<lambda>txs.
         seqM (applyBatched env txs) (SetLatestEigenBatchIndex (Some i))))
       else retM ())))"

definition syncQueueTransactionRange :: "'w outside \<Rightarrow> u64 \<Rightarrow> u64 \<Rightarrow> ('w, unit) svc" where
  "syncQueueTransactionRange env start end' = rangeM start end' (\<lambda>i.
     bindM (wrapM ''Canot get enqueue transaction'' (ext (c_GetEnqueue env i))) (\<lambda>tx.
     wrapM ''cannot apply transaction'' (applyTransaction env (Some tx))))"

definition syncTransactionRange :: "'w outside \<Rightarrow> Backend \<Rightarrow> u64 \<Rightarrow> u64 \<Rightarrow> ('w, unit) svc" where
  "syncTransactionRange env backend start end' = rangeM start end' (\<lambda>i.
     bindM (wrapM ''cannot fetch transaction'' (ext (c_GetTransaction env i backend))) (\<lambda>tx.
     wrapM ''Cannot apply transaction'' (applyTransaction env (Some tx))))"

definition syncBatches :: "'w outside \<Rightarrow> ('w, u64 option) svc" where
  "syncBatches env = wrapM ''Cannot sync batches''
     (syncRange (ext (c_GetLatestTransactionBatchIndex env)) GetNextBatchIndex (syncTransactionBatchRange env))"

definition latestEigen :: "'w outside \<Rightarrow> bool \<Rightarrow> ('w, u64 option) svc" where
  "latestEigen env dtl = ext (if dtl then d_GetDtlLatestBatchIndex env else e_GetLatestTransactionBatchIndex env)"

definition syncEigenBatches :: "'w outside \<Rightarrow> ('w, u64 option) svc" where
  "syncEigenBatches env = bindM (getsM s_dtlEigenEnable) (\<lambda>dtlEigenEnable.
     wrapM ''cannot sync eigen batches''
       (syncRange (latestEigen env dtlEigenEnable) GetEigenNextBatchIndex (syncEigenTransactionBatchRange env)))"

definition syncQueue :: "'w outside \<Rightarrow> ('w, u64 option) svc" where
  "syncQueue env = wrapM ''Cannot sync queue''
     (syncRange (ext (c_GetLatestEnqueueIndex env)) GetNextEnqueueIndex (syncQueueTransactionRange env))"

definition syncTransactions :: "'w outside \<Rightarrow> Backend \<Rightarrow> ('w, u64 option) svc" where
  "syncTransactions env backend = wrapM ''Cannot sync transactions with backend''
     (syncRange (ext (c_GetLatestTransactionIndex env backend)) GetNextIndex (syncTransactionRange env backend))"

section \<open>Ticks of the two loops\<close>

definition syncQueueToTip :: "'w outside \<Rightarrow> nat \<Rightarrow> ('w, unit) svc" where
  "syncQueueToTip env fuel = wrapM ''Cannot sync queue to tip''
     (syncToTip fuel (syncQueue env) (ext (c_GetLatestEnqueueIndex env)))"

definition syncBatchesToTip :: "'w outside \<Rightarrow> nat \<Rightarrow> ('w, unit) svc" where
  "syncBatchesToTip env fuel = wrapM ''Cannot sync transaction batches to tip''
     (syncToTip fuel (syncBatches env) (ext (c_GetLatestTransactionBatchIndex env)))"

definition syncEigenBatchesToTip :: "'w outside \<Rightarrow> nat \<Rightarrow> ('w, unit) svc" where
  "syncEigenBatchesToTip env fuel = bindM (getsM s_dtlEigenEnable) (\<lambda>dtlEigenEnable.
     wrapM ''Cannot sync eigen transaction batches to tip''
       (syncToTip fuel (syncEigenBatches env) (latestEigen env dtlEigenEnable)))"

definition syncTransactionsToTip :: "'w outside \<Rightarrow> nat \<Rightarrow> ('w, unit) svc" where
  "syncTransactionsToTip env fuel = bindM (getsM s_backend) (\<lambda>backend.
     wrapM ''Verifier cannot sync transactions with backend''
       (syncToTip fuel (syncTransactions env backend) (ext (c_GetLatestTransactionIndex env backend))))"

definition verify :: "'w outside \<Rightarrow> nat \<Rightarrow> ('w, unit) svc" where
  "verify env fuel = bindM (getsM s_backend) (\<lambda>backend.
     if backend = BackendL1 then wrapM ''Verifier cannot sync transaction batches to tip'' (syncBatchesToTip env fuel)
     else if backend = BackendL2 then wrapM ''Verifier cannot sync transactions with BackendL2'' (syncTransactionsToTip env fuel)
     else if backend = BackendEigen then wrapM ''verifier cannot sync transactions with BackendEigen'' (syncEigenBatchesToTip env fuel)
     else retM ())"

definition sequence :: "'w outside \<Rightarrow> nat \<Rightarrow> ('w, unit) svc" where
  "sequence env fuel = wrapM ''Sequencer cannot sequence queue'' (syncQueueToTip env fuel)"

text \<open>One round of \<open>VerifierLoop\<close> and of \<open>SequencerLoop\<close>: errors are logged.\<close>

definition verifierTick :: "'w outside \<Rightarrow> nat \<Rightarrow> ('w, unit) svc" where
  "verifierTick env fuel = bindM (attemptM (verify env fuel)) (\<lambda>_. retM ())"

definition sequencerTick :: "'w outside \<Rightarrow> nat \<Rightarrow> ('w, unit) svc" where
  "sequencerTick env fuel =
     bindM (attemptM (sequence env fuel)) (\<lambda>_.
     bindM (attemptM (updateL1BlockNumber env)) (\<lambda>_. retM ()))"

section \<open>Start-up\<close>

definition initContext :: "'w outside \<Rightarrow> int option \<Rightarrow> ('w, unit) svc" where
  "initContext env ctcDeployHeight =
     bindM (getsM GetLatestIndex) (\<lambda>index. case index of
         None \<Rightarrow> (case ctcDeployHeight of
             None \<Rightarrow> failM (ErrNew ''Must configure with canonical transaction chain deploy height'')
           | Some h \<Rightarrow>
               bindM (wrapM ''Cannot fetch ctc deploy block'' (ext (c_GetEthContext env (big_Uint64 h)))) (\<lambda>context.
               seqM (SetLatestL1Timestamp (ec_Timestamp context)) (SetLatestL1BlockNumber (ec_BlockNumber context))))
       | Some i \<Rightarrow>
           bindM (getsM (\<lambda>s. s_verifier s \<and> s_backend s = BackendL1)) (\<lambda>recover.
           seqM (if recover then
                   bindM (wrapM ''Cannot fetch transaction from dtl'' (ext (c_GetRawTransaction env i BackendL1))) (\<lambda>tx.
                   bindM (liftR (derefR (tr_Transaction tx))) (\<lambda>t.
                   SetLatestBatchIndex (Some (if rt_BatchIndex t > 0 then rt_BatchIndex t - 1 else rt_BatchIndex t))))
                 else retM ()) (
           bindM (ext (x_GetBlockByNumber env (i + 1))) (\<lambda>b.
           bindM (case b of
               Some block \<Rightarrow> retM block
             | None \<Rightarrow>
                 bindM (ext (x_CurrentBlock env)) (\<lambda>c.
                 bindM (liftR (derefR c)) (\<lambda>block.
                 let blockNum = big_Uint64 (blk_Number block) in
                 if blockNum > i then failM (ErrNew ''Current block height greater than index'')
                 else seqM (SetLatestIndex (if blockNum > 0 then Some (blockNum - 1) else None)) (retM block)))) (\<lambda>block.
           case blk_Transactions block of
               [tx] \<Rightarrow> seqM (SetLatestL1Timestamp (L1Timestamp tx)) (
                 bindM (liftR (derefR (L1BlockNumber tx))) (\<lambda>bn. SetLatestL1BlockNumber (big_Uint64 bn)))
             | _ \<Rightarrow> panicM ''Cannot recover BVM Context'')))))"

text \<open>Working backwards from the current block to the last queue transaction in the chain.\<close>

fun queueIndexFrom :: "'w outside \<Rightarrow> nat \<Rightarrow> u64 \<Rightarrow> Block option \<Rightarrow> ('w, u64 option) svc" where
  "queueIndexFrom env 0 queueIndex block = liftR Diverge"
| "queueIndexFrom env (Suc fuel) queueIndex block = (case block of
       None \<Rightarrow> retM (Some queueIndex)
     | Some b \<Rightarrow>
         let num = big_Uint64 (blk_Number b) in
         if num = 0 then retM None
         else (case blk_Transactions b of
             [tx] \<Rightarrow> (case m_QueueIndex (tx_meta tx) of
                 Some qi \<Rightarrow> retM (Some qi)
               | None \<Rightarrow> bindM (ext (x_GetBlockByNumber env (num - 1))) (queueIndexFrom env fuel queueIndex))
           | _ \<Rightarrow> retM (Some queueIndex)))"

definition initQueueIndex :: "'w outside \<Rightarrow> nat \<Rightarrow> ('w, unit) svc" where
  "initQueueIndex env fuel =
     bindM (getsM SvcLatestEnqueueIndex) (\<lambda>queueIndex. case queueIndex of
         None \<Rightarrow>
           bindM (attemptM (ext (c_GetLastConfirmedEnqueue env))) (\<lambda>r. case r of
               Inl err \<Rightarrow> if errors_is err ''errElementNotFound'' then retM ()
                 else failM (ErrWrap ''Cannot fetch last confirmed queue tx'' err)
             | Inr enqueue \<Rightarrow> SetLatestEnqueueIndex (m_QueueIndex (tx_meta enqueue)))
       | Some q \<Rightarrow>
           bindM (ext (x_CurrentBlock env)) (\<lambda>block.
           bindM (queueIndexFrom env fuel q block) SetLatestEnqueueIndex))"

definition initializeLatestL1 :: "'w outside \<Rightarrow> nat \<Rightarrow> int option \<Rightarrow> ('w, unit) svc" where
  "initializeLatestL1 env fuel ctcDeployHeight = seqM (initContext env ctcDeployHeight) (initQueueIndex env fuel)"

record Config =
  cfg_IsVerifier :: bool
  cfg_MpcVerifier :: bool
  cfg_Eth1SyncServiceEnable :: bool
  cfg_L1MsgSender :: string
  cfg_DtlEigenEnable :: bool
  cfg_GasPriceOracleOwnerAddress :: address
  cfg_CanonicalTransactionChainDeployHeight :: "int option"
  cfg_TimestampRefreshThreshold :: int
  cfg_Backend :: Backend
  cfg_EnforceFees :: bool
  cfg_FeeThresholdDown :: "bigfloat option"
  cfg_FeeThresholdUp :: "bigfloat option"

fun waitClient :: "'w outside \<Rightarrow> nat \<Rightarrow> ('w, unit) svc" where
  "waitClient env 0 = liftR Diverge"
| "waitClient env (Suc fuel) = bindM (attemptM (ensureClient env)) (\<lambda>r. case r of
       Inl err \<Rightarrow> waitClient env fuel
     | Inr _ \<Rightarrow> retM ())"

fun waitSynced :: "'w outside \<Rightarrow> nat \<Rightarrow> Backend \<Rightarrow> ('w, unit) svc" where
  "waitSynced env 0 backend = liftR Diverge"
| "waitSynced env (Suc fuel) backend = bindM (attemptM (ext (c_SyncStatus env backend))) (\<lambda>r. case r of
       Inl err \<Rightarrow> waitSynced env fuel backend
     | Inr status \<Rightarrow> if st_Syncing status then waitSynced env fuel backend else retM ())"

text \<open>The fee oracle is attached by the caller (\<open>eth/backend.go\<close>) before the service starts.\<close>

definition freshService :: "Config \<Rightarrow> memdb \<Rightarrow> RollupOracle \<Rightarrow> 'w \<Rightarrow> 'w SyncService" where
  "freshService cfg db gpo w = \<lparr>s_enable = cfg_Eth1SyncServiceEnable cfg, s_verifier = cfg_IsVerifier cfg,
     s_mpcVerifier = cfg_MpcVerifier cfg, s_db = db, s_RollupGpo = gpo, s_dtlEigenEnable = cfg_DtlEigenEnable cfg,
     s_l1MsgSender = cfg_L1MsgSender cfg, s_syncing = None, s_blockNumber = 0, s_timestamp = 0,
     s_timestampRefreshThreshold = (if cfg_TimestampRefreshThreshold cfg = 0 then 180 * second else cfg_TimestampRefreshThreshold cfg),
     s_backend = cfg_Backend cfg, s_gasPriceOracleOwnerAddress = cfg_GasPriceOracleOwnerAddress cfg,
     s_enforceFees = cfg_EnforceFees cfg, s_feeThresholdUp = cfg_FeeThresholdUp cfg, s_feeThresholdDown = cfg_FeeThresholdDown cfg,
     s_extra = [], s_world = w\<rparr>"

definition setUp :: "'w outside \<Rightarrow> nat \<Rightarrow> int option \<Rightarrow> ('w, unit) svc" where
  "setUp env fuel ctcDeployHeight =
     seqM (waitClient env fuel) (
     bindM (getsM (\<lambda>s. (s_verifier s, s_backend s))) (\<lambda>(verifier, backend).
     seqM (if \<not> verifier \<or> backend = BackendL2 then waitSynced env fuel backend else retM ()) (
     seqM (wrapM ''Cannot initialize latest L1 data'' (initializeLatestL1 env fuel ctcDeployHeight)) (
     if \<not> verifier then setSyncStatus True else retM ()))))"

definition NewSyncService :: "'w outside \<Rightarrow> nat \<Rightarrow> Config \<Rightarrow> int option \<Rightarrow> memdb \<Rightarrow> RollupOracle \<Rightarrow> 'w \<Rightarrow> 'w SyncService res" where
  "NewSyncService env fuel cfg chainID db gpo w =
     (if chainID = None then Fail (ErrNew ''Must configure with chain id'')
      else if (case cfg_FeeThresholdDown cfg of None \<Rightarrow> False | Some d \<Rightarrow> bf_val d > 1)
        then Fail (ErrWrap ''fee threshold down not lower'' errBadConfig)
      else if (case cfg_FeeThresholdUp cfg of None \<Rightarrow> False | Some u \<Rightarrow> bf_val u < 4000)
        then Fail (ErrWrap ''fee threshold up not larger'' errBadConfig)
      else
        let s = freshService cfg db gpo w in
        if \<not> s_enable s then Ok s
        else (case setUp env fuel (cfg_CanonicalTransactionChainDeployHeight cfg) s of
            (Ok _, s') \<Rightarrow> Ok s'
          | (Fail e, _) \<Rightarrow> Fail e
          | (Panic p, _) \<Rightarrow> Panic p
          | (Diverge, _) \<Rightarrow> Diverge))"

text \<open>\<open>Start\<close> itself, and the goroutine it spawns on a sequencer, up to the sequencer's loop.\<close>

definition Start :: "'w outside \<Rightarrow> ('w, unit) svc" where
  "Start env = bindM (getsM s_enable) (\<lambda>enable.
     if \<not> enable then retM () else updateGasPriceOracleCache env None)"

definition startSequencer :: "'w outside \<Rightarrow> nat \<Rightarrow> ('w, unit) svc" where
  "startSequencer env fuel =
     seqM (orCrit ''Sequencer cannot sync transactions to tip'' (syncTransactionsToTip env fuel)) (
     seqM (orCrit ''Sequencer cannot sync queue to tip'' (syncQueueToTip env fuel)) (
     setSyncStatus False))"

section \<open>Requests\<close>

definition MaximumExtraDataSize :: nat where "MaximumExtraDataSize = 32"

definition SetExtra :: "byte list \<Rightarrow> ('w, unit) svc" where
  "SetExtra extra = (if length extra > MaximumExtraDataSize then failM (ErrNew ''extra exceeds max length'')
     else modM (\<lambda>s. s\<lparr>s_extra := extra\<rparr>))"

definition GetTxStatusByNumber :: "'w outside \<Rightarrow> u64 \<Rightarrow> ('w, string) svc" where
  "GetTxStatusByNumber env number =
     (let index = number - 1 in
      if index < 0 then failM (ErrNew ''index should bigger or equal than 0'')
      else
        bindM (getsM s_backend) (\<lambda>backend.
        bindM (ext (c_GetTxStatusResponse env index backend)) (\<lambda>stateRsp. case stateRsp of
            None \<Rightarrow> failM (ErrNew ''tx status not ready'')
          | Some rsp \<Rightarrow> retM rsp)))"

section \<open>What a sync reaches\<close>

lemma syncRange_Ok:
  assumes "syncRange getLatest getNext syncer s = (Ok i, s')"
  obtains l t where "i = Some l" and "getLatest s = (Ok (Some l), t)"
    and "getNext t = l + 1 \<and> s' = t \<or> getNext t \<noteq> l + 1 \<and> syncer (getNext t) l t = (Ok (), s')"
proof -
  from assms obtain x t where x: "getLatest s = (Ok x, t)"
    and k: "(case x of None \<Rightarrow> failM (ErrNew ''Latest index is not defined'')
       | Some latest \<Rightarrow> bindM (getsM getNext) (\<lambda>nextIndex. if nextIndex = latest + 1 then retM (Some latest)
           else seqM (syncer nextIndex latest) (retM (Some latest)))) t = (Ok i, s')"
    unfolding syncRange_def by (auto elim!: bindM_OkE)
  show thesis
  proof (cases x)
    case (Some l)
    show thesis
      by (rule that [of l t]) (use k x Some in \<open>auto simp: seqM_def retM_def elim!: bindM_OkE split: if_splits\<close>)
  qed (use k in \<open>simp add: failM_def\<close>)
qed

text \<open>A remote that answers an index with the transaction at that index.\<close>

definition answers_index :: "'w outside \<Rightarrow> Backend \<Rightarrow> bool" where
  "answers_index env backend \<longleftrightarrow>
     (\<forall>i w tx w'. c_GetTransaction env i backend w = (Ok tx, w') \<longrightarrow> m_Index (tx_meta tx) = Some i)"

lemma apply_indexed_at: "m_Index (tx_meta tx) = Some i \<Longrightarrow> applyTransaction env (Some tx) = applyIndexedTransaction env (Some tx)"
  by (rule ext) (simp add: applyTransaction_def seqM_def)

lemma ext_Ok: "ext m s = (Ok a, s') \<Longrightarrow> m (s_world s) = (Ok a, s_world s') \<and> core s' = core s"
  by (auto simp: ext_def core_def split: prod.splits)

lemma next_after: "GetLatestIndex s = Some i \<Longrightarrow> GetNextIndex s = i + 1"
  by (simp add: GetNextIndex_def)

lemma transaction_range_reaches:
  assumes "answers_index env backend" and "syncTransactionRange env backend (GetNextIndex s) l s = (Ok (), s')"
    and "GetNextIndex s \<le> l"
  shows "GetLatestIndex s' = Some l"
proof -
  have "(\<lambda>i t. i = GetNextIndex t \<and> (i = GetNextIndex s \<or> GetLatestIndex t = Some (i - 1))) (l + 1) s'"
  proof (rule rangeM_Ok_induct [OF assms(2) [unfolded syncTransactionRange_def] assms(3)])
    fix i t t'
    assume i: "i = GetNextIndex t \<and> (i = GetNextIndex s \<or> GetLatestIndex t = Some (i - 1))"
      and "bindM (wrapM ''cannot fetch transaction'' (ext (c_GetTransaction env i backend)))
         (\<lambda>tx. wrapM ''Cannot apply transaction'' (applyTransaction env (Some tx))) t = (Ok (), t')"
    then obtain tx u where "ext (c_GetTransaction env i backend) t = (Ok tx, u)" and app: "applyTransaction env (Some tx) u = (Ok (), t')"
      by (auto elim!: bindM_OkE)
    then have tx: "m_Index (tx_meta tx) = Some i" and u: "core u = core t"
      using ext_Ok assms(1) by (metis answers_index_def)+
    have "GetNextIndex u = i" using i core_obs(3) [OF u] by (simp add: GetNextIndex_def)
    then have "GetLatestIndex t' = Some i" using indexed_Ok [of env tx u t'] app tx apply_indexed_at [OF tx, of env] by auto
    then show "i + 1 = GetNextIndex t' \<and> (i + 1 = GetNextIndex s \<or> GetLatestIndex t' = Some (i + 1 - 1))"
      by (simp add: GetNextIndex_def)
  qed simp
  moreover have "l \<noteq> - 1" using assms(2) rangeM_diverges unfolding syncTransactionRange_def by metis
  then have "l + 1 \<noteq> GetNextIndex s" using assms(3) unat_add_one [of l] by (auto simp: word_le_nat_alt)
  ultimately show ?thesis by auto
qed


definition remote_env :: "unit outside" where
  "remote_env = sample_env\<lparr>c_GetLatestTransactionIndex := \<lambda>_. retM (Some 0),
     c_GetTransaction := \<lambda>i _. if i = 0 then retM sample_tx else failM io_EOF\<rparr>"

lemma remote_answers: "answers_index remote_env BackendL2"
  by (auto simp: answers_index_def remote_env_def retM_def failM_def sample_tx_def SetTransactionMeta_def NewTransactionMeta_def
      split: if_splits)

lemma remote_synced: "fst (syncTransactions remote_env BackendL2 sample_service) = Ok (Some 0)"
  by code_simp


section \<open>The loop to the tip ends\<close>



section \<open>Runs of a verifier\<close>

lemma climbs_case_prod: "(\<And>x y. l1ctx.climbs (f x y)) \<Longrightarrow> l1ctx.climbs (case p of (x, y) \<Rightarrow> f x y)"
  by (cases p) simp

lemma verifyTx_climbs: "l1ctx.climbs (verifyTx env tx)"
  unfolding verifyTx_def by (intro climbs_rules)

lemma batch_range_climbs: "l1ctx.climbs (syncTransactionBatchRange env a b)"
  unfolding syncTransactionBatchRange_def by (intro climbs_rules climbs_case_prod verifyTx_climbs batched_climbs)

lemma eigen_range_climbs: "l1ctx.climbs (syncEigenTransactionBatchRange env a b)"
  unfolding syncEigenTransactionBatchRange_def applyBatched_def by (intro climbs_rules climbs_case_prod batched_climbs)

lemma syncRange_climbs: "l1ctx.climbs g \<Longrightarrow> (\<And>a b. l1ctx.climbs (f a b)) \<Longrightarrow> l1ctx.climbs (syncRange g n f)"
  unfolding syncRange_def by (intro climbs_rules)

lemma isAtTip_climbs: "l1ctx.climbs g \<Longrightarrow> l1ctx.climbs (isAtTip i g)"
  unfolding isAtTip_def by (intro climbs_rules) (auto intro!: climbs_rules split: option.split)

lemma syncToTip_climbs: "l1ctx.climbs f \<Longrightarrow> l1ctx.climbs g \<Longrightarrow> l1ctx.climbs (syncToTip fuel f g)"
  by (induction fuel) (simp_all add: climbs_rules isAtTip_climbs)

lemma verify_climbs: "s_backend s \<noteq> BackendL2 \<Longrightarrow> l1_below s (snd (verify env fuel s))"
proof -
  have "l1ctx.climbs (syncBatchesToTip env fuel)" "l1ctx.climbs (syncEigenBatchesToTip env fuel)"
    unfolding syncBatchesToTip_def syncEigenBatchesToTip_def syncBatches_def syncEigenBatches_def latestEigen_def
    by (intro climbs_rules syncToTip_climbs syncRange_climbs batch_range_climbs eigen_range_climbs)+
  then have "l1_below s (snd (wrapM m (syncBatchesToTip env fuel) s))" "l1_below s (snd (wrapM m (syncEigenBatchesToTip env fuel) s))" for m
    using l1ctx.climbs_wrapM unfolding l1ctx.climbs_def by blast+
  moreover assume "s_backend s \<noteq> BackendL2"
  ultimately show ?thesis by (simp add: verify_def retM_def l1ctx.below_refl)
qed

text \<open>The configuration of the service is written at construction only.\<close>

definition config :: "'w SyncService \<Rightarrow> bool \<times> bool \<times> bool \<times> bool \<times> Backend" where
  "config s = (s_enable s, s_verifier s, s_mpcVerifier s, s_dtlEigenEnable s, s_backend s)"

definition configured :: "bool \<times> bool \<times> bool \<times> bool \<times> Backend \<Rightarrow> 'w SyncService \<Rightarrow> bool" where
  "configured c s \<longleftrightarrow> config s = c"

lemma configured_basic [keeps_intros]:
  "keeps (configured c) (ext m)" "keeps (configured c) (onDb d)" "keeps (configured c) (onGpo g)"
  "keeps (configured c) (SetLatestL1Timestamp ts)" "keeps (configured c) (SetLatestL1BlockNumber bn)"
  "keeps (configured c) (modM (\<lambda>s. s\<lparr>s_gasPriceOracleOwnerAddress := a\<rparr>))"
  by (auto simp: keeps_def configured_def config_def ext_def onDb_def onGpo_def modM_def SetLatestL1Timestamp_def
      SetLatestL1BlockNumber_def split: prod.splits)

lemma configured_setters [keeps_intros]:
  "keeps (configured c) (SetLatestIndex i)" "keeps (configured c) (SetLatestEnqueueIndex i)"
  "keeps (configured c) (SetLatestVerifiedIndex i)" "keeps (configured c) (SetLatestBatchIndex i)"
  "keeps (configured c) (SetLatestEigenBatchIndex i)"
  unfolding SetLatestIndex_def SetLatestEnqueueIndex_def SetLatestVerifiedIndex_def SetLatestBatchIndex_def
    SetLatestEigenBatchIndex_def by (intro keeps_intros)+

lemma configured_cache [keeps_intros]: "keeps (configured c) (updateGasPriceOracleCache env h)"
  unfolding updateGasPriceOracleCache_def cache_steps readGPOStorageSlot_def Let_def by (intro keeps_intros)

lemma configured_tip [keeps_intros]: "keeps (configured c) (applyTransactionToTip env txp)"
  unfolding applyTransactionToTip_def stampTimestamp_def stampBlockNumber_def mineTx_def restoreContext_def Let_def
  by (intro keeps_intros)

lemma configured_batched [keeps_intros]: "keeps (configured c) (applyBatchedTransaction env txp)"
  unfolding applyBatchedTransaction_def applyIndexedTransaction_def applyHistoricalTransaction_def by (intro keeps_intros)

text \<open>The loops keep what a batched transaction keeps.\<close>

lemma keeps_syncRange: "keeps P g \<Longrightarrow> (\<And>a b. keeps P (f a b)) \<Longrightarrow> keeps P (syncRange g n f)"
  unfolding syncRange_def by (intro keeps_intros)

lemma keeps_isAtTip: "keeps P g \<Longrightarrow> keeps P (isAtTip i g)"
  unfolding isAtTip_def by (intro keeps_intros)

lemma keeps_syncToTip: "keeps P f \<Longrightarrow> keeps P g \<Longrightarrow> keeps P (syncToTip fuel f g)"
  by (induction fuel) (simp_all add: keeps_intros keeps_isAtTip)

lemma keeps_verifyTx: "(\<And>m :: ('w, StateRoot) sm. keeps P (ext m)) \<Longrightarrow> (\<And>m :: ('w, string) sm. keeps P (ext m)) \<Longrightarrow> keeps P (verifyTx env tx)"
  unfolding verifyTx_def by (intro keeps_intros)

text \<open>No delivered transaction claims the last possible index.\<close>

definition bounded_indices :: "'w outside \<Rightarrow> bool" where
  "bounded_indices env \<longleftrightarrow>
     (\<forall>i w b txs w'. c_GetTransactionBatch env i w = (Ok (b, txs), w') \<longrightarrow> (\<forall>tx \<in> set txs. m_Index (tx_meta tx) \<noteq> Some (- 1))) \<and>
     (\<forall>i w txs w'. d_GetDtlBatchTransactionByDataStoreId env i w = (Ok txs, w') \<longrightarrow> (\<forall>tx \<in> set txs. m_Index (tx_meta tx) \<noteq> Some (- 1))) \<and>
     (\<forall>i m w txs w'. e_GetBatchTransactionByDataStoreId env i m w = (Ok txs, w') \<longrightarrow> (\<forall>tx \<in> set txs. m_Index (tx_meta tx) \<noteq> Some (- 1)))"

lemma verified_behind_core: "verified_behind = onCore (\<lambda>(d, _, _). ReadHeadIndex d \<noteq> Some (- 1) \<and>
     (case ReadHeadVerifiedIndex d of None \<Rightarrow> True
      | Some v \<Rightarrow> (case ReadHeadIndex d of None \<Rightarrow> False | Some l \<Rightarrow> v \<le> l)))"
  by (simp add: fun_eq_iff verified_behind_def onCore_def core_def index_obs cong: option.case_cong)

lemma behind_frames [keeps_intros]:
  "keeps verified_behind (ext m)" "keeps verified_behind (SetLatestBatchIndex i)" "keeps verified_behind (SetLatestEigenBatchIndex i)"
  unfolding verified_behind_core SetLatestBatchIndex_def SetLatestEigenBatchIndex_def
  by (intro keeps_case_option keeps_basic keeps_onDb keeps_ext; simp cong: option.case_cong)+

lemma behind_batched: "m_Index (tx_meta tx) \<noteq> Some (- 1) \<Longrightarrow> keeps verified_behind (applyBatchedTransaction env (Some tx))"
  by (simp add: keeps_def verified_behind_batched)

lemma behind_applyBatched: "\<forall>tx \<in> set txs. m_Index (tx_meta tx) \<noteq> Some (- 1) \<Longrightarrow> keeps verified_behind (applyBatched env txs)"
  unfolding applyBatched_def by (intro keeps_forM_in keeps_intros behind_batched) simp

lemma ext_value: "wrapM msg (ext m) s = (Ok a, s') \<Longrightarrow> m (s_world s) = (Ok a, s_world s')"
  by (simp add: ext_Ok)

lemma behind_batch_range:
  assumes "bounded_indices env"
  shows "keeps verified_behind (syncTransactionBatchRange env a b)"
  unfolding syncTransactionBatchRange_def
proof (intro keeps_rangeM keeps_bindM_value [where Q = "\<lambda>(_, txs). \<forall>tx \<in> set txs. m_Index (tx_meta tx) \<noteq> Some (- 1)"] keeps_wrapM behind_frames(1))
  fix i p and s s' :: "'a SyncService"
  assume "wrapM ''Cannot get transaction batch'' (ext (c_GetTransactionBatch env i)) s = (Ok p, s')"
  then show "case p of (_, txs) \<Rightarrow> \<forall>tx \<in> set txs. m_Index (tx_meta tx) \<noteq> Some (- 1)"
    using assms ext_value by (cases p) (fastforce simp: bounded_indices_def)
next
  fix i and p :: "Batch \<times> Transaction list" assume "case p of (_, txs) \<Rightarrow> \<forall>tx \<in> set txs. m_Index (tx_meta tx) \<noteq> Some (- 1)"
  then show "keeps verified_behind (case p of (_, txs) \<Rightarrow>
     seqM (forM txs (\<lambda>tx. bindM (verifyTx env tx) (\<lambda>verified.
       if verified then wrapM ''cannot apply batched transaction'' (applyBatchedTransaction env (Some tx)) else retM ())))
     (SetLatestBatchIndex (Some i)))"
    by (cases p) (auto intro!: keeps_intros keeps_forM_in keeps_verifyTx behind_batched)
qed

lemma behind_delivered:
  assumes "\<forall>w txs w'. m w = (Ok txs, w') \<longrightarrow> (\<forall>tx \<in> set txs. m_Index (tx_meta tx) \<noteq> Some (- 1))"
  shows "keeps verified_behind (bindM (wrapM msg (ext m)) (\<lambda>txs. seqM (applyBatched env txs) (SetLatestEigenBatchIndex (Some i))))"
proof (rule keeps_bindM_value [where Q = "\<lambda>txs. \<forall>tx \<in> set txs. m_Index (tx_meta tx) \<noteq> Some (- 1)"])
  show "keeps verified_behind (wrapM msg (ext m))" by (intro keeps_intros)
  show "\<forall>tx \<in> set txs. m_Index (tx_meta tx) \<noteq> Some (- 1)" if "wrapM msg (ext m) s = (Ok txs, s')" for txs s s'
    using assms ext_value [OF that] by blast
qed (intro keeps_intros behind_applyBatched)

lemma behind_eigen_range:
  assumes "bounded_indices env"
  shows "keeps verified_behind (syncEigenTransactionBatchRange env a b)"
  unfolding syncEigenTransactionBatchRange_def using assms
  by (intro keeps_rangeM keeps_bindM keeps_if keeps_case_prod keeps_wrapM keeps_basic behind_frames behind_delivered)
    (auto simp: bounded_indices_def)

lemma behind_verify:
  assumes "bounded_indices env" and "s_backend s \<noteq> BackendL2" and "verified_behind s"
  shows "verified_behind (snd (verify env fuel s))"
proof -
  have "keeps verified_behind (syncBatchesToTip env fuel)" "keeps verified_behind (syncEigenBatchesToTip env fuel)"
    unfolding syncBatchesToTip_def syncEigenBatchesToTip_def syncBatches_def syncEigenBatches_def latestEigen_def
    by (intro keeps_intros keeps_syncToTip keeps_syncRange behind_batch_range [OF assms(1)] behind_eigen_range [OF assms(1)])+
  then have "keeps verified_behind (wrapM m (syncBatchesToTip env fuel))" "keeps verified_behind (wrapM m (syncEigenBatchesToTip env fuel))" for m
    by (simp_all add: keeps_wrapM)
  with assms(2,3) show ?thesis by (simp add: verify_def retM_def keepsD)
qed

lemma configured_verify:
  assumes "s_backend s \<noteq> BackendL2"
  shows "config (snd (verify env fuel s)) = config s"
proof -
  have "keeps (configured c) (syncBatchesToTip env fuel)" "keeps (configured c) (syncEigenBatchesToTip env fuel)" for c
    unfolding syncBatchesToTip_def syncEigenBatchesToTip_def syncBatches_def syncEigenBatches_def latestEigen_def
      syncTransactionBatchRange_def syncEigenTransactionBatchRange_def applyBatched_def
    by (intro keeps_intros keeps_syncToTip keeps_syncRange keeps_verifyTx)+
  then have "keeps (configured (config s)) (wrapM m (syncBatchesToTip env fuel))" "keeps (configured (config s)) (wrapM m (syncEigenBatchesToTip env fuel))" for m
    by (simp_all add: keeps_wrapM)
  from keepsD [OF this(1), of s] keepsD [OF this(2), of s] assms show ?thesis by (simp add: verify_def retM_def configured_def)
qed

text \<open>A run of a verifier: rounds of its loop, between which the world outside changes in any way.\<close>

inductive verifier_run :: "'w outside \<Rightarrow> 'w SyncService \<Rightarrow> 'w SyncService \<Rightarrow> bool" for env s where
  start: "verifier_run env s s"
| tick: "verifier_run env s t \<Longrightarrow> verifierTick env fuel t = (r, u) \<Longrightarrow> verifier_run env s u"
| outside: "verifier_run env s t \<Longrightarrow> verifier_run env s (t\<lparr>s_world := w\<rparr>)"

lemma verifierTick_state: "snd (verifierTick env fuel s) = snd (verify env fuel s)"
  by (simp add: verifierTick_def bindM_def attemptM_def retM_def case_prod_unfold split: res.split)

lemma verifier_run_invariant:
  assumes "verifier_run env s t" and "s_backend s \<noteq> BackendL2" and "bounded_indices env" and "verified_behind s"
  shows "l1_below s t \<and> verified_behind t \<and> config t = config s"
  using assms(1)
proof induction
  case start
  show ?case using assms(4) by (simp add: l1ctx.below_refl)
next
  case (tick t fuel r u)
  then have t: "s_backend t \<noteq> BackendL2" using assms(2) by (simp add: config_def)
  have u: "u = snd (verify env fuel t)" using tick(2) verifierTick_state [of env fuel t] by simp
  then have "l1_below t u" by (simp add: verify_climbs [OF t])
  then have "l1_below s u" using tick.IH l1ctx.below_trans by blast
  moreover have "verified_behind u" unfolding u by (rule behind_verify [OF assms(3) t]) (use tick.IH in simp)
  moreover have "config u = config s" using configured_verify [OF t] u tick.IH by simp
  ultimately show ?case by simp
next
  case (outside t w)
  then show ?case by (simp add: l1_below_def l1_floor_def verified_behind_def index_obs config_def cong: option.case_cong)
qed


definition batch_env :: "unit outside" where
  "batch_env = sample_env\<lparr>c_GetLatestTransactionBatchIndex := retM (Some 0),
     c_GetTransactionBatch := \<lambda>_. retM (sample_batch, [sample_tx]),
     c_GetStateRoot := \<lambda>i _. retM \<lparr>sr_Index = i, sr_BatchIndex = 0, sr_Value = ''root''\<rparr>, x_applyTx := \<lambda>_. retM ''root''\<rparr>"

lemma batch_tick_run: "verifier_run batch_env sample_service (snd (verifierTick batch_env 1 sample_service))"
  by (rule verifier_run.tick [OF verifier_run.start, where fuel = 1 and r = "fst (verifierTick batch_env 1 sample_service)"]) simp

lemma batch_tick_effect:
  "s_blockNumber (snd (verifierTick batch_env 1 sample_service)) = 7 \<and>
   GetLatestVerifiedIndex (snd (verifierTick batch_env 1 sample_service)) = Some 0"
  by code_simp


section \<open>Checking a batched transaction\<close>


lemma batch_verified: "fst (verifyTx batch_env sample_tx sample_service) = Ok True"
  by code_simp


section \<open>Restarting\<close>

lemma restart_no_block:
  assumes "GetLatestIndex s = Some 0" and "\<not> (s_verifier s \<and> s_backend s = BackendL1)"
    and "x_GetBlockByNumber env 1 (s_world s) = (Ok None, w)" and "x_CurrentBlock env w = (Ok (Some genesis), w')"
    and "blk_Number genesis = 0" and "blk_Transactions genesis = []"
  shows "\<exists>p s'. initContext env h s = (Panic p, s')"
  using assms by (auto simp: initContext_def seqM_def bindM_def getsM_def retM_def ext_def liftR_def panicM_def big_Uint64_def
      SetLatestIndex_def Let_def)

text \<open>C35: a sequencer whose very first transaction is rejected by the miner cannot be restarted: the
  rejection leaves index 0 in the database although no block was added, and start-up on that database,
  with the genesis block as the only block, panics.\<close>

theorem first_rejection_blocks_restart:
  assumes "applyTransactionToTip env (Some tx) s = (Fail e, s1)" and "tipGuard tx"
    and "GetLatestIndex s = None" and "m_Index (tx_meta tx) = None"
    and "s_db s2 = s_db s1" and "\<not> s_verifier s2"
    and "x_GetBlockByNumber env 1 (s_world s2) = (Ok None, w)" and "x_CurrentBlock env w = (Ok (Some genesis), w')"
    and "blk_Number genesis = 0" and "blk_Transactions genesis = []"
  shows "\<exists>p s3. initializeLatestL1 env fuel h s2 = (Panic p, s3)"
proof -
  have "GetLatestIndex s1 = Some 0"
    using tip_Fail_effect [OF assms(1,2)] assms(3,4) by (simp add: tipIndex_def GetNextIndex_def)
  then have "GetLatestIndex s2 = Some 0" using assms(5) by (simp add: GetLatestIndex_def)
  from restart_no_block [OF this _ assms(7-10), of h] assms(6) obtain p s3 where "initContext env h s2 = (Panic p, s3)" by blast
  then show ?thesis by (simp add: initializeLatestL1_def seqM_def bindM_def)
qed

definition rejecting_env :: "unit outside" where
  "rejecting_env = sample_env\<lparr>x_mine := \<lambda>_. failM io_EOF, x_CurrentBlock := retM (Some \<lparr>blk_Number = 0, blk_Transactions = []\<rparr>)\<rparr>"

lemma first_rejected: "fst (applyTransactionToTip rejecting_env (Some priced_tx) open_service) = Fail io_EOF"
  by code_simp

theorem first_rejection_blocks_restart_witness:
  "\<exists>p s3. initializeLatestL1 rejecting_env 0 None (snd (applyTransactionToTip rejecting_env (Some priced_tx) open_service)) = (Panic p, s3)"
proof (rule first_rejection_blocks_restart [where genesis = "\<lparr>blk_Number = 0, blk_Transactions = []\<rparr>" and w = "()" and w' = "()"])
  show "applyTransactionToTip rejecting_env (Some priced_tx) open_service =
      (Fail io_EOF, snd (applyTransactionToTip rejecting_env (Some priced_tx) open_service))"
    using first_rejected by (metis prod.collapse)
  show "\<not> s_verifier (snd (applyTransactionToTip rejecting_env (Some priced_tx) open_service))" by code_simp
  show "GetLatestIndex open_service = None" by code_simp
qed (simp_all add: tipGuard_def priced_tx_def NewTransaction_def newTransaction_def NewTransactionMeta_def tx_QueueOrigin_def
    QueueOriginSequencer_def QueueOriginL1ToL2_def rejecting_env_def sample_env_def retM_def)

end
