(* ===== verification/Trie_Encoding.thy ===== *)
theory Trie_Encoding
  imports Go_Prelude
begin

text \<open>
  The three encodings of trie keys (\<open>l2geth/trie/encoding.go\<close>): the key bytes, one byte per
  nibble with an optional terminator 16, and the compact form with a flag nibble that is stored on disk.
\<close>

unbundle bit_operations_syntax

section \<open>Encodings\<close>

definition hasTerm :: "byte list \<Rightarrow> bool" where
  "hasTerm s \<longleftrightarrow> 0 < length s \<and> s ! (length s - 1) = 16"

definition keybytesToHex :: "byte list \<Rightarrow> byte list" where
  "keybytesToHex str = concat (map (\<lambda>b. [b div 16, b mod 16]) str) @ [16]"

text \<open>Two nibbles per byte; with an odd number of nibbles the last read is out of range.\<close>

fun decodeNibbles :: "byte list \<Rightarrow> byte list res" where
  "decodeNibbles [] = Ok []"
| "decodeNibbles [n] = Panic ''index out of range''"
| "decodeNibbles (n # m # ns) = bindR (decodeNibbles ns) (\<lambda>bs. Ok ((push_bit 4 n OR m) # bs))"

definition hexToCompact :: "byte list \<Rightarrow> byte list res" where
  "hexToCompact hex =
     (let terminator = (if hasTerm hex then 1 else 0) :: byte;
          hex = (if hasTerm hex then take (length hex - 1) hex else hex);
          flag = push_bit 5 terminator in
      if odd (length hex)
      then bindR (decodeNibbles (tl hex)) (\<lambda>bs. Ok ((flag OR push_bit 4 1 OR hd hex) # bs))
      else bindR (decodeNibbles hex) (\<lambda>bs. Ok (flag # bs)))"

definition compactToHex :: "byte list \<Rightarrow> byte list" where
  "compactToHex compact =
     (if compact = [] then compact
      else
        let base = keybytesToHex compact;
            base = (if base ! 0 < 2 then take (length base - 1) base else base);
            chop = 2 - (base ! 0 AND 1)
        in drop (unat chop) base)"

definition hexToKeybytes :: "byte list \<Rightarrow> byte list res" where
  "hexToKeybytes hex =
     (let hex = (if hasTerm hex then take (length hex - 1) hex else hex) in
      if odd (length hex) then Panic ''can't convert hex key of odd length''
      else decodeNibbles hex)"

fun prefixLen :: "byte list \<Rightarrow> byte list \<Rightarrow> nat" where
  "prefixLen (x # a) (y # b) = (if x \<noteq> y then 0 else Suc (prefixLen a b))"
| "prefixLen _ _ = 0"

section \<open>Nibbles\<close>

definition nibbles :: "byte list \<Rightarrow> bool" where
  "nibbles ns \<longleftrightarrow> (\<forall>n \<in> set ns. n < 16)"

lemma nibbles_simps [simp]:
  "nibbles []" "nibbles (n # ns) \<longleftrightarrow> n < 16 \<and> nibbles ns" "nibbles (ns @ ms) \<longleftrightarrow> nibbles ns \<and> nibbles ms"
  by (auto simp: nibbles_def)

lemma div_nibble: "b div 16 = drop_bit 4 (b :: byte)" and mod_nibble: "b mod 16 = take_bit 4 (b :: byte)"
  by (simp_all add: drop_bit_eq_div take_bit_eq_mod)

lemma nibble_split: "push_bit 4 (b div 16) OR b mod 16 = (b :: byte)"
  unfolding div_nibble mod_nibble by (rule bit_word_eqI) (auto simp: bit_simps not_less)

lemma nibble_take: "n < (16 :: byte) \<Longrightarrow> take_bit 4 n = n"
  by (simp add: take_bit_eq_mod mod_word_less)

lemma nibble_join:
  assumes "n < 16" and "m < (16 :: byte)"
  shows "(push_bit 4 n OR m) div 16 = n" and "(push_bit 4 n OR m) mod 16 = m"
proof -
  have n: "bit n i \<Longrightarrow> i < 4" and m: "bit m i \<Longrightarrow> i < 4" for i
    using nibble_take [OF assms(1)] nibble_take [OF assms(2)] by (metis bit_take_bit_iff)+
  show "(push_bit 4 n OR m) div 16 = n"
    unfolding div_nibble using n m by (intro bit_word_eqI) (fastforce simp: bit_simps)
  show "(push_bit 4 n OR m) mod 16 = m"
    unfolding mod_nibble using m by (intro bit_word_eqI) (auto simp: bit_simps)
qed

lemma div_mod_nibble: "(b :: byte) div 16 < 16" "(b :: byte) mod 16 < 16"
proof -
  have "unat b < 2 ^ LENGTH(8)" by (rule unsigned_less)
  then show "b div 16 < 16" "b mod 16 < 16" by (simp_all add: word_less_nat_alt unat_div unat_mod less_mult_imp_div_less)
qed

definition unpack :: "byte list \<Rightarrow> byte list" where
  "unpack str = concat (map (\<lambda>b. [b div 16, b mod 16]) str)"

lemma unpack_simps [simp]: "unpack [] = []" "unpack (b # bs) = b div 16 # b mod 16 # unpack bs"
  by (simp_all add: unpack_def)

lemma keybytesToHex_unpack: "keybytesToHex str = unpack str @ [16]"
  by (simp add: keybytesToHex_def unpack_def)

lemma nibbles_unpack [simp]: "nibbles (unpack str)"
  by (induction str) (simp_all add: div_mod_nibble)

lemma length_unpack [simp]: "length (unpack str) = 2 * length str"
  by (induction str) simp_all

lemma decodeNibbles_unpack: "decodeNibbles (unpack str) = Ok str"
  by (induction str) (simp_all add: nibble_split)

lemma unpack_decodeNibbles: "nibbles ns \<Longrightarrow> even (length ns) \<Longrightarrow> \<exists>bs. decodeNibbles ns = Ok bs \<and> unpack bs = ns"
  by (induction ns rule: decodeNibbles.induct) (auto simp: nibble_join)

lemma unpack_inj: "unpack a = unpack b \<longleftrightarrow> a = b"
  using decodeNibbles_unpack by (metis res.inject(1))

text \<open>A key with its terminator, and none before it.\<close>

definition term_key :: "byte list \<Rightarrow> bool" where
  "term_key k \<longleftrightarrow> k \<noteq> [] \<and> last k = 16 \<and> nibbles (butlast k)"

lemma term_keyE:
  assumes "term_key k"
  obtains ns where "k = ns @ [16]" and "nibbles ns"
  using assms by (metis append_butlast_last_id term_key_def)

lemma term_key_snoc [simp]: "term_key (ns @ [16]) \<longleftrightarrow> nibbles ns"
  by (simp add: term_key_def)

lemma term_key_Cons: "term_key (n # k) \<longleftrightarrow> (if k = [] then n = 16 else n < 16 \<and> term_key k)"
  by (auto simp: term_key_def)

lemma hex_term_key: "term_key (keybytesToHex str)"
  by (simp add: keybytesToHex_unpack)

lemma keybytesToHex_inj: "keybytesToHex a = keybytesToHex b \<longleftrightarrow> a = b"
  by (simp add: keybytesToHex_unpack unpack_inj)

lemma hasTerm_snoc [simp]: "hasTerm (ns @ [m]) \<longleftrightarrow> m = 16"
  by (simp add: hasTerm_def nth_append)

lemma hasTerm_nibbles: "nibbles ns \<Longrightarrow> \<not> hasTerm ns"
  by (cases ns rule: rev_cases) (auto simp: hasTerm_def)

section \<open>Round trips\<close>

lemma compactToHex_flag:
  assumes "m < (16 :: byte)"
  shows "compactToHex ((push_bit 4 0 OR m) # bs) = unpack bs" "compactToHex ((push_bit 4 1 OR m) # bs) = m # unpack bs"
    "compactToHex ((push_bit 4 2 OR m) # bs) = unpack bs @ [16]" "compactToHex ((push_bit 4 3 OR m) # bs) = m # unpack bs @ [16]"
proof -
  have flag: "keybytesToHex ((push_bit 4 f OR m) # bs) = f # m # unpack bs @ [16]" if "f < 16" for f
    using nibble_join [OF that assms] by (simp add: keybytesToHex_unpack)
  show "compactToHex ((push_bit 4 0 OR m) # bs) = unpack bs" "compactToHex ((push_bit 4 1 OR m) # bs) = m # unpack bs"
    "compactToHex ((push_bit 4 2 OR m) # bs) = unpack bs @ [16]" "compactToHex ((push_bit 4 3 OR m) # bs) = m # unpack bs @ [16]"
    using flag [of 0] flag [of 1] flag [of 2] flag [of 3] by (simp_all add: compactToHex_def Let_def)
qed

text \<open>the compact encoding of a hex key loses nothing: every key of nibbles, with a terminator or without,
  of even or odd length, is encoded without a panic in half its length plus one byte, and decoding the
  result gives the key back.\<close>

theorem compact_roundtrip:
  assumes "nibbles ns" and "t = [] \<or> t = [16]"
  shows "\<exists>c. hexToCompact (ns @ t) = Ok c \<and> length c = length ns div 2 + 1 \<and> compactToHex c = ns @ t"
proof -
  have strip: "(if hasTerm (ns @ t) then take (length (ns @ t) - 1) (ns @ t) else ns @ t) = ns"
    and flag: "(if hasTerm (ns @ t) then 1 else 0) = (if t = [] then 0 else 1 :: byte)"
    using assms hasTerm_nibbles by auto
  show ?thesis
  proof (cases "even (length ns)")
    case True
    with assms(1) obtain bs where "decodeNibbles ns = Ok bs" and "unpack bs = ns" using unpack_decodeNibbles by blast
    then show ?thesis using True compactToHex_flag(1,3) [of 0 bs] assms(2) length_unpack [of bs]
      unfolding hexToCompact_def strip flag Let_def by auto
  next
    case False
    then obtain m ms where ms: "ns = m # ms" by (cases ns) auto
    with False assms(1) obtain bs where "decodeNibbles ms = Ok bs" and "unpack bs = ms" and "m < 16"
      using unpack_decodeNibbles [of ms] by auto
    then show ?thesis using False ms compactToHex_flag(2,4) [of m bs] assms(2) length_unpack [of bs]
      unfolding hexToCompact_def strip flag Let_def by (auto simp flip: or.assoc)
  qed
qed

theorem compact_roundtrip_witness:
  "\<exists>c. hexToCompact ([1, 2, 3] @ [16]) = Ok c \<and> length c = Suc (Suc 0) \<and> compactToHex c = [1, 2, 3, 16]"
  using compact_roundtrip [of "[1, 2, 3]" "[16]"] by simp

lemma hex_bytes_roundtrip: "hexToKeybytes (keybytesToHex str) = Ok str"
  by (simp add: hexToKeybytes_def keybytesToHex_unpack decodeNibbles_unpack)

section \<open>Common prefixes\<close>

lemma prefixLen_le: "prefixLen a b \<le> length a" "prefixLen a b \<le> length b"
  by (induction a b rule: prefixLen.induct) auto

lemma prefixLen_take: "take (prefixLen a b) a = take (prefixLen a b) b"
  by (induction a b rule: prefixLen.induct) auto

lemma prefixLen_differ: "prefixLen a b < length a \<Longrightarrow> prefixLen a b < length b \<Longrightarrow> a ! prefixLen a b \<noteq> b ! prefixLen a b"
  by (induction a b rule: prefixLen.induct) (auto split: if_splits)

lemma prefixLen_full: "prefixLen a b = length b \<longleftrightarrow> (\<exists>c. a = b @ c)"
proof
  assume "prefixLen a b = length b"
  then have "take (length b) a = b" using prefixLen_take [of a b] by simp
  then show "\<exists>c. a = b @ c" by (metis append_take_drop_id)
next
  assume "\<exists>c. a = b @ c"
  then obtain c where "a = b @ c" ..
  moreover have "prefixLen (b @ c) b = length b" by (induction b) simp_all
  ultimately show "prefixLen a b = length b" by simp
qed

end
