(* ===== verification/Trie.thy ===== *)
theory Trie
  imports Trie_Encoding
begin

text \<open>
  The Merkle Patricia trie (\<open>l2geth/trie/trie.go\<close>, node types of \<open>l2geth/trie/node.go\<close>): lookup,
  insertion and deletion with nodes loaded from the database on the way. The database is a
  function from a hash to the decoded node. Nothing bounds the recursion when the database is
  cyclic, so the operations are partial functions and \<open>None\<close> means that a call does not return.
  The path that is only reported in a \<open>MissingNodeError\<close> is left out.
\<close>

section \<open>Nodes\<close>

record nodeFlag =
  fl_hash :: "byte list option"
  fl_dirty :: bool

datatype node =
    NilNode
  | ValueNode "byte list"
  | HashNode "byte list"
  | ShortNode "byte list" node nodeFlag
  | FullNode "node list" nodeFlag

type_synonym nodeDb = "byte list \<Rightarrow> node option"

definition newFlag :: nodeFlag where
  "newFlag = \<lparr>fl_hash = None, fl_dirty = True\<rparr>"

definition BytesToHash :: "byte list \<Rightarrow> byte list" where
  "BytesToHash b = (let b = drop (length b - 32) b in replicate (32 - length b) 0 @ b)"

definition MissingNodeError :: goerr where
  "MissingNodeError = Sentinel ''MissingNodeError''"

definition resolveHash :: "nodeDb \<Rightarrow> byte list \<Rightarrow> node res" where
  "resolveHash db n = (case db (BytesToHash n) of Some nd \<Rightarrow> Ok nd | None \<Rightarrow> Fail MissingNodeError)"

definition resolve :: "nodeDb \<Rightarrow> node \<Rightarrow> node res" where
  "resolve db n = (case n of HashNode h \<Rightarrow> resolveHash db h | _ \<Rightarrow> Ok n)"

section \<open>Calls that may not return\<close>

definition andThen :: "'a res option \<Rightarrow> ('a \<Rightarrow> 'b res option) \<Rightarrow> 'b res option" where
  "andThen m f = Option.bind m (\<lambda>r. case r of Ok a \<Rightarrow> f a | Fail e \<Rightarrow> Some (Fail e) | Panic p \<Rightarrow> Some (Panic p) | Diverge \<Rightarrow> Some Diverge)"

lemma andThen_simps [simp]:
  "andThen (Some (Ok a)) f = f a" "andThen (Some (Fail e)) f = Some (Fail e)" "andThen (Some (Panic p)) f = Some (Panic p)"
  "andThen None f = None"
  by (simp_all add: andThen_def)

lemma andThen_mono [partial_function_mono]:
  assumes "monotone (fun_ord option_ord) option_ord B" and "\<And>y. monotone (fun_ord option_ord) option_ord (\<lambda>f. C y f)"
  shows "monotone (fun_ord option_ord) option_ord (\<lambda>f. andThen (B f) (\<lambda>y. C y f))"
  unfolding andThen_def
proof (rule Partial_Function.bind_mono [OF assms(1)])
  fix r
  show "monotone (fun_ord option_ord) option_ord
    (\<lambda>f. case r of Ok a \<Rightarrow> C a f | Fail e \<Rightarrow> Some (Fail e) | Panic p \<Rightarrow> Some (Panic p) | Diverge \<Rightarrow> Some Diverge)"
    by (cases r) (simp_all add: assms(2) option.const_mono)
qed

section \<open>Lookup, insertion, deletion\<close>

partial_function (option) tryGet :: "nodeDb \<Rightarrow> node \<Rightarrow> byte list \<Rightarrow> nat \<Rightarrow> (byte list option \<times> node \<times> bool) res option" where
  [code]: "tryGet db origNode key pos = (case origNode of
       NilNode \<Rightarrow> Some (Ok (None, NilNode, False))
     | ValueNode n \<Rightarrow> Some (Ok (Some n, origNode, False))
     | ShortNode nKey nVal flags \<Rightarrow>
         if length key < pos + length nKey \<or> nKey \<noteq> take (length nKey) (drop pos key)
         then Some (Ok (None, origNode, False))
         else andThen (tryGet db nVal key (pos + length nKey)) (\<lambda>(value, newnode, didResolve).
           Some (Ok (value, if didResolve then ShortNode nKey newnode flags else origNode, didResolve)))
     | FullNode children flags \<Rightarrow>
         if length key \<le> pos \<or> length children \<le> unat (key ! pos) then Some (Panic ''index out of range'')
         else andThen (tryGet db (children ! unat (key ! pos)) key (pos + 1)) (\<lambda>(value, newnode, didResolve).
           Some (Ok (value, if didResolve then FullNode (children[unat (key ! pos) := newnode]) flags else origNode, didResolve)))
     | HashNode n \<Rightarrow>
         andThen (Some (resolveHash db n)) (\<lambda>child.
         andThen (tryGet db child key pos) (\<lambda>(value, newnode, _). Some (Ok (value, newnode, True)))))"

partial_function (option) insert_node :: "nodeDb \<Rightarrow> node \<Rightarrow> byte list \<Rightarrow> node \<Rightarrow> (bool \<times> node) res option" where
  [code]: "insert_node db n key value =
     (if key = [] then Some (case n of
          ValueNode v \<Rightarrow> (case value of ValueNode w \<Rightarrow> Ok (v \<noteq> w, value) | _ \<Rightarrow> Panic ''interface conversion'')
        | _ \<Rightarrow> Ok (True, value))
      else case n of
        ShortNode nKey nVal flags \<Rightarrow>
          let matchlen = prefixLen key nKey in
          if matchlen = length nKey then
            andThen (insert_node db nVal (drop matchlen key) value) (\<lambda>(dirty, nn).
              Some (Ok (if dirty then (True, ShortNode nKey nn newFlag) else (False, n))))
          else
            andThen (insert_node db NilNode (drop (matchlen + 1) nKey) nVal) (\<lambda>(_, old).
            if 17 \<le> unat (nKey ! matchlen) \<or> length key \<le> matchlen then Some (Panic ''index out of range'')
            else
              andThen (insert_node db NilNode (drop (matchlen + 1) key) value) (\<lambda>(_, new).
              if 17 \<le> unat (key ! matchlen) then Some (Panic ''index out of range'')
              else
                let branch = FullNode ((replicate 17 NilNode)[unat (nKey ! matchlen) := old, unat (key ! matchlen) := new]) newFlag in
                Some (Ok (True, if matchlen = 0 then branch else ShortNode (take matchlen key) branch newFlag))))
      | FullNode children flags \<Rightarrow>
          if length children \<le> unat (hd key) then Some (Panic ''index out of range'')
          else andThen (insert_node db (children ! unat (hd key)) (tl key) value) (\<lambda>(dirty, nn).
            Some (Ok (if dirty then (True, FullNode (children[unat (hd key) := nn]) newFlag) else (False, n))))
      | NilNode \<Rightarrow> Some (Ok (True, ShortNode key value newFlag))
      | HashNode h \<Rightarrow>
          andThen (Some (resolveHash db h)) (\<lambda>rn.
          andThen (insert_node db rn key value) (\<lambda>(dirty, nn). Some (Ok (if dirty then (True, nn) else (False, rn)))))
      | ValueNode v \<Rightarrow> Some (Panic ''invalid node''))"

text \<open>The loop over the children: \<open>-1\<close> for none, the index of the only one, \<open>-2\<close> for two or more.\<close>

fun onlyChild :: "int \<Rightarrow> nat \<Rightarrow> node list \<Rightarrow> int" where
  "onlyChild pos i [] = pos"
| "onlyChild pos i (cld # clds) =
     (if cld \<noteq> NilNode then (if pos = - 1 then onlyChild (int i) (i + 1) clds else - 2)
      else onlyChild pos (i + 1) clds)"

text \<open>A full node that is left with one child becomes a short node.\<close>

definition collapse :: "nodeDb \<Rightarrow> node list \<Rightarrow> int \<Rightarrow> (bool \<times> node) res option" where
  "collapse db children pos =
     (let one = ShortNode [of_int pos] (children ! nat pos) newFlag in
      if pos \<noteq> 16 then
        andThen (Some (resolve db (children ! nat pos))) (\<lambda>cnode. Some (Ok (True, case cnode of
            ShortNode cKey cVal _ \<Rightarrow> ShortNode (of_int pos # cKey) cVal newFlag
          | _ \<Rightarrow> one)))
      else Some (Ok (True, one)))"

partial_function (option) delete_node :: "nodeDb \<Rightarrow> node \<Rightarrow> byte list \<Rightarrow> (bool \<times> node) res option" where
  [code]: "delete_node db n key = (case n of
       ShortNode nKey nVal flags \<Rightarrow>
         let matchlen = prefixLen key nKey in
         if matchlen < length nKey then Some (Ok (False, n))
         else if matchlen = length key then Some (Ok (True, NilNode))
         else andThen (delete_node db nVal (drop (length nKey) key)) (\<lambda>(dirty, child).
           Some (Ok (if \<not> dirty then (False, n) else (True, case child of
               ShortNode cKey cVal _ \<Rightarrow> ShortNode (nKey @ cKey) cVal newFlag
             | _ \<Rightarrow> ShortNode nKey child newFlag))))
     | FullNode children flags \<Rightarrow>
         if key = [] \<or> length children \<le> unat (hd key) then Some (Panic ''index out of range'')
         else andThen (delete_node db (children ! unat (hd key)) (tl key)) (\<lambda>(dirty, nn).
           if \<not> dirty then Some (Ok (False, n))
           else
             let children = children[unat (hd key) := nn];
                 pos = onlyChild (- 1) 0 children in
             if pos \<ge> 0 then collapse db children pos
             else Some (Ok (True, FullNode children newFlag)))
     | ValueNode v \<Rightarrow> Some (Ok (True, NilNode))
     | NilNode \<Rightarrow> Some (Ok (False, NilNode))
     | HashNode h \<Rightarrow>
         andThen (Some (resolveHash db h)) (\<lambda>rn.
         andThen (delete_node db rn key) (\<lambda>(dirty, nn). Some (Ok (if dirty then (True, nn) else (False, rn))))))"

section \<open>The trie\<close>

record Trie =
  t_db :: nodeDb
  t_root :: node

definition emptyRoot :: "byte list" where
  "emptyRoot = map of_nat [0x56, 0xe8, 0x1f, 0x17, 0x1b, 0xcc, 0x55, 0xa6, 0xff, 0x83, 0x45, 0xe6, 0x92, 0xc0, 0xf8, 0x6e,
     0x5b, 0x48, 0xe0, 0x1b, 0x99, 0x6c, 0xad, 0xc0, 0x01, 0x62, 0x2f, 0xb5, 0xe3, 0x63, 0xb4, 0x21]"

definition trie_New :: "byte list \<Rightarrow> nodeDb \<Rightarrow> Trie res" where
  "trie_New root db =
     (if root \<noteq> replicate 32 0 \<and> root \<noteq> emptyRoot
      then bindR (resolveHash db root) (\<lambda>rootnode. Ok \<lparr>t_db = db, t_root = rootnode\<rparr>)
      else Ok \<lparr>t_db = db, t_root = NilNode\<rparr>)"

definition TryGet :: "byte list \<Rightarrow> Trie \<Rightarrow> (byte list option res \<times> Trie) option" where
  "TryGet key t = map_option (\<lambda>r. case r of
       Ok (value, newroot, didResolve) \<Rightarrow> (Ok value, if didResolve then t\<lparr>t_root := newroot\<rparr> else t)
     | Fail e \<Rightarrow> (Fail e, t)
     | Panic p \<Rightarrow> (Panic p, t)
     | Diverge \<Rightarrow> (Diverge, t)) (tryGet (t_db t) (t_root t) (keybytesToHex key) 0)"

definition setRoot :: "(bool \<times> node) res option \<Rightarrow> Trie \<Rightarrow> (unit res \<times> Trie) option" where
  "setRoot m t = map_option (\<lambda>r. case r of
       Ok (_, n) \<Rightarrow> (Ok (), t\<lparr>t_root := n\<rparr>)
     | Fail e \<Rightarrow> (Fail e, t)
     | Panic p \<Rightarrow> (Panic p, t)
     | Diverge \<Rightarrow> (Diverge, t)) m"

definition TryUpdate :: "byte list \<Rightarrow> byte list \<Rightarrow> Trie \<Rightarrow> (unit res \<times> Trie) option" where
  "TryUpdate key value t = setRoot (insert_node (t_db t) (t_root t) (keybytesToHex key) (ValueNode value)) t"

definition TryDelete :: "byte list \<Rightarrow> Trie \<Rightarrow> (unit res \<times> Trie) option" where
  "TryDelete key t = setRoot (delete_node (t_db t) (t_root t) (keybytesToHex key)) t"

section \<open>Content and well-formedness\<close>

text \<open>\<open>binds db n k v\<close>: below node \<open>n\<close> the hex key \<open>k\<close> leads to value \<open>v\<close>.\<close>

inductive binds :: "nodeDb \<Rightarrow> node \<Rightarrow> byte list \<Rightarrow> byte list \<Rightarrow> bool" for db where
  binds_value: "binds db (ValueNode v) [] v"
| binds_short: "binds db c k v \<Longrightarrow> binds db (ShortNode nk c fl) (nk @ k) v"
| binds_full: "unat i < length cs \<Longrightarrow> binds db (cs ! unat i) k v \<Longrightarrow> binds db (FullNode cs fl) (i # k) v"
| binds_hash: "db (BytesToHash h) = Some n \<Longrightarrow> binds db n k v \<Longrightarrow> binds db (HashNode h) k v"

inductive_simps binds_simps [simp]:
  "binds db NilNode k v" "binds db (ValueNode w) k v" "binds db (ShortNode nk c fl) k v" "binds db (FullNode cs fl) k v"
  "binds db (HashNode h) k v"

fun isFull :: "nodeDb \<Rightarrow> node \<Rightarrow> bool" where
  "isFull db (FullNode cs fl) = True"
| "isFull db (HashNode h) = (case db (BytesToHash h) of Some (FullNode cs fl) \<Rightarrow> True | _ \<Rightarrow> False)"
| "isFull db _ = False"

definition nonNil :: "node list \<Rightarrow> nat set" where
  "nonNil cs = {i. i < length cs \<and> cs ! i \<noteq> NilNode}"

text \<open>A short node ends in a value exactly when its key has the terminator, otherwise it leads to a
  full node; a full node has at least two children, the last of which is a value; what a hash
  leads to is in the database and is not again a hash.\<close>

inductive wf_node :: "nodeDb \<Rightarrow> node \<Rightarrow> bool" for db where
  wf_leaf: "term_key k \<Longrightarrow> wf_node db (ShortNode k (ValueNode v) fl)"
| wf_ext: "k \<noteq> [] \<Longrightarrow> nibbles k \<Longrightarrow> wf_node db c \<Longrightarrow> isFull db c \<Longrightarrow> wf_node db (ShortNode k c fl)"
| wf_full: "length cs = 17 \<Longrightarrow> \<forall>i < 16. cs ! i = NilNode \<or> wf_node db (cs ! i) \<Longrightarrow>
    cs ! 16 = NilNode \<or> (\<exists>v. cs ! 16 = ValueNode v) \<Longrightarrow> 2 \<le> card (nonNil cs) \<Longrightarrow> wf_node db (FullNode cs fl)"
| wf_hash: "db (BytesToHash h) = Some n \<Longrightarrow> wf_node db n \<Longrightarrow> \<forall>h'. n \<noteq> HashNode h' \<Longrightarrow> wf_node db (HashNode h)"

inductive_simps wf_simps:
  "wf_node db NilNode" "wf_node db (ValueNode w)" "wf_node db (FullNode cs fl)" "wf_node db (HashNode h)" "wf_node db (ShortNode k c fl)"

lemma wf_not [simp]: "\<not> wf_node db NilNode" "\<not> wf_node db (ValueNode w)"
  by (simp_all add: wf_simps)

definition wf_root :: "nodeDb \<Rightarrow> node \<Rightarrow> bool" where
  "wf_root db n \<longleftrightarrow> n = NilNode \<or> wf_node db n"

section \<open>Helpers\<close>

lemma term_key_prefix: "term_key k \<Longrightarrow> term_key (k @ r) \<Longrightarrow> r = []"
  using last_in_set [of k] by (cases r rule: rev_cases) (auto simp: term_key_def butlast_append nibbles_def)

lemma term_key_ext: "nibbles k \<Longrightarrow> term_key (k @ r) \<longleftrightarrow> term_key r"
  by (induction k) (auto simp: term_key_Cons, (auto simp: term_key_def)[1])

lemma term_key_hd: "term_key k \<Longrightarrow> unat (hd k) < 17"
  by (cases k) (auto simp: term_key_Cons word_less_nat_alt split: if_splits, simp add: term_key_def)

lemma nonNil_update: "i < length cs \<Longrightarrow> c \<noteq> NilNode \<Longrightarrow> nonNil (cs[i := c]) = insert i (nonNil cs)"
  by (auto simp: nonNil_def nth_list_update split: if_splits)

lemma nonNil_remove: "i < length cs \<Longrightarrow> nonNil (cs[i := NilNode]) = nonNil cs - {i}"
  by (auto simp: nonNil_def nth_list_update split: if_splits)

lemma finite_nonNil [simp]: "finite (nonNil cs)"
  by (simp add: nonNil_def)

text \<open>What may stand at index \<open>i\<close> of a full node.\<close>

definition slot :: "nodeDb \<Rightarrow> nat \<Rightarrow> node \<Rightarrow> bool" where
  "slot db i c \<longleftrightarrow> c = NilNode \<or> (if i = 16 then \<exists>v. c = ValueNode v else wf_node db c)"

lemma wf_full_slots: "wf_node db (FullNode cs fl) \<longleftrightarrow> length cs = 17 \<and> (\<forall>i < 17. slot db i (cs ! i)) \<and> 2 \<le> card (nonNil cs)"
proof -
  have "i < 17 \<longleftrightarrow> i < 16 \<or> i = 16" for i :: nat by arith
  then show ?thesis by (auto simp: wf_simps slot_def)
qed

lemma slot_update:
  assumes "wf_node db (FullNode cs fl)" and "i < 17" and "slot db i c" and "c \<noteq> NilNode"
  shows "wf_node db (FullNode (cs[i := c]) fl')"
proof -
  have "card (nonNil cs) \<le> card (insert i (nonNil cs))" by (simp add: card_insert_le)
  with assms show ?thesis by (auto simp: wf_full_slots nth_list_update nonNil_update)
qed

lemma binds_update:
  assumes "unat i < 17" and "length cs = 17"
  shows "binds db (FullNode (cs[unat i := c]) fl) (i # k) v \<longleftrightarrow> binds db c k v"
    and "j \<noteq> i \<Longrightarrow> binds db (FullNode (cs[unat i := c]) fl) (j # k) v \<longleftrightarrow> binds db (FullNode cs fl') (j # k) v"
  using assms by (simp_all add: nth_list_update) (metis word_unat_eq_iff)

lemma binds_update_child:
  assumes "unat i < 17" and "length cs = 17"
    and "\<And>k v. binds db c k v \<longleftrightarrow> (if k = r then R v else binds db (cs ! unat i) k v)"
  shows "binds db (FullNode (cs[unat i := c]) fl) k v \<longleftrightarrow> (if k = i # r then R v else binds db (FullNode cs fl') k v)"
proof (cases k)
  case (Cons h t)
  show ?thesis
  proof (cases "h = i")
    case True
    then show ?thesis using Cons assms by (simp add: binds_update(1) [OF assms(1,2)] del: binds_simps) simp
  next
    case False
    then show ?thesis using Cons binds_update(2) [OF assms(1,2) False] by (simp del: binds_simps)
  qed
qed simp

lemma nonNil_Cons: "nonNil (c # cs) = (if c = NilNode then {} else {0}) \<union> Suc ` nonNil cs"
  by (auto simp: nonNil_def image_iff less_Suc_eq_0_disj)

lemma nonNil_Nil [simp]: "nonNil [] = {}"
  by (simp add: nonNil_def)

lemma onlyChild_rest: "pos \<noteq> - 1 \<Longrightarrow> onlyChild pos i cs = (if nonNil cs = {} then pos else - 2)"
  by (induction cs arbitrary: i) (simp_all add: nonNil_Cons)

lemma onlyChild_one: "onlyChild (- 1) i cs = int p \<Longrightarrow> \<exists>j. p = i + j \<and> nonNil cs = {j}"
proof (induction cs arbitrary: i)
  case (Cons c cs)
  show ?case
  proof (cases "c = NilNode")
    case True
    with Cons.prems have "onlyChild (- 1) (i + 1) cs = int p" by simp
    from Cons.IH [OF this] True show ?thesis by (auto simp: nonNil_Cons)
  next
    case False
    with Cons.prems have "nonNil cs = {}" "p = i" by (simp_all add: onlyChild_rest split: if_splits)
    with False show ?thesis by (auto simp: nonNil_Cons)
  qed
qed simp

lemma onlyChild_many: "onlyChild (- 1) i cs < 0 \<Longrightarrow> nonNil cs \<noteq> {} \<Longrightarrow> 2 \<le> card (nonNil cs)"
proof (induction cs arbitrary: i)
  case (Cons c cs)
  show ?case
  proof (cases "c = NilNode")
    case True
    with Cons show ?thesis by (simp add: nonNil_Cons card_image)
  next
    case False
    with Cons.prems have "nonNil cs \<noteq> {}" by (auto simp: onlyChild_rest split: if_splits)
    then have "card (nonNil cs) \<ge> 1" by (simp add: Suc_leI card_gt_0_iff)
    with False show ?thesis by (simp add: nonNil_Cons card_image)
  qed
qed (simp add: nonNil_def)

section \<open>Lookup\<close>

definition same_content :: "nodeDb \<Rightarrow> node \<Rightarrow> node \<Rightarrow> bool" where
  "same_content db n m \<longleftrightarrow> (\<forall>k v. binds db n k v \<longleftrightarrow> binds db m k v)"

text \<open>What a lookup from position \<open>pos\<close> returns: the value bound to the rest of the key, and a node
  that stands for the same content.\<close>

definition got :: "nodeDb \<Rightarrow> node \<Rightarrow> byte list \<Rightarrow> (byte list option \<times> node \<times> bool) res option \<Rightarrow> bool" where
  "got db n k m \<longleftrightarrow> (\<exists>value n' b. m = Some (Ok (value, n', b)) \<and> (\<forall>v. value = Some v \<longleftrightarrow> binds db n k v) \<and>
     wf_node db n' \<and> same_content db n' n \<and> (isFull db n \<longrightarrow> isFull db n') \<and> (\<not> b \<longrightarrow> n' = n))"

lemma tryGet_leaf:
  assumes "term_key k" and "term_key (drop pos key)"
  shows "got db (ShortNode k (ValueNode v) fl) (drop pos key) (tryGet db (ShortNode k (ValueNode v) fl) key pos)"
proof (cases "\<exists>r. drop pos key = k @ r")
  case True
  have pos: "pos < length key" using assms(2) by (auto simp: term_key_def)
  from True obtain r where r: "drop pos key = k @ r" ..
  with assms have "r = []" using term_key_prefix by metis
  with r have "length k = length key - pos" using length_drop [of pos key] by simp
  with r \<open>r = []\<close> pos assms(1) show ?thesis
    by (auto simp: got_def tryGet.simps [of db "ShortNode _ _ _"] tryGet.simps [of db "ValueNode _"] same_content_def wf_leaf)
next
  case False
  then have "k \<noteq> take (length k) (drop pos key)" by (metis append_take_drop_id)
  with False assms(1) show ?thesis
    by (auto simp: got_def tryGet.simps [of db "ShortNode _ _ _"] same_content_def wf_leaf)
qed

lemma tryGet_ext:
  assumes "k \<noteq> []" and "nibbles k" and "wf_node db c" and "isFull db c" and "term_key (drop pos key)"
    and "\<And>pos. term_key (drop pos key) \<Longrightarrow> got db c (drop pos key) (tryGet db c key pos)"
  shows "got db (ShortNode k c fl) (drop pos key) (tryGet db (ShortNode k c fl) key pos)"
proof (cases "\<exists>r. drop pos key = k @ r")
  case True
  then obtain r where r: "drop pos key = k @ r" ..
  have len: "pos + length k \<le> length key" using arg_cong [OF r, of length] assms(1) by (cases "pos \<le> length key") auto
  have rest: "drop (pos + length k) key = r" using r by (metis add.commute append_eq_conv_conj drop_drop)
  then have "term_key (drop (pos + length k) key)" using assms(2,5) r term_key_ext by metis
  from assms(6) [OF this] show ?thesis
    using r rest len assms(1-4)
    by (auto simp: got_def tryGet.simps [of db "ShortNode _ _ _"] same_content_def wf_ext)
next
  case False
  then have "k \<noteq> take (length k) (drop pos key)" by (metis append_take_drop_id)
  with False assms(1-4) show ?thesis
    by (auto simp: got_def tryGet.simps [of db "ShortNode _ _ _"] same_content_def wf_ext)
qed

lemma tryGet_full:
  assumes wf: "wf_node db (FullNode cs fl)" and key: "term_key (drop pos key)"
    and IH: "\<And>i pos. i < 16 \<Longrightarrow> cs ! i \<noteq> NilNode \<Longrightarrow> term_key (drop pos key) \<Longrightarrow> got db (cs ! i) (drop pos key) (tryGet db (cs ! i) key pos)"
  shows "got db (FullNode cs fl) (drop pos key) (tryGet db (FullNode cs fl) key pos)"
proof -
  obtain i r where ir: "drop pos key = i # r" using key by (cases "drop pos key") (auto simp: term_key_def)
  then have pos: "pos < length key" "key ! pos = i" "drop (pos + 1) key = r"
    by (metis drop_eq_Nil list.distinct(1) not_le, metis nth_via_drop, metis drop_drop drop_Suc_Cons drop0 One_nat_def add.commute)
  have i: "unat i < 17" using term_key_hd [OF key] ir by simp
  have len: "length cs = 17" and slot: "slot db (unat i) (cs ! unat i)" using wf i by (auto simp: wf_full_slots)
  have "\<not> length key \<le> pos" "\<not> 17 \<le> unat i" using pos(1) i by simp_all
  note unfold = this tryGet.simps [of db "FullNode cs fl"] pos(2,3) ir len same_content_def wf i
  show ?thesis
  proof (cases "cs ! unat i = NilNode \<or> (\<exists>v. cs ! unat i = ValueNode v)")
    case True
    then have "cs ! unat i = ValueNode v \<Longrightarrow> r = []" for v
      using slot key ir by (auto simp: slot_def term_key_Cons word_less_nat_alt split: if_splits)
    with True show ?thesis
      by (auto simp: got_def unfold tryGet.simps [of db NilNode] tryGet.simps [of db "ValueNode _"])
  next
    case False
    then have lt: "unat i < 16" using slot i by (auto simp: slot_def split: if_splits)
    then have "term_key (drop (pos + 1) key)" using key ir pos(3) by (auto simp: term_key_Cons split: if_splits)
    then have "got db (cs ! unat i) r (tryGet db (cs ! unat i) key (pos + 1))" using IH [OF lt] False pos(3) by metis
    then obtain val n' b where g: "tryGet db (cs ! unat i) key (pos + 1) = Some (Ok (val, n', b))"
      "\<forall>v. val = Some v \<longleftrightarrow> binds db (cs ! unat i) r v" "wf_node db n'" "same_content db n' (cs ! unat i)" "\<not> b \<longrightarrow> n' = cs ! unat i"
      by (auto simp: got_def)
    have "wf_node db (FullNode (cs[unat i := n']) fl)"
      by (rule slot_update [OF wf i]) (use g(3) lt in \<open>auto simp: slot_def\<close>)
    moreover have "same_content db (FullNode (cs[unat i := n']) fl) (FullNode cs fl)"
      using g(4) i len by (auto simp: same_content_def nth_list_update word_unat_eq_iff)
    ultimately show ?thesis using g unfolding got_def by (cases b) (auto simp: unfold)
  qed
qed

lemma tryGet_wf:
  assumes "wf_node db n" and "term_key (drop pos key)"
  shows "got db n (drop pos key) (tryGet db n key pos)"
  using assms
proof (induction arbitrary: pos rule: wf_node.induct)
  case (wf_full cs fl)
  have wf: "wf_node db (FullNode cs fl)" using wf_full(1-4) by (intro wf_node.wf_full) auto
  show ?case by (rule tryGet_full [OF wf wf_full(5)]) (use wf_full(4) in blast)
next
  case (wf_hash h n)
  from wf_hash(4) [OF wf_hash(5)] wf_hash(1) show ?case
    by (auto simp: got_def tryGet.simps [of db "HashNode _"] resolveHash_def same_content_def split: node.splits)
qed (auto intro: tryGet_leaf tryGet_ext)

section \<open>Insertion\<close>

lemma insert_Nil: "insert_node db NilNode k c = Some (Ok (True, if k = [] then c else ShortNode k c newFlag))"
  by (simp add: insert_node.simps)

text \<open>The result of inserting: well formed, the new binding and otherwise the old ones, and marked
  as unchanged only when the binding was there before.\<close>

definition inserted :: "nodeDb \<Rightarrow> node \<Rightarrow> byte list \<Rightarrow> byte list \<Rightarrow> (bool \<times> node) res option \<Rightarrow> bool" where
  "inserted db n k v m \<longleftrightarrow> (\<exists>dirty n'. m = Some (Ok (dirty, n')) \<and> wf_node db n' \<and>
     (\<forall>k' v'. binds db n' k' v' \<longleftrightarrow> (if k' = k then v' = v else binds db n k' v')) \<and>
     (isFull db n \<longrightarrow> isFull db n') \<and> (\<not> dirty \<longrightarrow> binds db n k v))"

lemma binds_unique: "binds db n k v \<Longrightarrow> binds db n k v' \<Longrightarrow> v' = v"
  by (induction arbitrary: v' rule: binds.induct) auto

lemma branch_wf:
  assumes "unat i < 17" and "unat j < 17" and "i \<noteq> j" and "slot db (unat i) a" and "slot db (unat j) b" and "a \<noteq> NilNode" and "b \<noteq> NilNode"
  shows "wf_node db (FullNode ((replicate 17 NilNode)[unat i := a, unat j := b]) fl)"
proof -
  have "nonNil ((replicate 17 NilNode)[unat i := a, unat j := b]) = {unat i, unat j}"
    using assms by (auto simp: nonNil_def nth_list_update split: if_splits)
  moreover have "unat i \<noteq> unat j" using assms(3) by (metis word_unat_eq_iff)
  ultimately show ?thesis using assms by (auto simp: wf_full_slots nth_list_update slot_def)
qed

lemma branch_binds:
  assumes "unat i < 17" and "unat j < 17" and "i \<noteq> j"
  shows "binds db (FullNode ((replicate 17 NilNode)[unat i := a, unat j := b]) fl) (h # k) v \<longleftrightarrow>
    (h = i \<and> binds db a k v \<or> h = j \<and> binds db b k v)"
proof -
  have "unat i \<noteq> unat j" "unat h = unat i \<longleftrightarrow> h = i" "unat h = unat j \<longleftrightarrow> h = j" using assms(3) by (metis word_unat_eq_iff)+
  then show ?thesis using assms by (auto simp: nth_list_update)
qed

text \<open>What is put below a branch when a short node is split: the rest of a key with its end.\<close>

definition tail_node :: "byte list \<Rightarrow> node \<Rightarrow> node" where
  "tail_node k c = (if k = [] then c else ShortNode k c newFlag)"

lemma tail_binds [simp]: "binds db (tail_node k c) k' v \<longleftrightarrow> (\<exists>r. k' = k @ r \<and> binds db c r v)"
  by (auto simp: tail_node_def)

lemma tail_slot_value: "term_key (i # k) \<Longrightarrow> slot db (unat i) (tail_node k (ValueNode v))"
  by (auto simp: slot_def tail_node_def term_key_Cons wf_leaf word_less_nat_alt split: if_splits)

lemma tail_slot_full:
  "nibbles (i # k) \<Longrightarrow> wf_node db c \<Longrightarrow> isFull db c \<Longrightarrow> slot db (unat i) (tail_node k c)"
  by (auto simp: slot_def tail_node_def wf_ext word_less_nat_alt)

lemma split_short:
  assumes "m = prefixLen key nk" and "m < length nk" and "m < length key"
  obtains p i a j b where "nk = p @ i # a" and "key = p @ j # b" and "i \<noteq> j" and "length p = m"
proof -
  have "nk = take m nk @ nk ! m # drop (m + 1) nk" "key = take m nk @ key ! m # drop (m + 1) key"
    using assms prefixLen_take [of key nk] by (metis id_take_nth_drop Suc_eq_plus1)+
  moreover have "nk ! m \<noteq> key ! m" using prefixLen_differ [of key nk] assms by auto
  ultimately show thesis using that assms(2) by (metis length_take min.absorb4)
qed

lemma prefixLen_branch: "i \<noteq> j \<Longrightarrow> prefixLen (p @ j # b) (p @ i # a) = length p"
  by (induction p) simp_all

lemma insert_branch:
  assumes "i \<noteq> j" and "unat i < 17" and "unat j < 17" and "nibbles p" and "c \<noteq> NilNode"
    and "slot db (unat i) (tail_node a c)" and "slot db (unat j) (tail_node b (ValueNode v))"
  shows "inserted db (ShortNode (p @ i # a) c fl) (p @ j # b) v (insert_node db (ShortNode (p @ i # a) c fl) (p @ j # b) (ValueNode v))"
proof -
  let ?branch = "FullNode ((replicate 17 NilNode)[unat i := tail_node a c, unat j := tail_node b (ValueNode v)]) newFlag"
  have run: "insert_node db (ShortNode (p @ i # a) c fl) (p @ j # b) (ValueNode v) = Some (Ok (True, tail_node p ?branch))"
    using assms(1-3) by (simp add: insert_node.simps [of db "ShortNode _ _ _"] prefixLen_branch insert_Nil Let_def tail_node_def nth_append)
  have "wf_node db ?branch" by (rule branch_wf) (use assms in \<open>auto simp: tail_node_def\<close>)
  then have "wf_node db (tail_node p ?branch)" using assms(4) by (auto simp: tail_node_def intro: wf_ext)
  moreover have "binds db (tail_node p ?branch) k' v' \<longleftrightarrow>
      (if k' = p @ j # b then v' = v else binds db (ShortNode (p @ i # a) c fl) k' v')" for k' v'
  proof -
    have "binds db (tail_node p ?branch) k' v' \<longleftrightarrow>
        (\<exists>h r. k' = p @ h # r \<and> (h = i \<and> binds db (tail_node a c) r v' \<or> h = j \<and> binds db (tail_node b (ValueNode v)) r v'))"
      using branch_binds [OF assms(2,3,1)] by (auto simp del: binds_simps(4)) (auto simp: neq_Nil_conv)
    then show ?thesis using assms(1) by auto
  qed
  ultimately show ?thesis by (auto simp: inserted_def run)
qed

lemma insert_leaf:
  assumes "term_key k" and "term_key key"
  shows "inserted db (ShortNode k (ValueNode w) fl) key v (insert_node db (ShortNode k (ValueNode w) fl) key (ValueNode v))"
proof (cases "key = k")
  case True
  then have "prefixLen key k = length k" using prefixLen_full by blast
  with True assms show ?thesis
    by (auto simp: inserted_def insert_node.simps [of db "ShortNode _ _ _"] insert_node.simps [of db "ValueNode _"] wf_leaf term_key_def)
next
  case False
  define m where "m = prefixLen key k"
  have "m < length k" using False assms term_key_prefix prefixLen_full [of key k] prefixLen_le(2) [of key k]
    unfolding m_def by (metis append_Nil2 le_neq_implies_less)
  moreover have "m < length key"
  proof (rule ccontr)
    assume "\<not> m < length key"
    then have "take (length key) k = key" using prefixLen_take [of key k] prefixLen_le(1) [of key k] m_def by simp
    then have "term_key (key @ drop (length key) k)" using assms(1) by (metis append_take_drop_id)
    then show False using term_key_prefix [OF assms(2)] \<open>take (length key) k = key\<close> False by (metis append_Nil2 append_take_drop_id)
  qed
  ultimately obtain p i a j b where d: "k = p @ i # a" "key = p @ j # b" "i \<noteq> j" using split_short [OF m_def] by metis
  have "nibbles p" using assms(1) d(1) by (auto simp: term_key_def butlast_append)
  then have "term_key (i # a)" "term_key (j # b)" using assms d term_key_ext by metis+
  then show ?thesis unfolding d using d(3) \<open>nibbles p\<close> term_key_hd
    by (intro insert_branch tail_slot_value) (auto dest: term_key_hd)
qed

lemma insert_ext:
  assumes "k \<noteq> []" and "nibbles k" and "wf_node db c" and "isFull db c" and "term_key key"
    and "\<And>r. term_key r \<Longrightarrow> inserted db c r v (insert_node db c r (ValueNode v))"
  shows "inserted db (ShortNode k c fl) key v (insert_node db (ShortNode k c fl) key (ValueNode v))"
proof (cases "\<exists>r. key = k @ r")
  case True
  then obtain r where r: "key = k @ r" ..
  then have "term_key r" using assms(2,5) term_key_ext by metis
  from assms(6) [OF this] obtain dirty n' where n': "insert_node db c r (ValueNode v) = Some (Ok (dirty, n'))" "wf_node db n'" "isFull db n'"
    "\<And>k' v'. binds db n' k' v' \<longleftrightarrow> (if k' = r then v' = v else binds db c k' v')" "\<not> dirty \<Longrightarrow> binds db c r v"
    using assms(4) by (auto simp: inserted_def)
  have "prefixLen key k = length k" using r prefixLen_full by blast
  moreover have "key \<noteq> []" using assms(1) r by simp
  ultimately have run: "insert_node db (ShortNode k c fl) key (ValueNode v) =
      Some (Ok (if dirty then (True, ShortNode k n' newFlag) else (False, ShortNode k c fl)))"
    using r n'(1) by (simp add: insert_node.simps [of db "ShortNode _ _ _"])
  show ?thesis
  proof (cases dirty)
    case True
    then show ?thesis using run n' assms(1,2) r by (auto simp: inserted_def wf_ext)
  next
    case False
    then have "binds db c r v" using n'(5) by simp
    then show ?thesis using run False assms(1-4) r by (auto simp: inserted_def wf_ext dest: binds_unique)
  qed
next
  case False
  define m where "m = prefixLen key k"
  have "m < length k" using False prefixLen_full [of key k] prefixLen_le(2) [of key k] unfolding m_def by (metis le_neq_implies_less)
  moreover have "m < length key"
  proof (rule ccontr)
    assume "\<not> m < length key"
    then have "take (length key) k = key" using prefixLen_take [of key k] prefixLen_le(1) [of key k] m_def by simp
    then have "nibbles key" using assms(2) by (metis append_take_drop_id nibbles_simps(3))
    then show False using assms(5) last_in_set [of key] by (auto simp: term_key_def nibbles_def)
  qed
  ultimately obtain p i a j b where d: "k = p @ i # a" "key = p @ j # b" "i \<noteq> j" using split_short [OF m_def] by metis
  have "nibbles p" "nibbles (i # a)" using assms(2) d(1) by simp_all
  moreover from this have "term_key (j # b)" using assms(5) d(2) term_key_ext by metis
  ultimately show ?thesis unfolding d using d(3) assms(3,4)
    by (intro insert_branch tail_slot_value tail_slot_full) (auto dest: term_key_hd simp: word_less_nat_alt)
qed

lemma insert_full:
  assumes "wf_node db (FullNode cs fl)" and "term_key key"
    and "\<And>i r. i < 16 \<Longrightarrow> cs ! i \<noteq> NilNode \<Longrightarrow> term_key r \<Longrightarrow> inserted db (cs ! i) r v (insert_node db (cs ! i) r (ValueNode v))"
  shows "inserted db (FullNode cs fl) key v (insert_node db (FullNode cs fl) key (ValueNode v))"
proof -
  obtain i r where ir: "key = i # r" using assms(2) by (cases key) (auto simp: term_key_def)
  have i: "unat i < 17" using term_key_hd [OF assms(2)] ir by simp
  have len: "length cs = 17" and slot: "slot db (unat i) (cs ! unat i)" using assms(1) i by (auto simp: wf_full_slots)
  have child: "\<exists>dirty n'. insert_node db (cs ! unat i) r (ValueNode v) = Some (Ok (dirty, n')) \<and> slot db (unat i) n' \<and> n' \<noteq> NilNode \<and>
      (\<forall>k' v'. binds db n' k' v' \<longleftrightarrow> (if k' = r then v' = v else binds db (cs ! unat i) k' v')) \<and> (\<not> dirty \<longrightarrow> binds db (cs ! unat i) r v)"
  proof (cases "cs ! unat i = NilNode \<or> (\<exists>w. cs ! unat i = ValueNode w)")
    case True
    then have "cs ! unat i = ValueNode w \<Longrightarrow> r = []" for w
      using slot assms(2) ir by (auto simp: slot_def term_key_Cons word_less_nat_alt split: if_splits)
    with True show ?thesis using tail_slot_value [of i r db v] assms(2) ir
      by (auto simp: insert_Nil insert_node.simps [of db "ValueNode _"] tail_node_def)
  next
    case False
    then have "unat i < 16" using slot i by (auto simp: slot_def split: if_splits)
    moreover from this have "term_key r" using assms(2) ir by (auto simp: term_key_Cons split: if_splits)
    ultimately have "inserted db (cs ! unat i) r v (insert_node db (cs ! unat i) r (ValueNode v))" using assms(3) False by blast
    then show ?thesis using \<open>unat i < 16\<close> by (auto simp: inserted_def slot_def)
  qed
  then obtain dirty n' where n': "insert_node db (cs ! unat i) r (ValueNode v) = Some (Ok (dirty, n'))" "slot db (unat i) n'" "n' \<noteq> NilNode"
    "\<And>k' v'. binds db n' k' v' \<longleftrightarrow> (if k' = r then v' = v else binds db (cs ! unat i) k' v')" "\<not> dirty \<Longrightarrow> binds db (cs ! unat i) r v"
    by blast
  have run: "insert_node db (FullNode cs fl) key (ValueNode v) =
      Some (Ok (if dirty then (True, FullNode (cs[unat i := n']) newFlag) else (False, FullNode cs fl)))"
    using i len ir n'(1) by (simp add: insert_node.simps [of db "FullNode _ _"])
  show ?thesis
  proof (cases dirty)
    case True
    have "wf_node db (FullNode (cs[unat i := n']) newFlag)" by (rule slot_update [OF assms(1) i n'(2,3)])
    moreover have "binds db (FullNode (cs[unat i := n']) newFlag) k' v' \<longleftrightarrow> (if k' = key then v' = v else binds db (FullNode cs fl) k' v')" for k' v'
      unfolding ir by (rule binds_update_child [OF i len n'(4)])
    ultimately show ?thesis using run True by (auto simp: inserted_def simp del: binds_simps)
  next
    case False
    then have "binds db (FullNode cs fl) key v" using n'(5) ir i len by simp
    then show ?thesis using run False assms(1) by (auto simp: inserted_def dest: binds_unique simp del: binds_simps)
  qed
qed

lemma insert_wf:
  assumes "wf_node db n" and "term_key key"
  shows "inserted db n key v (insert_node db n key (ValueNode v))"
  using assms
proof (induction arbitrary: key rule: wf_node.induct)
  case (wf_full cs fl)
  have wf: "wf_node db (FullNode cs fl)" using wf_full by (intro wf_node.wf_full) auto
  show ?case by (rule insert_full [OF wf wf_full(5)]) (use wf_full(4) in blast)
next
  case (wf_hash h n)
  have "key \<noteq> []" using wf_hash(5) by (auto simp: term_key_def)
  obtain dirty n' where n': "insert_node db n key (ValueNode v) = Some (Ok (dirty, n'))" "wf_node db n'" "isFull db n \<Longrightarrow> isFull db n'"
    "\<And>k' v'. binds db n' k' v' \<longleftrightarrow> (if k' = key then v' = v else binds db n k' v')" "\<not> dirty \<Longrightarrow> binds db n key v"
    using wf_hash(4) [OF wf_hash(5)] by (auto simp: inserted_def)
  have run: "insert_node db (HashNode h) key (ValueNode v) = Some (Ok (if dirty then (True, n') else (False, n)))"
    using \<open>key \<noteq> []\<close> n'(1) wf_hash(1) by (simp add: insert_node.simps [of db "HashNode h"] resolveHash_def)
  have full: "isFull db (HashNode h) \<Longrightarrow> isFull db n" using wf_hash(1,3) by (cases n) simp_all
  have bind: "binds db (HashNode h) k' v' \<longleftrightarrow> binds db n k' v'" for k' v' using wf_hash(1) by simp
  show ?case
  proof (cases dirty)
    case False
    then have "binds db n key v" by (rule n'(5))
    then show ?thesis using run False full wf_hash(2) binds_unique by (auto simp: inserted_def bind simp del: binds_simps)
  qed (use run n' full in \<open>auto simp: inserted_def bind simp del: binds_simps\<close>)
qed (auto intro: insert_leaf insert_ext)

section \<open>Deletion\<close>

definition deleted :: "nodeDb \<Rightarrow> node \<Rightarrow> byte list \<Rightarrow> (bool \<times> node) res option \<Rightarrow> bool" where
  "deleted db n k m \<longleftrightarrow> (\<exists>dirty n'. m = Some (Ok (dirty, n')) \<and> wf_root db n' \<and>
     (\<forall>k' v'. binds db n' k' v' \<longleftrightarrow> k' \<noteq> k \<and> binds db n k' v') \<and>
     (isFull db n \<longrightarrow> n' \<noteq> NilNode) \<and> (dirty \<longleftrightarrow> (\<exists>v. binds db n k v)) \<and> (\<not> dirty \<longrightarrow> isFull db n \<longrightarrow> isFull db n') \<and>
     (\<forall>h. dirty \<longrightarrow> n' \<noteq> HashNode h))"

lemma delete_leaf:
  assumes "term_key k" and "term_key key"
  shows "deleted db (ShortNode k (ValueNode w) fl) key (delete_node db (ShortNode k (ValueNode w) fl) key)"
proof (cases "key = k")
  case True
  then have "prefixLen key k = length k" using prefixLen_full by blast
  with True show ?thesis by (auto simp: deleted_def delete_node.simps wf_root_def)
next
  case False
  then have "prefixLen key k < length k" using assms term_key_prefix prefixLen_full [of key k] prefixLen_le(2) [of key k]
    by (metis append_Nil2 le_neq_implies_less)
  with False assms show ?thesis by (auto simp: deleted_def delete_node.simps wf_root_def wf_leaf)
qed

lemma short_join:
  assumes "wf_node db (ShortNode ck cv fl)" and "nibbles k"
  shows "wf_node db (ShortNode (k @ ck) cv fl')"
  using assms by (auto simp: wf_simps(5) term_key_ext)

lemma delete_ext:
  assumes "k \<noteq> []" and "nibbles k" and "wf_node db c" and "isFull db c" and "term_key key"
    and "\<And>r. term_key r \<Longrightarrow> deleted db c r (delete_node db c r)"
  shows "deleted db (ShortNode k c fl) key (delete_node db (ShortNode k c fl) key)"
proof (cases "\<exists>r. key = k @ r")
  case True
  then obtain r where r: "key = k @ r" ..
  then have "term_key r" using assms(2,5) term_key_ext by metis
  then obtain dirty n' where n': "delete_node db c r = Some (Ok (dirty, n'))" "wf_node db n'" "dirty \<longleftrightarrow> (\<exists>v. binds db c r v)"
    "\<And>k' v'. binds db n' k' v' \<longleftrightarrow> k' \<noteq> r \<and> binds db c k' v'" "\<And>h. dirty \<Longrightarrow> n' \<noteq> HashNode h"
    using assms(4) assms(6) [of r] unfolding deleted_def wf_root_def by blast
  let ?new = "case n' of ShortNode cKey cVal _ \<Rightarrow> ShortNode (k @ cKey) cVal newFlag | _ \<Rightarrow> ShortNode k n' newFlag"
  have "prefixLen key k = length k" using r prefixLen_full by blast
  moreover have "length k \<noteq> length key" using r \<open>term_key r\<close> by (auto simp: term_key_def)
  ultimately have run: "delete_node db (ShortNode k c fl) key = Some (Ok (if \<not> dirty then (False, ShortNode k c fl) else (True, ?new)))"
    using r n'(1) by (simp add: delete_node.simps [of db "ShortNode _ _ _"])
  show ?thesis
  proof (cases dirty)
    case True
    have "wf_node db ?new" using n'(2,5) True assms(1,2) by (cases n') (auto intro: short_join wf_ext)
    moreover have "binds db ?new k' v' \<longleftrightarrow> k' \<noteq> key \<and> binds db (ShortNode k c fl) k' v'" for k' v'
    proof -
      have "binds db ?new k' v' \<longleftrightarrow> (\<exists>t. k' = k @ t \<and> binds db n' t v')" by (cases n') auto
      then show ?thesis using n'(4) r by auto
    qed
    moreover have "?new \<noteq> HashNode h" for h by (cases n') simp_all
    ultimately show ?thesis using run True n'(3) r by (auto simp: deleted_def wf_root_def)
  next
    case False
    then show ?thesis using run n'(3) r assms(1-4) by (auto simp: deleted_def wf_root_def wf_ext)
  qed
next
  case False
  then have "prefixLen key k < length k" using prefixLen_full [of key k] prefixLen_le(2) [of key k] by (metis le_neq_implies_less)
  with False assms(1-4) show ?thesis by (auto simp: deleted_def delete_node.simps wf_root_def wf_ext)
qed

lemma resolve_wf:
  assumes "wf_node db n"
  obtains m where "resolve db n = Ok m" and "wf_node db m" and "\<And>k v. binds db m k v \<longleftrightarrow> binds db n k v" and "isFull db m \<Longrightarrow> isFull db n"
    and "\<And>h. m \<noteq> HashNode h"
proof (cases n)
  case (HashNode h)
  with assms obtain m where "db (BytesToHash h) = Some m" "wf_node db m" "\<forall>h'. m \<noteq> HashNode h'" by (auto simp: wf_simps(4))
  then show thesis using that [of m] HashNode by (cases m) (auto simp: resolve_def resolveHash_def)
qed (use assms that in \<open>auto simp: resolve_def\<close>)

lemma collapse_wf:
  assumes "length cs = 17" and "\<forall>i < 17. slot db i (cs ! i)" and "nonNil cs = {p}"
  shows "\<exists>n'. collapse db cs (int p) = Some (Ok (True, n')) \<and> wf_node db n' \<and> (\<forall>h. n' \<noteq> HashNode h) \<and>
    (\<forall>k v. binds db n' k v \<longleftrightarrow> binds db (FullNode cs fl) k v)"
proof -
  let ?p = "of_nat p :: byte"
  have p: "p < 17" "cs ! p \<noteq> NilNode" using assms(1,3) by (auto simp: nonNil_def set_eq_iff)
  then have up: "unat ?p = p" by (simp add: unat_of_nat)
  have other: "cs ! i = NilNode" if "i < 17" "i \<noteq> p" for i using assms(1,3) that by (auto simp: nonNil_def set_eq_iff)
  have content: "binds db (FullNode cs fl) k v \<longleftrightarrow> (\<exists>t. k = ?p # t \<and> binds db (cs ! p) t v)" for k v
  proof (cases k)
    case (Cons h t)
    show ?thesis
    proof (cases "unat h = p")
      case True
      then have "h = ?p" using up by (metis word_unat_eq_iff)
      then show ?thesis using Cons True p assms(1) by simp
    next
      case False
      then have "h \<noteq> ?p" using up by auto
      then show ?thesis using Cons False assms(1) other by auto
    qed
  qed simp
  show ?thesis
  proof (cases "p = 16")
    case True
    then obtain w where "cs ! 16 = ValueNode w" using spec [OF assms(2), of 16] p by (auto simp: slot_def)
    with True content show ?thesis
      by (auto simp: collapse_def Let_def wf_leaf term_key_def simp del: binds_simps(4))
  next
    case False
    then have wf: "wf_node db (cs ! p)" and small: "?p < 16" using assms(2) p up by (auto simp: slot_def word_less_nat_alt)
    obtain m where m: "resolve db (cs ! p) = Ok m" "wf_node db m" "\<And>k v. binds db m k v \<longleftrightarrow> binds db (cs ! p) k v"
      "isFull db m \<Longrightarrow> isFull db (cs ! p)" "\<And>h. m \<noteq> HashNode h" using resolve_wf [OF wf] by metis
    let ?n = "case m of ShortNode cKey cVal _ \<Rightarrow> ShortNode (?p # cKey) cVal newFlag | _ \<Rightarrow> ShortNode [?p] (cs ! p) newFlag"
    have "collapse db cs (int p) = Some (Ok (True, ?n))" using False m(1) by (simp add: collapse_def Let_def split: node.split)
    moreover have "wf_node db ?n" using m(2,4,5) wf small short_join [of db _ _ _ "[?p]"] by (cases m) (auto intro: wf_ext)
    moreover have "binds db ?n k v \<longleftrightarrow> binds db (FullNode cs fl) k v" for k v
    proof (cases m)
      case (ShortNode ck cv f)
      then have "binds db (cs ! p) t v \<longleftrightarrow> binds db (ShortNode ck cv f) t v" for t using m(3) by simp
      then show ?thesis using ShortNode content by auto
    qed (use content in auto)
    moreover have "?n \<noteq> HashNode h" for h by (cases m) simp_all
    ultimately show ?thesis by blast
  qed
qed

lemma delete_child:
  assumes "slot db (unat i) c" and "term_key (i # r)" and "unat i < 16 \<Longrightarrow> c \<noteq> NilNode \<Longrightarrow> term_key r \<Longrightarrow> deleted db c r (delete_node db c r)"
  obtains dirty n' where "delete_node db c r = Some (Ok (dirty, n'))" and "slot db (unat i) n'"
    and "\<And>k' v'. binds db n' k' v' \<longleftrightarrow> k' \<noteq> r \<and> binds db c k' v'" and "dirty \<longleftrightarrow> (\<exists>v. binds db c r v)"
proof (cases "c = NilNode \<or> (\<exists>w. c = ValueNode w)")
  case True
  then have "c = ValueNode w \<Longrightarrow> r = []" for w
    using assms(1,2) by (auto simp: slot_def term_key_Cons word_less_nat_alt split: if_splits)
  with True that show thesis by (fastforce simp: delete_node.simps slot_def)
next
  case False
  then have lt: "unat i < 16" using assms(1,2) term_key_hd [of "i # r"] by (auto simp: slot_def split: if_splits)
  then have "term_key r" using assms(2) by (auto simp: term_key_Cons split: if_splits)
  then obtain dirty n' where n': "delete_node db c r = Some (Ok (dirty, n'))" "wf_root db n'"
    "\<forall>k' v'. binds db n' k' v' \<longleftrightarrow> k' \<noteq> r \<and> binds db c k' v'" "dirty \<longleftrightarrow> (\<exists>v. binds db c r v)"
    using assms(3) [OF lt] False unfolding deleted_def by blast
  show thesis by (rule that [OF n'(1)]) (use n' lt in \<open>auto simp: slot_def wf_root_def\<close>)
qed

lemma delete_full:
  assumes "wf_node db (FullNode cs fl)" and "term_key key"
    and "\<And>i r. i < 16 \<Longrightarrow> cs ! i \<noteq> NilNode \<Longrightarrow> term_key r \<Longrightarrow> deleted db (cs ! i) r (delete_node db (cs ! i) r)"
  shows "deleted db (FullNode cs fl) key (delete_node db (FullNode cs fl) key)"
proof -
  obtain i r where ir: "key = i # r" using assms(2) by (cases key) (auto simp: term_key_def)
  have i: "unat i < 17" using term_key_hd [OF assms(2)] ir by simp
  have len: "length cs = 17" and slots: "\<forall>i < 17. slot db i (cs ! i)" and two: "2 \<le> card (nonNil cs)"
    using assms(1) i by (auto simp: wf_full_slots)
  from slots i assms(2,3) ir obtain dirty n' where n': "delete_node db (cs ! unat i) r = Some (Ok (dirty, n'))" "slot db (unat i) n'"
    "\<And>k' v'. binds db n' k' v' \<longleftrightarrow> k' \<noteq> r \<and> binds db (cs ! unat i) k' v'" "dirty \<longleftrightarrow> (\<exists>v. binds db (cs ! unat i) r v)"
    using delete_child [of db i "cs ! unat i" r] by blast
  let ?cs = "cs[unat i := n']"
  have has: "(\<exists>v. binds db (FullNode cs fl) key v) \<longleftrightarrow> dirty" using n'(4) ir i len by simp
  show ?thesis
  proof (cases dirty)
    case True
    have content: "binds db (FullNode ?cs fl') k' v' \<longleftrightarrow> k' \<noteq> key \<and> binds db (FullNode cs fl) k' v'" for k' v' fl'
      using binds_update_child [OF i len, of db n' r "\<lambda>_. False" fl' k' v' fl] n'(3) ir by auto
    have rest: "nonNil cs - {unat i} \<subseteq> nonNil ?cs" by (auto simp: nonNil_def nth_list_update)
    have "card (nonNil cs - {unat i}) \<ge> 1" using two by (simp add: card_Diff_singleton_if) linarith
    then have some: "nonNil ?cs \<noteq> {}" using rest by (metis card.empty not_one_le_zero subset_empty)
    have slots': "\<forall>j < 17. slot db j (?cs ! j)" "length ?cs = 17" using slots n'(2) len i by (auto simp: nth_list_update)
    have "\<exists>n''. delete_node db (FullNode cs fl) key = Some (Ok (True, n'')) \<and> wf_node db n'' \<and> (\<forall>h. n'' \<noteq> HashNode h) \<and>
        (\<forall>k' v'. binds db n'' k' v' \<longleftrightarrow> binds db (FullNode ?cs newFlag) k' v')"
    proof (cases "onlyChild (- 1) 0 ?cs \<ge> 0")
      case pos: True
      then obtain p where p: "onlyChild (- 1) 0 ?cs = int p" by (metis nonneg_int_cases)
      then have "nonNil ?cs = {p}" using onlyChild_one by fastforce
      from collapse_wf [OF slots'(2,1) this] p i len ir n'(1) True show ?thesis
        by (simp add: delete_node.simps [of db "FullNode _ _"] Let_def del: binds_simps)
    next
      case False
      then have "2 \<le> card (nonNil ?cs)" using onlyChild_many [of 0 ?cs] some by simp
      then have "wf_node db (FullNode ?cs newFlag)" using slots' by (simp add: wf_full_slots)
      with False i len ir n'(1) True show ?thesis
        by (simp add: delete_node.simps [of db "FullNode _ _"] Let_def del: binds_simps)
    qed
    then show ?thesis using content has True unfolding deleted_def wf_root_def
      by (metis wf_not(1))
  next
    case False
    then have "delete_node db (FullNode cs fl) key = Some (Ok (False, FullNode cs fl))"
      using i len ir n'(1) by (simp add: delete_node.simps [of db "FullNode _ _"])
    then show ?thesis using has False assms(1) unfolding deleted_def wf_root_def by (auto simp del: binds_simps)
  qed
qed

lemma delete_wf:
  assumes "wf_node db n" and "term_key key"
  shows "deleted db n key (delete_node db n key)"
  using assms
proof (induction arbitrary: key rule: wf_node.induct)
  case (wf_full cs fl)
  have wf: "wf_node db (FullNode cs fl)" using wf_full by (intro wf_node.wf_full) auto
  show ?case by (rule delete_full [OF wf wf_full(5)]) (use wf_full(4) in blast)
next
  case (wf_hash h n)
  obtain dirty n' where n': "delete_node db n key = Some (Ok (dirty, n'))" "wf_root db n'" "dirty \<longleftrightarrow> (\<exists>v. binds db n key v)"
    "\<And>k' v'. binds db n' k' v' \<longleftrightarrow> k' \<noteq> key \<and> binds db n k' v'" "isFull db n \<Longrightarrow> n' \<noteq> NilNode" "\<And>h. dirty \<Longrightarrow> n' \<noteq> HashNode h"
    using wf_hash(4) [OF wf_hash(5)] unfolding deleted_def by blast
  have run: "delete_node db (HashNode h) key = Some (Ok (if dirty then (True, n') else (False, n)))"
    using n'(1) wf_hash(1) by (simp add: delete_node.simps [of db "HashNode h"] resolveHash_def)
  have full: "isFull db (HashNode h) \<Longrightarrow> isFull db n" using wf_hash(1,3) by (cases n) simp_all
  have bind: "binds db (HashNode h) k' v' \<longleftrightarrow> binds db n k' v'" for k' v' using wf_hash(1) by simp
  show ?case
  proof (cases dirty)
    case True
    then show ?thesis using run n' full unfolding deleted_def bind by auto
  next
    case False
    then show ?thesis using run n'(3) full wf_hash(2) unfolding deleted_def bind wf_root_def by auto
  qed
qed (auto intro: delete_leaf delete_ext)

end
