(* ===== verification/Trie_Map.thy ===== *)
theory Trie_Map
  imports Trie
begin

text \<open>
  The trie of \<open>l2geth/trie/trie.go\<close> seen from its clients: an interface for stores of values under byte
  keys, the trie as an instance of it, and the canonical form of a trie, which depends on its
  content only.
\<close>

section \<open>The trie as a map\<close>

text \<open>The interface of a store of values under byte keys whose operations may fail or not return, and
  what its clients rely on: it behaves as a map from keys to values.\<close>

datatype store_op = Put "byte list" "byte list" | Del "byte list"

fun map_op :: "store_op \<Rightarrow> (byte list \<rightharpoonup> byte list) \<Rightarrow> byte list \<rightharpoonup> byte list" where
  "map_op (Put k v) m = m(k \<mapsto> v)"
| "map_op (Del k) m = m(k := None)"

fun run_ops :: "(byte list \<Rightarrow> byte list \<Rightarrow> 's \<Rightarrow> (unit res \<times> 's) option) \<Rightarrow> (byte list \<Rightarrow> 's \<Rightarrow> (unit res \<times> 's) option)
    \<Rightarrow> store_op list \<Rightarrow> 's \<Rightarrow> (unit res \<times> 's) option" where
  "run_ops put del [] s = Some (Ok (), s)"
| "run_ops put del (a # ops) s = Option.bind (case a of Put k v \<Rightarrow> put k v s | Del k \<Rightarrow> del k s)
     (\<lambda>(r, t). case r of Ok _ \<Rightarrow> run_ops put del ops t | _ \<Rightarrow> Some (r, t))"

locale keyed_store =
  fixes invar :: "'s \<Rightarrow> bool" and content :: "'s \<Rightarrow> byte list \<rightharpoonup> byte list"
    and get :: "byte list \<Rightarrow> 's \<Rightarrow> (byte list option res \<times> 's) option"
    and put :: "byte list \<Rightarrow> byte list \<Rightarrow> 's \<Rightarrow> (unit res \<times> 's) option"
    and del :: "byte list \<Rightarrow> 's \<Rightarrow> (unit res \<times> 's) option"
  assumes get_content: "invar s \<Longrightarrow> \<exists>s'. get k s = Some (Ok (content s k), s') \<and> invar s' \<and> content s' = content s"
    and put_content: "invar s \<Longrightarrow> \<exists>s'. put k v s = Some (Ok (), s') \<and> invar s' \<and> content s' = (content s)(k \<mapsto> v)"
    and del_content: "invar s \<Longrightarrow> \<exists>s'. del k s = Some (Ok (), s') \<and> invar s' \<and> content s' = (content s)(k := None)"
begin

lemma op_content:
  assumes "invar s"
  shows "\<exists>t. (case a of Put k v \<Rightarrow> put k v s | Del k \<Rightarrow> del k s) = Some (Ok (), t) \<and> invar t \<and> content t = map_op a (content s)"
  by (cases a) (use assms put_content del_content in auto)

lemma run_content:
  assumes "invar s"
  shows "\<exists>t. run_ops put del ops s = Some (Ok (), t) \<and> invar t \<and> content t = fold map_op ops (content s)"
  using assms
proof (induction ops arbitrary: s)
  case (Cons a ops)
  obtain t where t: "(case a of Put k v \<Rightarrow> put k v s | Del k \<Rightarrow> del k s) = Some (Ok (), t)" "invar t" "content t = map_op a (content s)"
    using op_content [OF Cons.prems] by blast
  from Cons.IH [OF t(2)] t(1,3) show ?case by simp
qed simp

lemma run_get:
  assumes "invar s" and "run_ops put del ops s = Some (r, t)"
  shows "\<exists>t'. get k t = Some (Ok (fold map_op ops (content s) k), t')"
  using run_content [OF assms(1), of ops] assms(2) get_content by fastforce

end

text \<open>A trie that is well formed and holds keys of whole bytes only.\<close>

definition byte_keys :: "nodeDb \<Rightarrow> node \<Rightarrow> bool" where
  "byte_keys db n \<longleftrightarrow> (\<forall>k v. binds db n k v \<longrightarrow> k \<in> range keybytesToHex)"

definition wf_trie :: "Trie \<Rightarrow> bool" where
  "wf_trie t \<longleftrightarrow> wf_root (t_db t) (t_root t) \<and> byte_keys (t_db t) (t_root t)"

definition trie_content :: "Trie \<Rightarrow> byte list \<rightharpoonup> byte list" where
  "trie_content t key = (case tryGet (t_db t) (t_root t) (keybytesToHex key) 0 of Some (Ok (v, _, _)) \<Rightarrow> v | _ \<Rightarrow> None)"

lemma trie_got:
  assumes "wf_root db n" and "term_key key"
  obtains val n' b where "tryGet db n key 0 = Some (Ok (val, n', b))" and "\<And>v. val = Some v \<longleftrightarrow> binds db n key v"
    and "b \<Longrightarrow> wf_root db n'" and "\<And>k v. binds db n' k v \<longleftrightarrow> binds db n k v"
proof (cases "n = NilNode")
  case True
  then show thesis using that [of None NilNode False] by (simp add: tryGet.simps)
next
  case False
  then have "got db n key (tryGet db n key 0)" using tryGet_wf [of db n 0 key] assms by (simp add: wf_root_def)
  then show thesis using that unfolding got_def same_content_def wf_root_def by blast
qed

lemma content_binds:
  assumes "wf_trie t"
  shows "trie_content t key = Some v \<longleftrightarrow> binds (t_db t) (t_root t) (keybytesToHex key) v"
proof -
  obtain val n' b where "tryGet (t_db t) (t_root t) (keybytesToHex key) 0 = Some (Ok (val, n', b))"
    and "\<And>v. val = Some v \<longleftrightarrow> binds (t_db t) (t_root t) (keybytesToHex key) v"
    by (rule trie_got [OF _ hex_term_key [of key], of "t_db t" "t_root t"])
      (use assms in \<open>auto simp: wf_trie_def\<close>)
  then show ?thesis by (simp add: trie_content_def)
qed

lemma content_eqI:
  assumes "wf_trie t" and "\<And>key v. binds (t_db t) (t_root t) (keybytesToHex key) v \<longleftrightarrow> m key = Some v"
  shows "trie_content t = m"
proof
  fix key
  show "trie_content t key = m key" using content_binds [OF assms(1), of key] assms(2) by (cases "m key") (metis not_Some_eq)+
qed

lemma insert_root:
  assumes "wf_root db n" and "term_key key"
  shows "\<exists>dirty n'. insert_node db n key (ValueNode v) = Some (Ok (dirty, n')) \<and> wf_root db n' \<and>
    (\<forall>k' v'. binds db n' k' v' \<longleftrightarrow> (if k' = key then v' = v else binds db n k' v'))"
proof (cases "n = NilNode")
  case True
  have "key \<noteq> []" using assms(2) by (auto simp: term_key_def)
  with True assms(2) show ?thesis by (auto simp: insert_Nil wf_root_def wf_leaf)
next
  case False
  then show ?thesis using insert_wf [of db n key v] assms by (auto simp: wf_root_def inserted_def)
qed

lemma delete_root:
  assumes "wf_root db n" and "term_key key"
  shows "\<exists>dirty n'. delete_node db n key = Some (Ok (dirty, n')) \<and> wf_root db n' \<and>
    (\<forall>k' v'. binds db n' k' v' \<longleftrightarrow> k' \<noteq> key \<and> binds db n k' v')"
proof (cases "n = NilNode")
  case True
  then show ?thesis by (auto simp: delete_node.simps [of db NilNode] wf_root_def)
next
  case False
  then show ?thesis using delete_wf [of db n key] assms by (auto simp: wf_root_def deleted_def)
qed

interpretation trie_map: keyed_store wf_trie trie_content TryGet TryUpdate TryDelete
proof
  fix t k v assume wf: "wf_trie t"
  then have root: "wf_root (t_db t) (t_root t)" and keys: "byte_keys (t_db t) (t_root t)" by (simp_all add: wf_trie_def)
  note hex = hex_term_key [of k]
  have bind: "trie_content t key = Some w \<longleftrightarrow> binds (t_db t) (t_root t) (keybytesToHex key) w" for key w by (rule content_binds [OF wf])
  show "\<exists>t'. TryGet k t = Some (Ok (trie_content t k), t') \<and> wf_trie t' \<and> trie_content t' = trie_content t"
  proof (rule trie_got [OF root hex])
    fix val n' b
    assume g: "tryGet (t_db t) (t_root t) (keybytesToHex k) 0 = Some (Ok (val, n', b))" "b \<Longrightarrow> wf_root (t_db t) n'"
      "\<And>k v. binds (t_db t) n' k v \<longleftrightarrow> binds (t_db t) (t_root t) k v"
    let ?t = "if b then t\<lparr>t_root := n'\<rparr> else t"
    have "wf_trie ?t" using wf g(2,3) by (simp add: wf_trie_def byte_keys_def)
    moreover from this have "trie_content ?t = trie_content t" by (rule content_eqI) (simp add: g(3) bind)
    moreover have "TryGet k t = Some (Ok (trie_content t k), ?t)" using g(1) by (simp add: TryGet_def trie_content_def)
    ultimately show ?thesis by blast
  qed
  obtain dirty n' where n': "insert_node (t_db t) (t_root t) (keybytesToHex k) (ValueNode v) = Some (Ok (dirty, n'))" "wf_root (t_db t) n'"
    "\<And>k' v'. binds (t_db t) n' k' v' \<longleftrightarrow> (if k' = keybytesToHex k then v' = v else binds (t_db t) (t_root t) k' v')"
    using insert_root [OF root hex] by blast
  have "wf_trie (t\<lparr>t_root := n'\<rparr>)" using n'(2) keys by (auto simp: wf_trie_def byte_keys_def n'(3))
  moreover from this have "trie_content (t\<lparr>t_root := n'\<rparr>) = (trie_content t)(k \<mapsto> v)"
    by (rule content_eqI) (auto simp: n'(3) bind keybytesToHex_inj)
  ultimately show "\<exists>t'. TryUpdate k v t = Some (Ok (), t') \<and> wf_trie t' \<and> trie_content t' = (trie_content t)(k \<mapsto> v)"
    using n'(1) by (simp add: TryUpdate_def setRoot_def)
  obtain dirty n' where n': "delete_node (t_db t) (t_root t) (keybytesToHex k) = Some (Ok (dirty, n'))" "wf_root (t_db t) n'"
    "\<And>k' v'. binds (t_db t) n' k' v' \<longleftrightarrow> k' \<noteq> keybytesToHex k \<and> binds (t_db t) (t_root t) k' v'"
    using delete_root [OF root hex] by blast
  have "wf_trie (t\<lparr>t_root := n'\<rparr>)" using n'(2) keys by (auto simp: wf_trie_def byte_keys_def n'(3))
  moreover from this have "trie_content (t\<lparr>t_root := n'\<rparr>) = (trie_content t)(k := None)"
    by (rule content_eqI) (auto simp: n'(3) bind keybytesToHex_inj)
  ultimately show "\<exists>t'. TryDelete k t = Some (Ok (), t') \<and> wf_trie t' \<and> trie_content t' = (trie_content t)(k := None)"
    using n'(1) by (simp add: TryDelete_def setRoot_def)
qed

section \<open>Canonical form\<close>

text \<open>A trie without its caching flags.\<close>

fun erase :: "node \<Rightarrow> node" where
  "erase (ShortNode k c fl) = ShortNode k (erase c) newFlag"
| "erase (FullNode cs fl) = FullNode (map erase cs) newFlag"
| "erase n = n"

abbreviation noDb :: nodeDb where
  "noDb \<equiv> (\<lambda>_. None)"

lemma child_content: "slot db i c \<Longrightarrow> c \<noteq> NilNode \<Longrightarrow> (wf_node db c \<Longrightarrow> \<exists>k v. binds db c k v) \<Longrightarrow> \<exists>k v. binds db c k v"
  by (auto simp: slot_def split: if_splits)

lemma wf_nonempty: "wf_node db n \<Longrightarrow> \<exists>k v. binds db n k v"
proof (induction rule: wf_node.induct)
  case (wf_full cs fl)
  have "nonNil cs \<noteq> {}" using wf_full(3) by auto
  then obtain i where i: "i < 17" "cs ! i \<noteq> NilNode" using wf_full(1) by (auto simp: nonNil_def)
  have "\<exists>k v. binds db (cs ! i) k v"
  proof (cases "i = 16")
    case False
    then have "i < 16" using i(1) by simp
    then show ?thesis using wf_full(4) i(2) by blast
  qed (use i(2) wf_full(2) binds_value in metis)
  moreover have "unat (of_nat i :: byte) = i" using i(1) by (simp add: unat_of_nat)
  ultimately show ?case using i(1) wf_full(1) by (metis binds_full)
qed auto

text \<open>Two bound keys that differ in their first nibble, as below every full node.\<close>

definition two_heads :: "node \<Rightarrow> bool" where
  "two_heads n \<longleftrightarrow> (\<exists>g s u h t v. g \<noteq> h \<and> binds noDb n (g # s) u \<and> binds noDb n (h # t) v)"

lemma full_two_heads:
  assumes "wf_node noDb (FullNode cs fl)"
  shows "two_heads (FullNode cs fl)"
proof -
  have cs: "length cs = 17" "\<forall>i < 17. slot noDb i (cs ! i)" "2 \<le> card (nonNil cs)" using assms by (simp_all add: wf_full_slots)
  have "\<exists>i j. i \<in> nonNil cs \<and> j \<in> nonNil cs \<and> i \<noteq> j"
    using cs(3) by (metis card_le_Suc0_iff_eq finite_nonNil not_less_eq_eq numeral_2_eq_2)
  then obtain i j where ij: "i \<in> nonNil cs" "j \<in> nonNil cs" "i \<noteq> j" by blast
  have "\<exists>h t v. unat (h :: byte) = i \<and> binds noDb (FullNode cs fl) (h # t) v" if "i \<in> nonNil cs" for i
  proof -
    have i: "i < 17" "cs ! i \<noteq> NilNode" using that cs(1) by (auto simp: nonNil_def)
    then obtain k v where "binds noDb (cs ! i) k v" using cs(2) child_content wf_nonempty by metis
    moreover have "unat (of_nat i :: byte) = i" using i(1) by (simp add: unat_of_nat)
    ultimately show ?thesis using i(1) cs(1) by (metis binds_full)
  qed
  with ij show ?thesis unfolding two_heads_def by metis
qed

lemma isFull_noDb: "isFull noDb c \<Longrightarrow> \<exists>cs fl. c = FullNode cs fl"
  by (cases c) simp_all

lemma ext_two_heads: "wf_node noDb c \<Longrightarrow> isFull noDb c \<Longrightarrow> two_heads c"
  using isFull_noDb full_two_heads by blast

lemma common_prefix:
  assumes "g \<noteq> h" and "k @ g # s = k' @ a" and "k @ h # t = k' @ b"
  shows "\<exists>r. k = k' @ r"
proof -
  have "length k' \<le> length k"
  proof (rule ccontr)
    assume "\<not> length k' \<le> length k"
    then have "k' ! length k = g" "k' ! length k = h" using assms(2,3) by (metis not_le nth_append nth_append_length)+
    with assms(1) show False by simp
  qed
  then show ?thesis using assms(2) by (metis append_eq_append_conv_if append_eq_conv_conj)
qed

lemma ext_prefix:
  assumes "two_heads c" and "same_content noDb (ShortNode k c fl) (ShortNode k' c' fl')"
  shows "\<exists>r. k = k' @ r"
proof -
  obtain g s u h t v where d: "g \<noteq> h" "binds noDb c (g # s) u" "binds noDb c (h # t) v" using assms(1) by (auto simp: two_heads_def)
  have "binds noDb (ShortNode k' c' fl') (k @ g # s) u" "binds noDb (ShortNode k' c' fl') (k @ h # t) v"
    using assms(2) d(2,3) unfolding same_content_def by (metis binds_short)+
  then obtain a b where "k @ g # s = k' @ a" "k @ h # t = k' @ b" by auto
  with d(1) show ?thesis by (rule common_prefix)
qed

lemma short_full_differ:
  assumes "k \<noteq> []" and "two_heads m"
  shows "\<not> same_content noDb (ShortNode k c fl) m"
proof
  assume same: "same_content noDb (ShortNode k c fl) m"
  obtain g s u h t v where d: "g \<noteq> h" "binds noDb m (g # s) u" "binds noDb m (h # t) v" using assms(2) by (auto simp: two_heads_def)
  then have "binds noDb (ShortNode k c fl) (g # s) u" "binds noDb (ShortNode k c fl) (h # t) v"
    using same by (simp_all add: same_content_def del: binds_simps)
  then have "g = hd k" "h = hd k" using assms(1) by (auto simp: Cons_eq_append_conv)
  with d(1) show False by simp
qed

lemma leaf_ext_differ:
  assumes "two_heads c"
  shows "\<not> same_content noDb (ShortNode k (ValueNode v) fl) (ShortNode k' c fl')"
proof
  assume same: "same_content noDb (ShortNode k (ValueNode v) fl) (ShortNode k' c fl')"
  obtain g s u h t w where d: "g \<noteq> h" "binds noDb c (g # s) u" "binds noDb c (h # t) w" using assms by (auto simp: two_heads_def)
  then have "binds noDb (ShortNode k (ValueNode v) fl) (k' @ g # s) u" "binds noDb (ShortNode k (ValueNode v) fl) (k' @ h # t) w"
    using same unfolding same_content_def by (metis binds_short)+
  then show False using d(1) by auto
qed

lemma same_sym: "same_content db n m \<Longrightarrow> same_content db m n"
  by (simp add: same_content_def)

lemma same_children:
  assumes "same_content db (FullNode cs fl) (FullNode cs' fl')" and "length cs = 17" and "length cs' = 17" and "i < 17"
  shows "same_content db (cs ! i) (cs' ! i)"
proof -
  have u: "unat (of_nat i :: byte) = i" using assms(4) by (simp add: unat_of_nat)
  have "binds db (FullNode cs fl) (of_nat i # k) v \<longleftrightarrow> binds db (FullNode cs' fl') (of_nat i # k) v" for k v
    using assms(1) by (simp only: same_content_def)
  then show ?thesis using u assms(2-4) by (simp add: same_content_def)
qed

lemma canonical_full:
  assumes "wf_node noDb (FullNode cs fl)" and "wf_node noDb (FullNode cs' fl')" and same: "same_content noDb (FullNode cs fl) (FullNode cs' fl')"
    and IH: "\<And>i m. i < 16 \<Longrightarrow> cs ! i \<noteq> NilNode \<Longrightarrow> wf_node noDb m \<Longrightarrow> same_content noDb (cs ! i) m \<Longrightarrow> erase (cs ! i) = erase m"
  shows "erase (FullNode cs fl) = erase (FullNode cs' fl')"
proof -
  have len: "length cs = 17" "length cs' = 17" and slots: "\<forall>i < 17. slot noDb i (cs ! i)" "\<forall>i < 17. slot noDb i (cs' ! i)"
    using assms(1,2) by (simp_all add: wf_full_slots)
  have "erase (cs ! i) = erase (cs' ! i)" if i: "i < 17" for i
  proof -
    have c: "same_content noDb (cs ! i) (cs' ! i)" by (rule same_children [OF same len i])
    have s: "slot noDb i (cs ! i)" "slot noDb i (cs' ! i)" using slots i by auto
    have nil: "cs ! i = NilNode \<longleftrightarrow> cs' ! i = NilNode"
      using child_content [OF s(1)] child_content [OF s(2)] wf_nonempty c unfolding same_content_def by (metis binds_simps(1))
    show ?thesis
    proof (cases "cs ! i = NilNode")
      case False
      show ?thesis
      proof (cases "i = 16")
        case True
        then obtain v w where "cs ! i = ValueNode v" "cs' ! i = ValueNode w" using s False nil by (auto simp: slot_def)
        then show ?thesis using c by (auto simp: same_content_def)
      next
        case False
        then show ?thesis using IH [of i "cs' ! i"] s(2) c i nil \<open>cs ! i \<noteq> NilNode\<close> by (auto simp: slot_def)
      qed
    qed (use nil in simp)
  qed
  then show ?thesis using len by (simp add: list_eq_iff_nth_eq)
qed

lemma wf_noDb_cases:
  assumes "wf_node noDb m"
  obtains (leaf) k v fl where "m = ShortNode k (ValueNode v) fl" and "k \<noteq> []"
    | (ext) k c fl where "m = ShortNode k c fl" and "k \<noteq> []" and "wf_node noDb c" and "two_heads c"
    | (full) cs fl where "m = FullNode cs fl" and "two_heads m"
  using assms
proof (cases rule: wf_node.cases)
  case (wf_leaf k v fl)
  then show thesis using leaf by (simp add: term_key_def)
next
  case (wf_ext k c fl)
  then show thesis using ext ext_two_heads by blast
next
  case (wf_full cs fl)
  then show thesis using full full_two_heads assms by metis
qed simp

lemma canonical:
  assumes "wf_node noDb n" and "wf_node noDb m" and "same_content noDb n m"
  shows "erase n = erase m"
  using assms
proof (induction arbitrary: m rule: wf_node.induct)
  case (wf_leaf k v fl)
  then have k: "k \<noteq> []" by (simp add: term_key_def)
  from wf_leaf(2) show ?case
  proof (cases rule: wf_noDb_cases)
    case (leaf k' v' fl')
    have "binds noDb (ShortNode k' (ValueNode v') fl') k v" using wf_leaf(3) leaf unfolding same_content_def by (metis append_Nil2 binds_short binds_value)
    then show ?thesis using leaf by auto
  qed (use wf_leaf(3) leaf_ext_differ short_full_differ [OF k] in blast)+
next
  case (wf_ext k c fl)
  have c: "two_heads c" by (rule ext_two_heads [OF wf_ext(3,4)])
  from wf_ext(6) show ?case
  proof (cases rule: wf_noDb_cases)
    case (ext k' c' fl')
    then obtain r r' where "k = k' @ r" "k' = k @ r'"
      using ext_prefix c wf_ext(7) same_sym by metis
    then have k: "k' = k" by simp
    have "binds noDb (ShortNode k c fl) (k @ t) v \<longleftrightarrow> binds noDb (ShortNode k' c' fl') (k @ t) v" for t v
      using wf_ext(7) ext(1) by (simp only: same_content_def)
    then have "same_content noDb c c'" by (simp add: same_content_def k)
    from wf_ext(5) [OF ext(3) this] k ext(1) show ?thesis by simp
  qed (use wf_ext(1,7) c leaf_ext_differ short_full_differ same_sym in blast)+
next
  case (wf_full cs fl)
  have wf: "wf_node noDb (FullNode cs fl)" using wf_full by (intro wf_node.wf_full) auto
  from wf_full(5) show ?case
  proof (cases rule: wf_noDb_cases)
    case (full cs' fl')
    with wf_full(5,6) have m: "wf_node noDb (FullNode cs' fl')" "same_content noDb (FullNode cs fl) (FullNode cs' fl')" by simp_all
    show ?thesis unfolding full(1) by (rule canonical_full [OF wf m]) (use wf_full(4) in blast)
  qed (use wf_full(6) short_full_differ full_two_heads [OF wf] same_sym in blast)+
qed simp

section \<open>Properties\<close>

definition emptyTrie :: Trie where
  "emptyTrie = \<lparr>t_db = noDb, t_root = NilNode\<rparr>"

abbreviation trie_run :: "store_op list \<Rightarrow> Trie \<Rightarrow> (unit res \<times> Trie) option" where
  "trie_run \<equiv> run_ops TryUpdate TryDelete"

lemma wf_emptyTrie: "wf_trie emptyTrie"
  by (simp add: emptyTrie_def wf_trie_def wf_root_def byte_keys_def)

lemma empty_db [simp]: "t_db emptyTrie = noDb"
  by (simp add: emptyTrie_def)

lemma empty_content: "trie_content emptyTrie = Map.empty"
  by (simp add: fun_eq_iff trie_content_def emptyTrie_def tryGet.simps)

text \<open>C2: the trie is a map: on a well-formed trie, loaded or only partly loaded from its database, every
  sequence of updates and deletions returns without an error and leaves a well-formed trie, and
  looking up any key afterwards returns what the same sequence leaves in a map.\<close>

theorem trie_refines_map:
  assumes "wf_trie t"
  shows "\<exists>t'. trie_run ops t = Some (Ok (), t') \<and> wf_trie t' \<and>
    (\<forall>key. \<exists>t''. TryGet key t' = Some (Ok (fold map_op ops (trie_content t) key), t''))"
  using trie_map.run_content [OF assms, of ops] trie_map.get_content by metis

theorem trie_refines_map_witness:
  "\<exists>t' t''. trie_run [Put [1, 2] [7], Put [1] [8], Del [1, 2]] emptyTrie = Some (Ok (), t') \<and>
     TryGet [1] t' = Some (Ok (Some [8]), t'')"
proof -
  obtain t' where t': "trie_run [Put [1, 2] [7], Put [1] [8], Del [1, 2]] emptyTrie = Some (Ok (), t')"
    "\<forall>key. \<exists>t''. TryGet key t' = Some (Ok (fold map_op [Put [1, 2] [7], Put [1] [8], Del [1, 2]] (trie_content emptyTrie) key), t'')"
    using trie_refines_map [OF wf_emptyTrie] by blast
  have "fold map_op [Put [1, 2] [7], Put [1] [8], Del [1, 2]] (trie_content emptyTrie) [1] = Some [8]" by simp
  with t' show ?thesis by metis
qed

lemma setRoot_db: "setRoot m t = Some (u, t') \<Longrightarrow> t_db t' = t_db t"
proof (cases m)
  case (Some r)
  then show "setRoot m t = Some (u, t') \<Longrightarrow> t_db t' = t_db t"
    by (cases r) (auto simp: setRoot_def)
qed (simp add: setRoot_def)

lemma run_db: "trie_run ops t = Some (r, t') \<Longrightarrow> t_db t' = t_db t"
proof (induction ops arbitrary: t)
  case (Cons a ops)
  from Cons.prems obtain r1 t1 where step: "(case a of Put k v \<Rightarrow> TryUpdate k v t | Del k \<Rightarrow> TryDelete k t) = Some (r1, t1)"
    and rest: "(case r1 of Ok _ \<Rightarrow> trie_run ops t1 | _ \<Rightarrow> Some (r1, t1)) = Some (r, t')"
    by (auto simp: bind_eq_Some_conv)
  have "t_db t1 = t_db t"
    using step setRoot_db by (cases a) (auto simp: TryUpdate_def TryDelete_def)
  with rest Cons.IH show ?case by (cases r1) auto
qed simp

lemma same_map_same_content:
  assumes "wf_trie t" and "wf_trie u" and "trie_content t = trie_content u" and "t_db t = t_db u"
  shows "same_content (t_db t) (t_root t) (t_root u)"
  unfolding same_content_def
proof (intro allI)
  fix k v
  show "binds (t_db t) (t_root t) k v \<longleftrightarrow> binds (t_db t) (t_root u) k v"
  proof (cases "k \<in> range keybytesToHex")
    case True
    then show ?thesis using content_binds [OF assms(1)] content_binds [OF assms(2)] assms(3,4) by auto
  next
    case False
    then show ?thesis using assms(1,2,4) unfolding wf_trie_def byte_keys_def by auto
  qed
qed

text \<open>C11: a trie has one shape for each content: whatever two sequences of updates and deletions are run on
  the empty trie, if they leave the same map then they leave the same nodes, caching flags aside, so
  the root hash depends on the content only and not on its history.\<close>

theorem trie_history_independent:
  assumes "trie_run ops emptyTrie = Some (r, t)" and "trie_run ops' emptyTrie = Some (r', t')"
    and "fold map_op ops Map.empty = fold map_op ops' Map.empty"
  shows "erase (t_root t) = erase (t_root t')"
proof -
  have t: "wf_trie t" "trie_content t = fold map_op ops Map.empty" "t_db t = noDb"
    using trie_map.run_content [OF wf_emptyTrie, of ops] assms(1) run_db [OF assms(1)] by (auto simp: empty_content)
  have t': "wf_trie t'" "trie_content t' = fold map_op ops' Map.empty" "t_db t' = noDb"
    using trie_map.run_content [OF wf_emptyTrie, of ops'] assms(2) run_db [OF assms(2)] by (auto simp: empty_content)
  have same: "same_content noDb (t_root t) (t_root t')" using same_map_same_content [OF t(1) t'(1)] t t' assms(3) by simp
  show ?thesis
  proof (cases "t_root t = NilNode \<or> t_root t' = NilNode")
    case True
    then have "t_root t = t_root t'"
      using same t(1,3) t'(1,3) wf_nonempty unfolding wf_trie_def wf_root_def same_content_def by (metis binds_simps(1))
    then show ?thesis by simp
  next
    case False
    then show ?thesis using canonical [OF _ _ same] t(1,3) t'(1,3) by (simp add: wf_trie_def wf_root_def)
  qed
qed

theorem trie_history_independent_witness:
  "\<exists>t t'. trie_run [Put [1] [7], Put [2] [8]] emptyTrie = Some (Ok (), t) \<and>
     trie_run [Put [2] [8], Put [3] [9], Put [1] [7], Del [3]] emptyTrie = Some (Ok (), t') \<and> erase (t_root t) = erase (t_root t')"
proof -
  obtain t t' where t: "trie_run [Put [1] [7], Put [2] [8]] emptyTrie = Some (Ok (), t)"
    and t': "trie_run [Put [2] [8], Put [3] [9], Put [1] [7], Del [3]] emptyTrie = Some (Ok (), t')"
    using trie_map.run_content [OF wf_emptyTrie] by metis
  have "fold map_op [Put [1] [7], Put [2] [8]] Map.empty = fold map_op [Put [2] [8], Put [3] [9], Put [1] [7], Del [3]] Map.empty"
    by (simp add: fun_eq_iff)
  from trie_history_independent [OF t t' this] t t' show ?thesis by blast
qed

text \<open>updating a key with an empty value does not delete it: the key stays bound to the empty value and a
  lookup finds it, although deleting the key would leave nothing to find.\<close>

theorem empty_update_keeps_key:
  assumes "wf_trie t"
  shows "(\<exists>t' t''. TryUpdate key [] t = Some (Ok (), t') \<and> TryGet key t' = Some (Ok (Some []), t'')) \<and>
    (\<exists>t' t''. TryDelete key t = Some (Ok (), t') \<and> TryGet key t' = Some (Ok None, t''))"
proof
  show "\<exists>t' t''. TryUpdate key [] t = Some (Ok (), t') \<and> TryGet key t' = Some (Ok (Some []), t'')"
    using trie_map.put_content [OF assms, of key "[]"] trie_map.get_content [of _ key] by (metis fun_upd_same)
  show "\<exists>t' t''. TryDelete key t = Some (Ok (), t') \<and> TryGet key t' = Some (Ok None, t'')"
    using trie_map.del_content [OF assms, of key] trie_map.get_content [of _ key] by (metis fun_upd_same)
qed

theorem empty_update_keeps_key_witness:
  "\<exists>t' t''. TryUpdate [1] [] emptyTrie = Some (Ok (), t') \<and> TryGet [1] t' = Some (Ok (Some []), t'')"
  by (rule empty_update_keeps_key [OF wf_emptyTrie, THEN conjunct1])

end
