(* ===== verification/Rlp_Encode.thy ===== *)
theory Rlp_Encode
  imports Go_Prelude
begin

text \<open>
  The RLP encoder of l2geth (\<open>l2geth/rlp/encode.go\<close>). The encoder collects string data and list
  headers apart, the headers with the position at which they belong, and joins them at the end.
  A value is what the encoder sees of a Go value after the reflection of \<open>makeWriter\<close> has chosen
  its writer. The theorem of the theory: the joined output is the recursive encoding that the
  format describes.
\<close>

unbundle bit_operations_syntax

section \<open>Sizes and headers\<close>

lemma drop_byte_less: "drop_bit 8 i \<noteq> 0 \<Longrightarrow> unat (drop_bit 8 i) < unat (i :: u64)"
proof -
  assume "drop_bit 8 i \<noteq> 0"
  then have "unat i \<noteq> 0" by (auto simp: unat_eq_zero)
  then have "unat i div 256 < unat i" by simp
  then show ?thesis by (simp only: unat_drop_bit_eq) (simp add: drop_bit_eq_div)
qed

function intsize :: "u64 \<Rightarrow> nat" where
  "intsize i = (let i' = drop_bit 8 i in if i' = 0 then 1 else Suc (intsize i'))"
  by auto

termination by (relation "measure unat") (auto simp: drop_byte_less)

declare intsize.simps [simp del]

definition putint :: "u64 \<Rightarrow> byte list" where
  "putint i =
    (if i < 2 ^ 8 then be_bytes 1 i
     else if i < 2 ^ 16 then be_bytes 2 i
     else if i < 2 ^ 24 then be_bytes 3 i
     else if i < 2 ^ 32 then be_bytes 4 i
     else if i < 2 ^ 40 then be_bytes 5 i
     else if i < 2 ^ 48 then be_bytes 6 i
     else if i < 2 ^ 56 then be_bytes 7 i
     else be_bytes 8 i)"

definition headsize :: "u64 \<Rightarrow> nat" where
  "headsize sz = (if sz < 56 then 1 else 1 + intsize sz)"

definition puthead :: "byte \<Rightarrow> byte \<Rightarrow> u64 \<Rightarrow> byte list" where
  "puthead smalltag largetag sz =
    (if sz < 56 then [smalltag + ucast sz]
     else (largetag + of_nat (length (putint sz))) # putint sz)"

section \<open>The encoding buffer\<close>

record listhead =
  lh_offset :: nat
  lh_size :: int

record encbuf =
  eb_str :: "byte list"
  eb_lheads :: "listhead list"
  eb_lhsize :: int

definition listhead_encode :: "listhead \<Rightarrow> byte list" where
  "listhead_encode head = puthead 0xC0 0xF7 (of_int (lh_size head))"

definition encbuf_reset :: encbuf where
  "encbuf_reset = \<lparr>eb_str = [], eb_lheads = [], eb_lhsize = 0\<rparr>"

definition encbuf_Write :: "byte list \<Rightarrow> (encbuf, unit) sm" where
  "encbuf_Write b = modM (\<lambda>w. w\<lparr>eb_str := eb_str w @ b\<rparr>)"

definition encodeStringHeader :: "nat \<Rightarrow> (encbuf, unit) sm" where
  "encodeStringHeader sz =
    (if sz < 56 then encbuf_Write [0x80 + of_nat sz]
     else let sizes = putint (of_nat sz) in encbuf_Write ((0xB7 + of_nat (length sizes)) # sizes))"

definition encodeString :: "byte list \<Rightarrow> (encbuf, unit) sm" where
  "encodeString b =
    (if length b = 1 \<and> b ! 0 \<le> 0x7F then encbuf_Write [b ! 0]
     else seqM (encodeStringHeader (length b)) (encbuf_Write b))"

definition encbuf_size :: "encbuf \<Rightarrow> int" where
  "encbuf_size w = int (length (eb_str w)) + eb_lhsize w"

text \<open>\<open>list\<close> hands out a pointer to the new header, here its index; \<open>listEnd\<close> writes through it.\<close>

definition encbuf_list :: "(encbuf, nat) sm" where
  "encbuf_list w = (Ok (length (eb_lheads w)),
     w\<lparr>eb_lheads := eb_lheads w @ [\<lparr>lh_offset = length (eb_str w), lh_size = eb_lhsize w\<rparr>]\<rparr>)"

definition listEnd :: "nat \<Rightarrow> encbuf \<Rightarrow> encbuf" where
  "listEnd lh w =
    (let head = eb_lheads w ! lh;
         sz = encbuf_size w - int (lh_offset head) - lh_size head
     in w\<lparr>eb_lheads := (eb_lheads w)[lh := head\<lparr>lh_size := sz\<rparr>],
          eb_lhsize := (if sz < 56 then eb_lhsize w + 1 else eb_lhsize w + 1 + int (intsize (of_int sz)))\<rparr>)"

text \<open>Writing a byte string over the allocated output; beyond its end Go panics.\<close>

definition overwrite :: "byte list \<Rightarrow> nat \<Rightarrow> byte list \<Rightarrow> byte list res" where
  "overwrite out pos bs =
    (if pos + length bs \<le> length out then Ok (take pos out @ bs @ drop (pos + length bs) out)
     else Panic ''index out of range'')"

fun toBytesFrom :: "byte list \<Rightarrow> listhead list \<Rightarrow> nat \<Rightarrow> nat \<Rightarrow> byte list \<Rightarrow> byte list res" where
  "toBytesFrom str [] strpos pos out = overwrite out pos (drop strpos str)"
| "toBytesFrom str (head # heads) strpos pos out =
    (let piece = take (lh_offset head - strpos) (drop strpos str); n = length piece;
         enc = listhead_encode head
     in bindR (overwrite out pos piece) (\<lambda>out.
        bindR (overwrite out (pos + n) enc) (\<lambda>out.
        toBytesFrom str heads (strpos + n) (pos + n + length enc) out)))"

definition toBytes :: "encbuf \<Rightarrow> byte list res" where
  "toBytes w = toBytesFrom (eb_str w) (eb_lheads w) 0 0 (replicate (nat (encbuf_size w)) 0)"

text \<open>\<open>toWriter\<close> on a writer that takes every write whole and appends it.\<close>

fun toWriterFrom :: "byte list \<Rightarrow> listhead list \<Rightarrow> nat \<Rightarrow> byte list \<Rightarrow> byte list" where
  "toWriterFrom str [] strpos out = (if strpos < length str then out @ drop strpos str else out)"
| "toWriterFrom str (head # heads) strpos out =
    (if strpos < lh_offset head
     then let piece = take (lh_offset head - strpos) (drop strpos str)
          in toWriterFrom str heads (strpos + length piece) (out @ piece @ listhead_encode head)
     else toWriterFrom str heads strpos (out @ listhead_encode head))"

definition toWriter :: "encbuf \<Rightarrow> byte list \<Rightarrow> byte list" where
  "toWriter w out = toWriterFrom (eb_str w) (eb_lheads w) 0 out"

section \<open>Writers\<close>

datatype Kind = Byte | String | List

text \<open>The values by the writer that \<open>makeWriter\<close> chooses: integers and nil pointers to them, byte
  strings (slices, arrays and strings alike), nil interfaces and pointers, slices, structs.\<close>

datatype rval =
    RawValue "byte list" | Uint u64 | Boolean bool | BigInt "int option" | Bytes "byte list"
  | NilInterface | NilPtr Kind | Slice "rval list" | Struct "rval list"

definition writeUint :: "u64 \<Rightarrow> (encbuf, unit) sm" where
  "writeUint i =
    (if i = 0 then encbuf_Write [0x80]
     else if i < 128 then encbuf_Write [ucast i]
     else encbuf_Write ((0x80 + of_nat (length (putint i))) # putint i))"

definition writeBool :: "bool \<Rightarrow> (encbuf, unit) sm" where
  "writeBool b = encbuf_Write [if b then 0x01 else 0x80]"

definition negativeErr :: goerr where
  "negativeErr = ErrNew ''rlp: cannot encode negative *big.Int''"

definition writeBigInt :: "int \<Rightarrow> (encbuf, unit) sm" where
  "writeBigInt i =
    (if i < 0 then failM negativeErr
     else if i = 0 then encbuf_Write [0x80]
     else encodeString (big_bytes (nat i)))"

definition writeBigIntPtr :: "int option \<Rightarrow> (encbuf, unit) sm" where
  "writeBigIntPtr p = (case p of None \<Rightarrow> encbuf_Write [0x80] | Some i \<Rightarrow> writeBigInt i)"

definition writeNilPtr :: "Kind \<Rightarrow> (encbuf, unit) sm" where
  "writeNilPtr nilKind =
    (if nilKind = String then encbuf_Write [0x80] else bindM encbuf_list (\<lambda>lh. modM (listEnd lh)))"

fun write_val :: "rval \<Rightarrow> (encbuf, unit) sm"
  and writeItems :: "rval list \<Rightarrow> (encbuf, unit) sm" where
  "write_val (RawValue b) = encbuf_Write b"
| "write_val (Uint i) = writeUint i"
| "write_val (Boolean b) = writeBool b"
| "write_val (BigInt p) = writeBigIntPtr p"
| "write_val (Bytes b) = encodeString b"
| "write_val NilInterface = encbuf_Write [0xC0]"
| "write_val (NilPtr k) = writeNilPtr k"
| "write_val (Slice vs) = bindM encbuf_list (\<lambda>lh w. case writeItems vs w of (r, w') \<Rightarrow> (r, listEnd lh w'))"
| "write_val (Struct vs) = bindM encbuf_list (\<lambda>lh. seqM (writeItems vs) (modM (listEnd lh)))"
| "writeItems [] = retM ()"
| "writeItems (v # vs) = seqM (write_val v) (writeItems vs)"

definition EncodeToBytes :: "rval \<Rightarrow> byte list res" where
  "EncodeToBytes v = (case write_val v encbuf_reset of
     (Ok _, w) \<Rightarrow> toBytes w | (Fail e, w) \<Rightarrow> Fail e | (Panic p, w) \<Rightarrow> Panic p | (Diverge, w) \<Rightarrow> Diverge)"

text \<open>\<open>Encode\<close> on an outer buffer writes into it, and on any other writer through a buffer of its own.\<close>

definition Encode :: "rval \<Rightarrow> byte list \<Rightarrow> byte list res" where
  "Encode v out = (case write_val v encbuf_reset of
     (Ok _, w) \<Rightarrow> Ok (toWriter w out) | (Fail e, w) \<Rightarrow> Fail e | (Panic p, w) \<Rightarrow> Panic p | (Diverge, w) \<Rightarrow> Diverge)"

section \<open>The format\<close>

text \<open>The recursive description of the encoding, as in the documentation of the package.\<close>

definition enc_string :: "byte list \<Rightarrow> byte list" where
  "enc_string b = (if length b = 1 \<and> b ! 0 \<le> 0x7F then b else puthead 0x80 0xB7 (of_nat (length b)) @ b)"

definition enc_list :: "byte list \<Rightarrow> byte list" where
  "enc_list content = puthead 0xC0 0xF7 (of_nat (length content)) @ content"

fun rlp_enc :: "rval \<Rightarrow> byte list" and rlp_encs :: "rval list \<Rightarrow> byte list" where
  "rlp_enc (RawValue b) = b"
| "rlp_enc (Uint i) = enc_string (big_bytes (unat i))"
| "rlp_enc (Boolean b) = enc_string (if b then [1] else [])"
| "rlp_enc (BigInt p) = enc_string (case p of None \<Rightarrow> [] | Some i \<Rightarrow> big_bytes (nat i))"
| "rlp_enc (Bytes b) = enc_string b"
| "rlp_enc NilInterface = enc_list []"
| "rlp_enc (NilPtr k) = (if k = String then enc_string [] else enc_list [])"
| "rlp_enc (Slice vs) = enc_list (rlp_encs vs)"
| "rlp_enc (Struct vs) = enc_list (rlp_encs vs)"
| "rlp_encs [] = []"
| "rlp_encs (v # vs) = rlp_enc v @ rlp_encs vs"

text \<open>A value can be encoded unless it holds a negative integer.\<close>

fun encodable :: "rval \<Rightarrow> bool" where
  "encodable (BigInt (Some i)) \<longleftrightarrow> 0 \<le> i"
| "encodable (Slice vs) \<longleftrightarrow> (\<forall>v \<in> set vs. encodable v)"
| "encodable (Struct vs) \<longleftrightarrow> (\<forall>v \<in> set vs. encodable v)"
| "encodable _ \<longleftrightarrow> True"

section \<open>Sizes of headers\<close>

lemma drop_byte_div: "unat (drop_bit 8 i) = unat (i :: u64) div 256"
  by (simp only: unat_drop_bit_eq) (simp add: drop_bit_eq_div)

lemma drop_byte_zero: "drop_bit 8 i = 0 \<longleftrightarrow> unat (i :: u64) < 256"
  by (metis drop_byte_div div_eq_0_iff unat_eq_zero zero_neq_numeral)

lemma intsize_le: "1 \<le> k \<Longrightarrow> intsize i \<le> k \<longleftrightarrow> unat i < 256 ^ k"
proof (induction i arbitrary: k rule: intsize.induct)
  case (1 i)
  show ?case
  proof (cases "drop_bit 8 i = 0")
    case True
    moreover from 1(2) have "(256 :: nat) ^ 1 \<le> 256 ^ k" by (intro power_increasing) simp_all
    ultimately show ?thesis using 1(2) by (simp add: intsize.simps [of i] drop_byte_zero)
  next
    case False
    then have big: "256 \<le> unat i" by (simp add: drop_byte_zero)
    show ?thesis
    proof (cases "k = 1")
      case True
      have "1 \<le> intsize (drop_bit 8 i)" by (subst intsize.simps) (simp add: Let_def)
      then show ?thesis using True False big by (simp add: intsize.simps [of i])
    next
      case k: False
      then obtain k' where k': "k = Suc k'" "1 \<le> k'" using 1(2) by (cases k) auto
      from 1(1) [OF refl False k'(2)] show ?thesis
        using k'(1) False by (simp add: intsize.simps [of i] drop_byte_div div_less_iff_less_mult mult.commute)
    qed
  qed
qed

lemma intsize_pos: "1 \<le> intsize i"
  by (subst intsize.simps) (simp add: Let_def)

lemma putint_be: "putint i = be_bytes (intsize i) i"
proof -
  have "unat i < 256 ^ 8" using unsigned_less [of i] by simp
  then have "intsize i \<le> 8" using intsize_le [of 8 i] by simp
  then consider "intsize i = 1" | "intsize i = 2" | "intsize i = 3" | "intsize i = 4"
    | "intsize i = 5" | "intsize i = 6" | "intsize i = 7" | "intsize i = 8"
    using intsize_pos [of i] by linarith
  then show ?thesis
    using intsize_le [of 1 i] intsize_le [of 2 i] intsize_le [of 3 i] intsize_le [of 4 i]
      intsize_le [of 5 i] intsize_le [of 6 i] intsize_le [of 7 i]
    by cases (simp_all add: putint_def word_less_nat_alt)
qed

lemma length_putint [simp]: "length (putint i) = intsize i"
  by (simp add: putint_be)

lemma length_puthead: "length (puthead a b sz) = headsize sz"
  by (simp add: puthead_def headsize_def)

lemma be_bytes_snoc: "be_bytes (Suc n) i = be_bytes n (drop_bit 8 i) @ [ucast i]"
  by (induction n) (simp_all add: ac_simps)

lemma big_bytes_snoc: "n \<noteq> 0 \<Longrightarrow> big_bytes n = big_bytes (n div 256) @ [of_nat (n mod 256)]"
  by (simp add: big_bytes.simps [of n])

lemma big_bytes_putint: "i \<noteq> 0 \<Longrightarrow> big_bytes (unat i) = putint i"
  unfolding putint_be
proof (induction i rule: intsize.induct)
  case (1 i)
  have low: "of_nat (unat i mod 256) = (ucast i :: byte)"
    by (rule word_unat_eq_iff [THEN iffD2]) (simp add: unat_of_nat unsigned_ucast_eq take_bit_eq_mod)
  from 1(2) have top: "big_bytes (unat i) = big_bytes (unat (drop_bit 8 i)) @ [ucast i]"
    using big_bytes_snoc [of "unat i"] by (simp add: drop_byte_div low unat_eq_zero)
  show ?case
  proof (cases "drop_bit 8 i = 0")
    case True
    then show ?thesis using top by (simp add: intsize.simps [of i])
  next
    case False
    then show ?thesis using 1(1) [OF refl False False] top by (simp only: intsize.simps [of i] Let_def be_bytes_snoc if_False)
  qed
qed

section \<open>Joining strings and headers\<close>

text \<open>The output from string position \<open>p\<close> on, and headers in order between two positions.\<close>

fun joined :: "byte list \<Rightarrow> listhead list \<Rightarrow> nat \<Rightarrow> byte list" where
  "joined str [] p = drop p str"
| "joined str (h # hs) p = take (lh_offset h - p) (drop p str) @ listhead_encode h @ joined str hs (lh_offset h)"

fun placed :: "nat \<Rightarrow> listhead list \<Rightarrow> nat \<Rightarrow> bool" where
  "placed p [] n \<longleftrightarrow> p \<le> n"
| "placed p (h # hs) n \<longleftrightarrow> p \<le> lh_offset h \<and> placed (lh_offset h) hs n"

definition heads_size :: "listhead list \<Rightarrow> nat" where
  "heads_size hs = sum_list (map (\<lambda>h. length (listhead_encode h)) hs)"

lemma placed_le: "placed p hs n \<Longrightarrow> p \<le> n"
  by (induction hs arbitrary: p) fastforce+

lemma placed_append: "placed p hs m \<Longrightarrow> placed m hs' n \<Longrightarrow> placed p (hs @ hs') n"
proof (induction hs arbitrary: p)
  case Nil
  then show ?case by (cases hs') auto
qed simp

lemma length_joined: "placed p hs (length s) \<Longrightarrow> length (joined s hs p) = length s - p + heads_size hs"
proof (induction hs arbitrary: p)
  case (Cons h hs)
  then show ?case using placed_le [of "lh_offset h" hs "length s"] by (simp add: heads_size_def)
qed (simp add: heads_size_def)

lemma joined_append:
  assumes "placed p hs (length s)" and "placed (length s) hs' n"
  shows "joined (s @ t) (hs @ hs') p = joined s hs p @ joined (s @ t) hs' (length s)"
  using assms
proof (induction hs arbitrary: p)
  case Nil
  then show ?case by (cases hs') (auto simp: diff_le_mono)
next
  case (Cons h hs)
  then show ?case using placed_le [of "lh_offset h" hs "length s"] by simp
qed

lemma overwrite_next:
  "pos + length bs \<le> length out \<Longrightarrow> pos \<le> length out \<Longrightarrow>
     \<exists>out'. overwrite out pos bs = Ok out' \<and> length out' = length out \<and> take (pos + length bs) out' = take pos out @ bs"
  by (simp add: overwrite_def)

lemma toBytesFrom_joined:
  "placed strpos heads (length str) \<Longrightarrow> pos + length (joined str heads strpos) = length out \<Longrightarrow>
     toBytesFrom str heads strpos pos out = Ok (take pos out @ joined str heads strpos)"
proof (induction heads arbitrary: strpos pos out)
  case Nil
  then show ?case by (simp add: overwrite_def)
next
  case (Cons h hs)
  let ?piece = "take (lh_offset h - strpos) (drop strpos str)"
  have off: "strpos \<le> lh_offset h" "lh_offset h \<le> length str" "length ?piece = lh_offset h - strpos"
    using Cons.prems(1) placed_le [of "lh_offset h" hs "length str"] by auto
  obtain out1 where out1: "overwrite out pos ?piece = Ok out1" "length out1 = length out"
    "take (pos + length ?piece) out1 = take pos out @ ?piece"
    using overwrite_next [of pos ?piece out] Cons.prems(2) by auto
  obtain out2 where out2: "overwrite out1 (pos + length ?piece) (listhead_encode h) = Ok out2" "length out2 = length out"
    "take (pos + length ?piece + length (listhead_encode h)) out2 = take pos out @ ?piece @ listhead_encode h"
    using overwrite_next [of "pos + length ?piece" "listhead_encode h" out1] Cons.prems(2) out1 by auto
  have "toBytesFrom str hs (lh_offset h) (pos + length ?piece + length (listhead_encode h)) out2 =
      Ok (take (pos + length ?piece + length (listhead_encode h)) out2 @ joined str hs (lh_offset h))"
    by (rule Cons.IH) (use Cons.prems out2(2) in auto)
  then show ?case using out1(1) out2(1,3) off by (simp add: Let_def)
qed

lemma toWriterFrom_joined:
  "placed strpos heads (length str) \<Longrightarrow> toWriterFrom str heads strpos out = out @ joined str heads strpos"
proof (induction heads arbitrary: strpos out)
  case (Cons h hs)
  then show ?case using placed_le [of "lh_offset h" hs "length str"] by (auto simp: Let_def)
qed simp

section \<open>What the writers write\<close>

text \<open>\<open>wrote w bs w'\<close>: from \<open>w\<close> to \<open>w'\<close> the buffer took string data and complete headers that join to \<open>bs\<close>.\<close>

definition wrote :: "encbuf \<Rightarrow> byte list \<Rightarrow> encbuf \<Rightarrow> bool" where
  "wrote w bs w' \<longleftrightarrow> (\<exists>s hs. w' = w\<lparr>eb_str := eb_str w @ s, eb_lheads := eb_lheads w @ hs, eb_lhsize := eb_lhsize w + int (heads_size hs)\<rparr> \<and>
     placed (length (eb_str w)) hs (length (eb_str w) + length s) \<and> joined (eb_str w @ s) hs (length (eb_str w)) = bs)"

lemma wrote_string: "wrote w b (w\<lparr>eb_str := eb_str w @ b\<rparr>)"
  unfolding wrote_def by (rule exI [of _ b], rule exI [of _ "[]"]) (simp add: heads_size_def)

lemma wrote_none: "wrote w [] w"
  using wrote_string [of w "[]"] by simp

lemma wrote_trans:
  assumes "wrote w a w'" and "wrote w' b w''"
  shows "wrote w (a @ b) w''"
proof -
  from assms(1) obtain s hs where 1: "w' = w\<lparr>eb_str := eb_str w @ s, eb_lheads := eb_lheads w @ hs, eb_lhsize := eb_lhsize w + int (heads_size hs)\<rparr>"
    "placed (length (eb_str w)) hs (length (eb_str w @ s))" "joined (eb_str w @ s) hs (length (eb_str w)) = a"
    by (auto simp: wrote_def)
  from assms(2) obtain t hs' where 2: "w'' = w'\<lparr>eb_str := eb_str w' @ t, eb_lheads := eb_lheads w' @ hs', eb_lhsize := eb_lhsize w' + int (heads_size hs')\<rparr>"
    "placed (length (eb_str w')) hs' (length (eb_str w') + length t)" "joined (eb_str w' @ t) hs' (length (eb_str w')) = b"
    by (auto simp: wrote_def)
  have str: "eb_str w' = eb_str w @ s" using 1(1) by simp
  note place = placed_append [OF 1(2) 2(2) [unfolded str]]
  have "joined (eb_str w @ s @ t) (hs @ hs') (length (eb_str w)) = a @ b"
    using joined_append [OF 1(2), of hs' _ t] 2(2,3) 1(3) unfolding str by simp
  with place show ?thesis unfolding wrote_def
    by (intro exI [of _ "s @ t"] exI [of _ "hs @ hs'"]) (simp add: 1(1) 2(1) heads_size_def add.assoc)
qed

lemma small_size: "n < 2 ^ 63 \<Longrightarrow> (of_nat n :: u64) < 56 \<longleftrightarrow> n < 56"
  by (simp add: word_less_nat_alt unat_of_nat)

lemma wrote_list:
  assumes "wrote (snd (encbuf_list w)) bs w'" and "length bs < 2 ^ 63"
  shows "wrote w (enc_list bs) (listEnd (length (eb_lheads w)) w')"
proof -
  let ?p = "length (eb_str w)" and ?h = "\<lparr>lh_offset = length (eb_str w), lh_size = eb_lhsize w\<rparr>"
  from assms(1) obtain s hs where w': "w' = w\<lparr>eb_str := eb_str w @ s, eb_lheads := eb_lheads w @ [?h] @ hs, eb_lhsize := eb_lhsize w + int (heads_size hs)\<rparr>"
    and place: "placed ?p hs (length (eb_str w @ s))" and bs: "joined (eb_str w @ s) hs ?p = bs"
    by (auto simp: wrote_def encbuf_list_def)
  have len: "int (length s) + int (heads_size hs) = int (length bs)"
    using length_joined [OF place] bs by simp
  let ?h' = "\<lparr>lh_offset = length (eb_str w), lh_size = int (length bs)\<rparr>"
  have head: "listhead_encode ?h' = puthead 0xC0 0xF7 (of_nat (length bs))" by (simp add: listhead_encode_def)
  have size_eq: "length (listhead_encode ?h') = (if int (length bs) < 56 then 1 else 1 + intsize (of_nat (length bs)))"
    using small_size [OF assms(2)] by (simp add: head length_puthead headsize_def)
  have "listEnd (length (eb_lheads w)) w' = w\<lparr>eb_str := eb_str w @ s, eb_lheads := eb_lheads w @ ?h' # hs,
      eb_lhsize := eb_lhsize w + int (heads_size (?h' # hs))\<rparr>"
    using len size_eq by (simp add: w' listEnd_def encbuf_size_def Let_def nth_append list_update_append heads_size_def)
  moreover have "joined (eb_str w @ s) (?h' # hs) ?p = enc_list bs" using bs by (simp add: head enc_list_def)
  ultimately show ?thesis using place unfolding wrote_def
    by (intro exI [of _ s] exI [of _ "?h' # hs"]) simp
qed

lemma byte_of_size: "n < 2 ^ 63 \<Longrightarrow> ucast (of_nat n :: u64) = (of_nat n :: byte)"
  by (rule word_unat_eq_iff [THEN iffD2]) (simp add: unsigned_ucast_eq unat_of_nat take_bit_eq_mod)

lemma encodeString_enc:
  assumes "length b < 2 ^ 63"
  shows "encodeString b = encbuf_Write (enc_string b)"
proof -
  have "length b = 1 \<Longrightarrow> [b ! 0] = b" by (cases b) auto
  moreover have "encodeStringHeader (length b) = encbuf_Write (puthead 0x80 0xB7 (of_nat (length b)))"
    using small_size [OF assms] byte_of_size [OF assms]
    by (auto simp: encodeStringHeader_def puthead_def Let_def)
  ultimately show ?thesis
    by (auto simp: encodeString_def enc_string_def encbuf_Write_def seqM_def bindM_def modM_def fun_eq_iff)
qed

lemma enc_string_empty: "enc_string [] = [0x80]"
  by (simp add: enc_string_def puthead_def)

lemma enc_list_empty: "enc_list [] = [0xC0]"
  by (simp add: enc_list_def puthead_def)

lemma intsize_le_8: "intsize i \<le> 8"
  using intsize_le [of 8 i] unsigned_less [of i] by simp

lemma writeUint_enc: "writeUint i = encbuf_Write (enc_string (big_bytes (unat i)))"
proof (cases "i < 128")
  case True
  show ?thesis
  proof (cases "i = 0")
    case False
    from True have "unat i < 128" by (simp add: word_less_nat_alt)
    then have "intsize i = 1" "drop_bit 8 i = 0" using intsize_le [of 1 i] intsize_pos [of i] by (simp_all add: drop_byte_zero)
    moreover have "(ucast i :: byte) \<le> 0x7F" using \<open>unat i < 128\<close> by (simp add: word_le_nat_alt unsigned_ucast_eq take_bit_eq_mod)
    ultimately show ?thesis using True False by (simp add: writeUint_def big_bytes_putint putint_be enc_string_def)
  qed (simp add: writeUint_def enc_string_empty)
next
  case False
  then have "i \<noteq> 0" by auto
  have size: "intsize i < 56" "(of_nat (intsize i) :: u64) < 56"
    using intsize_le_8 [of i] by (simp_all add: word_less_nat_alt unat_of_nat)
  have "\<not> (intsize i = 1 \<and> putint i ! 0 \<le> 0x7F)"
  proof
    assume "intsize i = 1 \<and> putint i ! 0 \<le> 0x7F"
    then have one: "intsize i = 1" and low: "putint i ! 0 \<le> 0x7F" by simp_all
    from one have "unat i < 256" using intsize_le [of 1 i] by simp
    then have "unat i < 128" using low by (simp add: putint_be one word_le_nat_alt unsigned_ucast_eq take_bit_eq_mod)
    with False show False by (simp add: word_less_nat_alt)
  qed
  then have "enc_string (putint i) = (0x80 + of_nat (intsize i)) # putint i"
    using size byte_of_size [of "intsize i"] by (simp add: enc_string_def puthead_def)
  then show ?thesis using False \<open>i \<noteq> 0\<close> by (simp add: writeUint_def big_bytes_putint)
qed

lemma writeBigIntPtr_enc:
  assumes "encodable (BigInt p)" and "length (rlp_enc (BigInt p)) < 2 ^ 63"
  shows "writeBigIntPtr p = encbuf_Write (rlp_enc (BigInt p))"
proof (cases p)
  case (Some i)
  have "length (big_bytes (nat i)) < 2 ^ 63" using assms(2) Some by (auto simp: enc_string_def split: if_splits)
  then show ?thesis using assms(1) Some
    by (simp add: writeBigIntPtr_def writeBigInt_def encodeString_enc enc_string_empty)
qed (simp add: writeBigIntPtr_def enc_string_empty)

lemma wrote_Write: "f = encbuf_Write bs \<Longrightarrow> \<exists>w'. f w = (Ok (), w') \<and> wrote w bs w'"
  using wrote_string by (simp add: encbuf_Write_def modM_def)

lemma length_enc_le: "length bs \<le> length (enc_list bs)" "length bs \<le> length (enc_string bs)"
  by (simp_all add: enc_list_def enc_string_def)

lemma encbuf_list_eq: "encbuf_list w = (Ok (length (eb_lheads w)), snd (encbuf_list w))"
  by (simp add: encbuf_list_def)

lemma bindM_list: "bindM encbuf_list f w = f (length (eb_lheads w)) (snd (encbuf_list w))"
  by (subst bindM_def, subst encbuf_list_eq) simp

lemma writeNilPtr_wrote: "\<exists>w'. writeNilPtr k w = (Ok (), w') \<and> wrote w (rlp_enc (NilPtr k)) w'"
proof (cases "k = String")
  case True
  then show ?thesis by (intro wrote_Write) (simp add: writeNilPtr_def enc_string_empty)
next
  case False
  then show ?thesis using wrote_list [OF wrote_none, of w] by (simp add: writeNilPtr_def bindM_list modM_def)
qed

lemma write_wrote:
  "encodable v \<Longrightarrow> length (rlp_enc v) < 2 ^ 63 \<Longrightarrow> \<exists>w'. write_val v w = (Ok (), w') \<and> wrote w (rlp_enc v) w'"
  "(\<forall>v \<in> set vs. encodable v) \<Longrightarrow> length (rlp_encs vs) < 2 ^ 63 \<Longrightarrow>
     \<exists>w'. writeItems vs w = (Ok (), w') \<and> wrote w (rlp_encs vs) w'"
proof (induction v and vs arbitrary: w and w rule: write_val_writeItems.induct)
  case (2 i)
  then show ?case by (intro wrote_Write) (simp add: writeUint_enc)
next
  case (3 b)
  show ?case by (rule wrote_Write) (simp add: writeBool_def enc_string_empty enc_string_def puthead_def)
next
  case (4 p)
  then show ?case using wrote_Write [OF writeBigIntPtr_enc] by (simp del: rlp_enc.simps)
next
  case (5 b)
  then show ?case using length_enc_le(2) [of b] wrote_Write [OF encodeString_enc, of b w] by simp
next
  case (8 vs)
  then have len: "length (rlp_encs vs) < 2 ^ 63" using length_enc_le(1) [of "rlp_encs vs"] by simp
  obtain w' where "writeItems vs (snd (encbuf_list w)) = (Ok (), w')" "wrote (snd (encbuf_list w)) (rlp_encs vs) w'"
    using 8(1) [OF _ len, of "snd (encbuf_list w)"] 8(2) by auto
  then show ?case using wrote_list [OF _ len] by (simp add: bindM_list)
next
  case (9 vs)
  then have len: "length (rlp_encs vs) < 2 ^ 63" using length_enc_le(1) [of "rlp_encs vs"] by simp
  obtain w' where "writeItems vs (snd (encbuf_list w)) = (Ok (), w')" "wrote (snd (encbuf_list w)) (rlp_encs vs) w'"
    using 9(1) [OF _ len, of "snd (encbuf_list w)"] 9(2) by auto
  then show ?case using wrote_list [OF _ len] by (simp add: bindM_list seqM_def modM_def res_simps)
next
  case (11 v vs)
  then obtain w1 where w1: "write_val v w = (Ok (), w1)" "wrote w (rlp_enc v) w1" by fastforce
  from 11 obtain w2 where w2: "writeItems vs w1 = (Ok (), w2)" "wrote w1 (rlp_encs vs) w2" by fastforce
  from w1 w2 wrote_trans show ?case by (auto simp: seqM_def bindM_def)
qed (use writeNilPtr_wrote wrote_none wrote_Write in \<open>auto simp: enc_list_empty retM_def\<close>)

lemma wrote_output:
  assumes "wrote encbuf_reset bs w"
  shows "toBytes w = Ok bs" and "toWriter w out = out @ bs"
proof -
  from assms have place: "placed 0 (eb_lheads w) (length (eb_str w))" and bs: "joined (eb_str w) (eb_lheads w) 0 = bs"
    and "eb_lhsize w = int (heads_size (eb_lheads w))"
    by (auto simp: wrote_def encbuf_reset_def)
  then have "nat (encbuf_size w) = length bs" using length_joined [OF place] by (simp add: encbuf_size_def)
  then show "toBytes w = Ok bs" using toBytesFrom_joined [OF place, of 0] bs by (simp add: toBytes_def)
  show "toWriter w out = out @ bs" using toWriterFrom_joined [OF place] bs by (simp add: toWriter_def)
qed

lemma basic_Ok: "fst (encbuf_Write b w) = Ok ()" "fst (encodeString b w) = Ok ()" "fst (writeUint i w) = Ok ()"
  by (simp_all add: encbuf_Write_def encodeString_def encodeStringHeader_def writeUint_def modM_def seqM_def bindM_def Let_def)

lemma write_rejects:
  "fst (write_val v w) = (if encodable v then Ok () else Fail negativeErr)"
  "fst (writeItems vs w) = (if \<forall>v \<in> set vs. encodable v then Ok () else Fail negativeErr)"
proof (induction v and vs arbitrary: w and w rule: write_val_writeItems.induct)
  case (4 p)
  show ?case
    by (cases p) (auto simp: writeBigIntPtr_def writeBigInt_def failM_def basic_Ok)
next
  case (8 vs)
  show ?case using 8 [of "snd (encbuf_list w)"]
    by (cases "writeItems vs (snd (encbuf_list w))") (simp add: bindM_list)
next
  case (9 vs)
  show ?case using 9 [of "snd (encbuf_list w)"]
    by (cases "writeItems vs (snd (encbuf_list w))") (auto simp: bindM_list seqM_def res_simps split: if_splits)
next
  case (11 v vs)
  obtain r w1 where w1: "write_val v w = (r, w1)" by fastforce
  with 11(1) [of w] 11(2) [of w1] show ?case by (auto simp: seqM_def bindM_def)
qed (simp_all add: basic_Ok writeBool_def writeNilPtr_def bindM_list modM_def retM_def)

lemma encode_result:
  assumes "length (rlp_enc v) < 2 ^ 63"
  shows "EncodeToBytes v = (if encodable v then Ok (rlp_enc v) else Fail negativeErr) \<and>
    Encode v out = (if encodable v then Ok (out @ rlp_enc v) else Fail negativeErr)"
proof (cases "encodable v")
  case True
  then obtain w where "write_val v encbuf_reset = (Ok (), w)" "wrote encbuf_reset (rlp_enc v) w"
    using write_wrote(1) [OF _ assms] by blast
  then show ?thesis using True by (simp add: EncodeToBytes_def Encode_def wrote_output)
next
  case False
  then have "fst (write_val v encbuf_reset) = Fail negativeErr" by (simp add: write_rejects)
  then show ?thesis using False by (auto simp: EncodeToBytes_def Encode_def split: prod.splits)
qed

lemma encode_enc:
  assumes "length (rlp_enc v) < 2 ^ 63" and "encodable v"
  shows "EncodeToBytes v = Ok (rlp_enc v)" and "Encode v out = Ok (out @ rlp_enc v)"
  using encode_result [OF assms(1)] assms(2) by auto

text \<open>C10: encoding a value gives exactly the recursive RLP encoding of the value, whether the buffer is turned
  into a byte slice or written out piece by piece: the sizes recorded while the headers were still
  open are right, the allocated slice is filled exactly, and nothing is written out of range. The
  one value that is refused is a negative integer.\<close>

theorem rlp_encode_faithful:
  assumes "length (rlp_enc v) < 2 ^ 63"
  shows "EncodeToBytes v = (if encodable v then Ok (rlp_enc v) else Fail negativeErr) \<and>
    Encode v out = (if encodable v then Ok (out @ rlp_enc v) else Fail negativeErr)"
  by (rule encode_result [OF assms])

theorem rlp_encode_faithful_witness:
  "EncodeToBytes (Struct [Uint 1024, Slice [Bytes [1, 2], NilInterface], Bytes []]) =
     Ok [0xC9, 0x82, 4, 0, 0xC4, 0x82, 1, 2, 0xC0, 0x80]"
proof -
  have "big_bytes 1024 = [4, 0]" by (simp add: big_bytes.simps)
  then have enc: "rlp_enc (Struct [Uint 1024, Slice [Bytes [1, 2], NilInterface], Bytes []]) =
      [0xC9, 0x82, 4, 0, 0xC4, 0x82, 1, 2, 0xC0, 0x80]"
    by (simp add: enc_list_def enc_string_def puthead_def)
  then show ?thesis using rlp_encode_faithful [of "Struct [Uint 1024, Slice [Bytes [1, 2], NilInterface], Bytes []]"] by simp
qed

end
