(* ===== verification/Rlp_Raw.thy ===== *)
theory Rlp_Raw
  imports Rlp_Encode
begin

text \<open>
  Splitting encoded RLP values without decoding them (\<open>l2geth/rlp/raw.go\<close>), and its agreement with
  the encoder: what the encoder writes is split into its parts, and nothing else is accepted.
\<close>

unbundle bit_operations_syntax

section \<open>Operations\<close>

definition ErrExpectedString :: goerr where
  "ErrExpectedString = Sentinel ''rlp: expected String or Byte''"

definition ErrExpectedList :: goerr where
  "ErrExpectedList = Sentinel ''rlp: expected List''"

definition ErrCanonSize :: goerr where
  "ErrCanonSize = Sentinel ''rlp: non-canonical size information''"

definition ErrValueTooLarge :: goerr where
  "ErrValueTooLarge = Sentinel ''rlp: value size exceeds available input length''"

definition ListSize :: "u64 \<Rightarrow> u64" where
  "ListSize contentSize = of_nat (headsize contentSize) + contentSize"

definition readSize :: "byte list \<Rightarrow> byte \<Rightarrow> u64 res" where
  "readSize b slen =
    (if length b < unat slen then Fail io_ErrUnexpectedEOF
     else let s = (if 1 \<le> slen \<and> slen \<le> 8 then be_val (take (unat slen) b) else 0)
          in if s < 56 \<or> b ! 0 = 0 then Fail ErrCanonSize else Ok s)"

definition readKind :: "byte list \<Rightarrow> (Kind \<times> u64 \<times> u64) res" where
  "readKind buf =
    (if buf = [] then Fail io_ErrUnexpectedEOF
     else let b = buf ! 0 in
       bindR
        (if b < 0x80 then Ok (Byte, 0, 1)
         else if b < 0xB8 then
           (if ucast (b - 0x80) = (1 :: u64) \<and> 1 < length buf \<and> buf ! 1 < 128 then Fail ErrCanonSize
            else Ok (String, 1, ucast (b - 0x80)))
         else if b < 0xC0 then bindR (readSize (tl buf) (b - 0xB7)) (\<lambda>n. Ok (String, ucast (b - 0xB7) + 1, n))
         else if b < 0xF8 then Ok (List, 1, ucast (b - 0xC0))
         else bindR (readSize (tl buf) (b - 0xF7)) (\<lambda>n. Ok (List, ucast (b - 0xF7) + 1, n)))
        (\<lambda>(k, tagsize, contentsize).
          if of_nat (length buf) - tagsize < contentsize then Fail ErrValueTooLarge
          else Ok (k, tagsize, contentsize)))"

definition Split :: "byte list \<Rightarrow> (Kind \<times> byte list \<times> byte list) res" where
  "Split b = bindR (readKind b) (\<lambda>(k, ts, cs).
     Ok (k, take (unat cs) (drop (unat ts) b), drop (unat (ts + cs)) b))"

definition SplitString :: "byte list \<Rightarrow> (byte list \<times> byte list) res" where
  "SplitString b = bindR (Split b) (\<lambda>(k, content, rest).
     if k = List then Fail ErrExpectedString else Ok (content, rest))"

definition SplitList :: "byte list \<Rightarrow> (byte list \<times> byte list) res" where
  "SplitList b = bindR (Split b) (\<lambda>(k, content, rest).
     if k \<noteq> List then Fail ErrExpectedList else Ok (content, rest))"

text \<open>The loop of \<open>CountValues\<close> removes at least one byte in each round, so as many rounds as there
  are bytes are enough.\<close>

fun countFrom :: "nat \<Rightarrow> nat \<Rightarrow> byte list \<Rightarrow> nat res" where
  "countFrom fuel i [] = Ok i"
| "countFrom 0 i b = Diverge"
| "countFrom (Suc fuel) i b = bindR (readKind b) (\<lambda>(k, tagsize, contentsize).
     countFrom fuel (i + 1) (drop (unat (tagsize + contentsize)) b))"

definition CountValues :: "byte list \<Rightarrow> nat res" where
  "CountValues b = countFrom (length b) 0 b"

section \<open>Sizes are read back\<close>

lemma big_val_snoc: "big_val (bs @ [b]) = big_val bs * 256 + unat b"
  by (simp add: big_val_def)

lemma byte_less: "unat (b :: byte) < 256"
  using unsigned_less [of b] by simp

lemma big_val_less: "big_val bs < 256 ^ length bs"
proof (induction bs rule: rev_induct)
  case (snoc b bs)
  then show ?case using byte_less [of b] by (simp add: big_val_snoc)
qed (simp add: big_val_def)

lemma big_val_pos: "bs \<noteq> [] \<Longrightarrow> hd bs \<noteq> 0 \<Longrightarrow> 0 < big_val bs"
proof (induction bs rule: rev_induct)
  case (snoc b bs)
  then show ?case by (cases "bs = []") (simp_all add: big_val_snoc big_val_def unat_gt_0 word_neq_0_conv)
qed simp

lemma big_bytes_val: "bs \<noteq> [] \<Longrightarrow> hd bs \<noteq> 0 \<Longrightarrow> big_bytes (big_val bs) = bs"
proof (induction bs rule: rev_induct)
  case (snoc b bs)
  have "big_val (bs @ [b]) \<noteq> 0" using big_val_pos [OF snoc.prems] by simp
  moreover have "big_val (bs @ [b]) div 256 = big_val bs" "big_val (bs @ [b]) mod 256 = unat b"
    using byte_less [of b] by (simp_all add: big_val_snoc)
  ultimately have "big_bytes (big_val (bs @ [b])) = big_bytes (big_val bs) @ [b]"
    using big_bytes_snoc by simp
  moreover have "big_bytes (big_val bs) = bs" using snoc by (cases "bs = []") (simp_all add: big_val_def)
  ultimately show ?case by simp
qed simp

lemma big_bytes_hd: "0 < n \<Longrightarrow> hd (big_bytes n) \<noteq> 0 \<and> big_bytes n \<noteq> []"
proof (induction n rule: big_bytes.induct)
  case (1 n)
  show ?case
  proof (cases "n < 256")
    case True
    then have "big_bytes n = [of_nat n]" using 1(2) big_bytes_snoc [of n] by simp
    moreover have "(of_nat n :: byte) \<noteq> 0" using True 1(2) by (auto simp: word_of_nat_eq_0_iff dest: dvd_imp_le)
    ultimately show ?thesis by simp
  next
    case False
    then have "0 < n div 256" by simp
    with 1 False show ?thesis using big_bytes_snoc [of n] by simp
  qed
qed

lemma unat_be_val: "length bs \<le> 8 \<Longrightarrow> unat (be_val bs) = big_val bs"
proof (induction bs rule: rev_induct)
  case (snoc b bs)
  have "push_bit 8 (be_val bs) OR ucast b = push_bit 8 (be_val bs) + (ucast b :: u64)"
    by (rule disjunctive_add [symmetric]) (auto simp: bit_simps dest: bit_imp_le_length)
  then have "be_val (bs @ [b]) = be_val bs * 256 + ucast b" by (simp add: be_val_def push_bit_eq_mult)
  moreover have "big_val bs < 256 ^ 7"
    using big_val_less [of bs] snoc.prems power_increasing [of "length bs" 7 "256 :: nat"] by simp
  ultimately show ?case using snoc byte_less [of b]
    by (simp add: big_val_snoc unat_word_ariths unsigned_ucast_eq take_bit_eq_mod)
qed (simp add: be_val_def big_val_def)

lemma putint_size:
  assumes "s \<noteq> 0"
  shows "be_val (putint s) = s" and "putint s ! 0 \<noteq> 0" and "putint s \<noteq> []"
proof -
  have big: "big_bytes (unat s) = putint s" by (rule big_bytes_putint [OF assms])
  have "unat (be_val (putint s)) = unat s"
    using unat_be_val [of "putint s"] intsize_le_8 [of s] big_val_bytes [of "unat s"] by (simp add: big)
  then show "be_val (putint s) = s" by (simp add: word_unat_eq_iff)
  have "0 < unat s" using assms by (simp add: unat_gt_0)
  from big_bytes_hd [OF this] show "putint s ! 0 \<noteq> 0" "putint s \<noteq> []" by (auto simp: big hd_conv_nth)
qed

lemma readSize_putint:
  assumes "56 \<le> s"
  shows "readSize (putint s @ rest) (of_nat (intsize s)) = Ok s"
proof -
  have s: "s \<noteq> 0" "\<not> s < 56" using assms by (auto simp: not_less)
  have n: "unat (of_nat (intsize s) :: byte) = intsize s" using intsize_le_8 [of s] by (simp add: unat_of_nat)
  then have "1 \<le> (of_nat (intsize s) :: byte)" "(of_nat (intsize s) :: byte) \<le> 8"
    using intsize_le_8 [of s] intsize_pos [of s] by (simp_all add: word_le_nat_alt)
  then show ?thesis using s n putint_size [OF s(1)] intsize_pos [of s]
    by (simp add: readSize_def Let_def nth_append)
qed

lemma readSize_canonical:
  assumes "readSize b slen = Ok s" and "1 \<le> slen" and "slen \<le> 8"
  shows "\<exists>rest. b = putint s @ rest" and "unat slen = intsize s" and "56 \<le> s"
proof -
  let ?p = "take (unat slen) b"
  have n: "1 \<le> unat slen" "unat slen \<le> 8" using assms(2,3) by (simp_all add: word_le_nat_alt)
  have s: "unat slen \<le> length b" "s = be_val ?p" "56 \<le> s" "b ! 0 \<noteq> 0"
    using assms by (auto simp: readSize_def Let_def not_less split: if_splits)
  have hd: "?p \<noteq> []" "hd ?p \<noteq> 0" using n s(1,4) by (cases b; auto)+
  have "unat s = big_val ?p" using unat_be_val [of ?p] s(1,2) n by simp
  moreover have "s \<noteq> 0" using s(3) by auto
  ultimately have p: "putint s = ?p" using big_bytes_val [OF hd] big_bytes_putint [of s] by simp
  show "\<exists>rest. b = putint s @ rest" using p by (metis append_take_drop_id)
  show "unat slen = intsize s" using arg_cong [OF p, of length] s(1) by simp
  show "56 \<le> s" by (rule s(3))
qed

section \<open>Splitting\<close>

definition enc_item :: "Kind \<Rightarrow> byte list \<Rightarrow> byte list" where
  "enc_item k c = (if k = List then enc_list c else enc_string c)"

definition kind_of :: "bool \<Rightarrow> byte list \<Rightarrow> Kind" where
  "kind_of is_list c = (if is_list then List else if length c = 1 \<and> c ! 0 \<le> 0x7F then Byte else String)"

lemma unat_tag: "unat tag + n < 256 \<Longrightarrow> unat ((tag :: byte) + of_nat n) = unat tag + n"
  by (simp add: unat_word_ariths unat_of_nat)

lemma fits_check: "t + c \<le> n \<Longrightarrow> n < 2 ^ 63 \<Longrightarrow> \<not> (of_nat n - of_nat t :: u64) < of_nat c"
  by (simp add: word_less_nat_alt unat_of_nat flip: of_nat_diff)

lemma byte_size: "n < 256 \<Longrightarrow> ucast (of_nat n :: byte) = (of_nat n :: u64)"
  by (rule word_unat_eq_iff [THEN iffD2]) (simp add: unsigned_ucast_eq unat_of_nat take_bit_eq_mod)

lemma readKind_small:
  assumes "length c < 56" and "length (c @ rest) < 2 ^ 63 - 1"
  shows "readKind ((0xC0 + of_nat (length c)) # c @ rest) = Ok (List, 1, of_nat (length c))"
    and "\<not> (length c = 1 \<and> c ! 0 \<le> 0x7F) \<Longrightarrow> readKind ((0x80 + of_nat (length c)) # c @ rest) = Ok (String, 1, of_nat (length c))"
proof -
  have tag: "unat (0xC0 + of_nat (length c) :: byte) = 192 + length c" "unat (0x80 + of_nat (length c) :: byte) = 128 + length c"
    using assms(1) unat_tag [of "0xC0" "length c"] unat_tag [of "0x80" "length c"] by simp_all
  have size: "ucast (of_nat (length c) :: byte) = (of_nat (length c) :: u64)" using assms(1) by (intro byte_size) simp
  have fit: "\<not> (of_nat (length ((b :: byte) # c @ rest)) - 1 :: u64) < of_nat (length c)" for b
    using fits_check [of 1 "length c" "length (b # c @ rest)"] assms(2) by simp
  show "readKind ((0xC0 + of_nat (length c)) # c @ rest) = Ok (List, 1, of_nat (length c))"
    using tag fit assms(1) by (simp add: readKind_def Let_def word_less_nat_alt size)
  assume single: "\<not> (length c = 1 \<and> c ! 0 \<le> 0x7F)"
  have "of_nat (length c) = (1 :: u64) \<longleftrightarrow> length c = 1" using assms(1) by (simp add: word_unat_eq_iff unat_of_nat)
  then have "\<not> (of_nat (length c) = (1 :: u64) \<and> 1 < length ((b :: byte) # c @ rest) \<and> (c @ rest) ! 0 < 128)" for b
    using single by (cases c) (auto simp: word_less_nat_alt word_le_nat_alt)
  then show "readKind ((0x80 + of_nat (length c)) # c @ rest) = Ok (String, 1, of_nat (length c))"
    using tag fit assms(1) by (auto simp: readKind_def Let_def word_less_nat_alt size)
qed

lemma readKind_large:
  fixes c rest :: "byte list"
  defines "n \<equiv> of_nat (length c) :: u64"
  assumes "56 \<le> length c" and "length (putint n @ c @ rest) < 2 ^ 63 - 1"
  shows "readKind ((0xF7 + of_nat (intsize n)) # putint n @ c @ rest) = Ok (List, of_nat (intsize n) + 1, n)"
    and "readKind ((0xB7 + of_nat (intsize n)) # putint n @ c @ rest) = Ok (String, of_nat (intsize n) + 1, n)"
proof -
  have k: "1 \<le> intsize n" "intsize n \<le> 8" by (rule intsize_pos, rule intsize_le_8)
  then have tag: "unat (0xF7 + of_nat (intsize n) :: byte) = 247 + intsize n" "unat (0xB7 + of_nat (intsize n) :: byte) = 183 + intsize n"
    using unat_tag [of "0xF7" "intsize n"] unat_tag [of "0xB7" "intsize n"] by simp_all
  have n: "56 \<le> n" using assms by (simp add: word_le_nat_alt unat_of_nat)
  have size: "ucast (of_nat (intsize n) :: byte) = (of_nat (intsize n) :: u64)" using k by (intro byte_size) simp
  have "\<not> (of_nat (length ((b :: byte) # putint n @ c @ rest)) - (of_nat (intsize n) + 1) :: u64) < n" for b
    using fits_check [of "intsize n + 1" "length c" "length (b # putint n @ c @ rest)"] assms(3) by (simp add: n_def)
  then show "readKind ((0xF7 + of_nat (intsize n)) # putint n @ c @ rest) = Ok (List, of_nat (intsize n) + 1, n)"
    "readKind ((0xB7 + of_nat (intsize n)) # putint n @ c @ rest) = Ok (String, of_nat (intsize n) + 1, n)"
    using tag k readSize_putint [OF n, of "c @ rest"] by (simp_all add: readKind_def Let_def word_less_nat_alt size)
qed

lemma readKind_byte:
  assumes "b \<le> 0x7F" and "length rest < 2 ^ 63 - 1"
  shows "readKind (b # rest) = Ok (Byte, 0, 1)"
  using fits_check [of 0 1 "length (b # rest)"] assms by (simp add: readKind_def Let_def word_less_nat_alt word_le_nat_alt)

lemma puthead_size:
  assumes "length c < 2 ^ 63"
  shows "puthead s l (of_nat (length c)) = (if length c < 56 then [s + of_nat (length c)]
     else (l + of_nat (intsize (of_nat (length c)))) # putint (of_nat (length c)))"
  using small_size [OF assms] byte_of_size [OF assms] by (simp add: puthead_def)

lemma readKind_enc:
  assumes "length (enc_item (kind_of l c) c @ rest) < 2 ^ 63"
  shows "\<exists>ts. readKind (enc_item (kind_of l c) c @ rest) = Ok (kind_of l c, ts, of_nat (length c)) \<and>
     length (enc_item (kind_of l c) c) = unat ts + length c \<and> drop (unat ts) (enc_item (kind_of l c) c) = c"
proof (cases "kind_of l c = Byte")
  case True
  then obtain b where "c = [b]" "b \<le> 0x7F" by (cases c) (auto simp: kind_of_def split: if_splits)
  then show ?thesis using True readKind_byte [of b rest] assms by (auto simp: enc_item_def enc_string_def)
next
  case False
  let ?tags = "if l then (0xC0, 0xF7) else (0x80 :: byte, 0xB7 :: byte)" and ?n = "of_nat (length c) :: u64"
  have kind: "kind_of l c = (if l then List else String)" and single: "\<not> l \<Longrightarrow> \<not> (length c = 1 \<and> c ! 0 \<le> 0x7F)"
    using False by (auto simp: kind_of_def split: if_splits)
  have enc: "enc_item (kind_of l c) c = puthead (fst ?tags) (snd ?tags) ?n @ c"
    using single by (auto simp: enc_item_def kind enc_list_def enc_string_def)
  have len: "length c < 2 ^ 63" using assms enc by simp
  note head = puthead_size [OF len, of "fst ?tags" "snd ?tags"]
  show ?thesis
  proof (cases "length c < 56")
    case True
    have "length (c @ rest) < 2 ^ 63 - 1" using assms enc head True by simp
    from readKind_small [OF True this] single True show ?thesis unfolding enc head by (auto simp: kind intro!: exI [of _ 1])
  next
    case large: False
    have size: "unat (of_nat (intsize ?n) + 1 :: u64) = intsize ?n + 1"
      using intsize_le_8 [of ?n] by (simp add: unat_word_ariths unat_of_nat)
    have "length (putint ?n @ c @ rest) < 2 ^ 63 - 1" using assms enc head large by simp
    from readKind_large [OF _ this] large size show ?thesis unfolding enc head
      by (auto simp: kind intro!: exI [of _ "of_nat (intsize ?n) + 1"])
  qed
qed

lemma Split_enc:
  assumes "length (enc_item (kind_of l c) c @ rest) < 2 ^ 63"
  shows "Split (enc_item (kind_of l c) c @ rest) = Ok (kind_of l c, c, rest)"
proof -
  obtain ts where ts: "readKind (enc_item (kind_of l c) c @ rest) = Ok (kind_of l c, ts, of_nat (length c))"
    "length (enc_item (kind_of l c) c) = unat ts + length c" "drop (unat ts) (enc_item (kind_of l c) c) = c"
    using readKind_enc [OF assms] by blast
  have "unat (of_nat (length c) :: u64) = length c" using assms ts(2) by (simp add: unat_of_nat)
  moreover from this have "unat (ts + of_nat (length c)) = unat ts + length c"
    using assms ts(2) by (simp add: unat_word_ariths)
  ultimately show ?thesis using ts by (simp add: Split_def)
qed

lemma fits_le: "\<not> (of_nat n - t :: u64) < c \<Longrightarrow> unat t \<le> n \<Longrightarrow> n < 2 ^ 63 \<Longrightarrow> unat t + unat c \<le> n"
  by (simp add: word_less_nat_alt unat_sub_if' unat_of_nat)

lemma small_canonical:
  assumes "unat (t - s) < 56" and "\<not> (of_nat (length (t # bs)) - 1 :: u64) < ucast (t - s)" and "length (t # bs) < 2 ^ 63"
  defines "c \<equiv> take (unat (t - s)) bs"
  shows "t # bs = puthead s l (of_nat (length c)) @ c @ drop (unat (t - s)) bs" and "length c = unat (t - s)"
    and "of_nat (length c) = (ucast (t - s) :: u64)"
proof -
  have u: "unat (ucast (t - s) :: u64) = unat (t - s)" using byte_less [of "t - s"] by (simp add: unsigned_ucast_eq take_bit_eq_mod)
  show len: "length c = unat (t - s)" using fits_le [OF assms(2) _ assms(3)] u by (simp add: c_def)
  show "of_nat (length c) = (ucast (t - s) :: u64)" using len by simp
  have "puthead s l (of_nat (length c)) = [s + of_nat (unat (t - s))]"
    using puthead_size [of c s l] assms(1) len by simp
  then show "t # bs = puthead s l (of_nat (length c)) @ c @ drop (unat (t - s)) bs" by (simp add: c_def)
qed

lemma large_canonical:
  assumes "readSize bs (t - l) = Ok n" and "1 \<le> t - l" and "t - l \<le> 8"
    and "\<not> (of_nat (length (t # bs)) - (ucast (t - l) + 1) :: u64) < n" and "length (t # bs) < 2 ^ 63"
  shows "\<exists>c rest. t # bs = puthead s l (of_nat (length c)) @ c @ rest \<and> n = of_nat (length c) \<and> 56 \<le> length c"
proof -
  obtain r where r: "bs = putint n @ r" using readSize_canonical(1) [OF assms(1-3)] by blast
  have k: "unat (t - l) = intsize n" and n: "56 \<le> n" using readSize_canonical(2,3) [OF assms(1-3)] by simp_all
  have tl: "t = l + of_nat (intsize n)" unfolding k [symmetric] by simp
  have "unat (ucast (t - l) + 1 :: u64) = intsize n + 1"
    using k intsize_le_8 [of n] by (simp add: unat_word_ariths unsigned_ucast_eq take_bit_eq_mod)
  then have fit: "unat n \<le> length r" using fits_le [OF assms(4) _ assms(5)] r by simp
  define c where "c = take (unat n) r"
  have c: "length c = unat n" "of_nat (length c) = n" using fit by (simp_all add: c_def)
  have "56 \<le> unat n" using n by (simp add: word_le_nat_alt)
  then have "puthead s l (of_nat (length c)) = t # putint n" using c n tl by (simp add: puthead_def leD)
  then have "t # bs = puthead s l (of_nat (length c)) @ c @ drop (unat n) r" using r by (simp add: c_def)
  then show ?thesis using c \<open>56 \<le> unat n\<close> by metis
qed

lemma canonical_item:
  assumes "l \<or> \<not> (length c = 1 \<and> c ! 0 \<le> 0x7F)" and "k = (if l then List else String)" and "n = of_nat (length c)"
    and "b = (if l then puthead 0xC0 0xF7 (of_nat (length c)) else puthead 0x80 0xB7 (of_nat (length c))) @ c @ rest"
  shows "\<exists>l c rest. b = enc_item (kind_of l c) c @ rest \<and> k = kind_of l c \<and> n = of_nat (length c)"
  using assms
  by (intro exI [of _ l] exI [of _ c] exI [of _ rest]) (auto simp: kind_of_def enc_item_def enc_list_def enc_string_def)

lemma canonical_small:
  assumes "unat (t - (if l then 0xC0 else 0x80)) < 56" and "\<not> (of_nat (length (t # bs)) - 1 :: u64) < ucast (t - (if l then 0xC0 else 0x80))"
    and "length (t # bs) < 2 ^ 63" and "l \<or> \<not> (ucast (t - 0x80) = (1 :: u64) \<and> bs \<noteq> [] \<and> bs ! 0 < 128)"
  shows "\<exists>m c rest. t # bs = enc_item (kind_of m c) c @ rest \<and> (if l then List else String) = kind_of m c \<and>
    ucast (t - (if l then 0xC0 else 0x80)) = (of_nat (length c) :: u64)"
proof (rule canonical_item [of l "take (unat (t - (if l then 0xC0 else 0x80))) bs"])
  let ?s = "if l then 0xC0 else 0x80 :: byte"
  note c = small_canonical [OF assms(1-3)]
  show "ucast (t - ?s) = (of_nat (length (take (unat (t - ?s)) bs)) :: u64)" using c(3) by simp
  show "l \<or> \<not> (length (take (unat (t - ?s)) bs) = 1 \<and> take (unat (t - ?s)) bs ! 0 \<le> 0x7F)"
  proof (rule ccontr)
    assume "\<not> ?thesis"
    then have a: "\<not> l" "length (take (unat (t - ?s)) bs) = 1" "take (unat (t - ?s)) bs ! 0 \<le> 0x7F" by blast+
    have "ucast (t - ?s) = (1 :: u64)" using c(3) a(2) by (metis of_nat_1)
    moreover have u: "unat (t - ?s) = 1" using c(2) a(2) by simp
    moreover have "bs \<noteq> []" using a(2) by auto
    moreover have "bs ! 0 < 128" using a(3) unfolding u by (simp add: word_less_nat_alt word_le_nat_alt)
    ultimately show False using assms(4) a(1) by simp
  qed
  show "t # bs = (if l then puthead 0xC0 0xF7 (of_nat (length (take (unat (t - ?s)) bs)))
      else puthead 0x80 0xB7 (of_nat (length (take (unat (t - ?s)) bs)))) @ take (unat (t - ?s)) bs @ drop (unat (t - ?s)) bs"
    using c(1) [where l = "0xF7"] c(1) [where l = "0xB7"] by (cases l) simp_all
qed simp

lemma canonical_large:
  assumes "readSize bs (t - (if l then 0xF7 else 0xB7)) = Ok n" and "1 \<le> t - (if l then 0xF7 else 0xB7)" and "t - (if l then 0xF7 else 0xB7) \<le> 8"
    and "\<not> (of_nat (length (t # bs)) - (ucast (t - (if l then 0xF7 else 0xB7)) + 1) :: u64) < n" and "length (t # bs) < 2 ^ 63"
  shows "\<exists>m c rest. t # bs = enc_item (kind_of m c) c @ rest \<and> (if l then List else String) = kind_of m c \<and> n = of_nat (length c)"
proof -
  obtain c rest where "t # bs = puthead (if l then 0xC0 else 0x80) (if l then 0xF7 else 0xB7) (of_nat (length c)) @ c @ rest"
    "n = of_nat (length c)" "56 \<le> length c" using large_canonical [OF assms] by blast
  then show ?thesis by (intro canonical_item [of l c _ _ _ rest]) auto
qed

lemma readKind_canonical:
  assumes "readKind b = Ok (k, ts, cs)" and "length b < 2 ^ 63"
  shows "\<exists>l c rest. b = enc_item (kind_of l c) c @ rest \<and> k = kind_of l c \<and> cs = of_nat (length c)"
proof -
  from assms(1) obtain t bs where b: "b = t # bs" by (cases b) (auto simp: readKind_def)
  note unfold = readKind_def Let_def bindR_Ok_iff not_less [symmetric]
  note len = assms(2) [unfolded b]
  consider "t < 0x80" | "0x80 \<le> t" "t < 0xB8" | "0xB8 \<le> t" "t < 0xC0" | "0xC0 \<le> t" "t < 0xF8" | "0xF8 \<le> t" by fastforce
  then show ?thesis
  proof cases
    case 1
    then have "k = Byte" "cs = 1" using assms(1) b by (auto simp: unfold split: if_splits)
    moreover have "t \<le> 0x7F" using 1 by (simp add: word_le_nat_alt word_less_nat_alt)
    ultimately show ?thesis using b
      by (intro exI [of _ False] exI [of _ "[t]"] exI [of _ bs]) (simp add: kind_of_def enc_item_def enc_string_def)
  next
    case 2
    then have no: "\<not> t < 0x80" by (simp add: word_less_nat_alt word_le_nat_alt)
    with 2 have k: "k = String" "cs = ucast (t - 0x80)" "\<not> (of_nat (length (t # bs)) - 1 :: u64) < ucast (t - 0x80)"
      "\<not> (ucast (t - 0x80) = (1 :: u64) \<and> bs \<noteq> [] \<and> bs ! 0 < 128)"
      using assms(1) b by (auto simp: unfold split: if_splits)
    have "unat (t - 0x80) < 56" using 2 by (simp add: word_less_nat_alt word_le_nat_alt unat_sub)
    then show ?thesis using canonical_small [of t False bs] k len b by simp
  next
    case 3
    then have no: "\<not> t < 0x80" "\<not> t < 0xB8" by (simp_all add: word_less_nat_alt word_le_nat_alt)
    with 3 have n: "readSize bs (t - 0xB7) = Ok cs" "k = String" "\<not> (of_nat (length (t # bs)) - (ucast (t - 0xB7) + 1) :: u64) < cs"
      using assms(1) b by (auto simp: unfold split: if_splits)
    have "1 \<le> t - 0xB7" "t - 0xB7 \<le> 8" using 3 by (simp_all add: word_less_nat_alt word_le_nat_alt unat_sub)
    then show ?thesis using canonical_large [of bs t False] n len b by simp
  next
    case 4
    then have no: "\<not> t < 0x80" "\<not> t < 0xB8" "\<not> t < 0xC0" by (simp_all add: word_less_nat_alt word_le_nat_alt)
    with 4 have k: "k = List" "cs = ucast (t - 0xC0)" "\<not> (of_nat (length (t # bs)) - 1 :: u64) < ucast (t - 0xC0)"
      using assms(1) b by (auto simp: unfold split: if_splits)
    have "unat (t - 0xC0) < 56" using 4 by (simp add: word_less_nat_alt word_le_nat_alt unat_sub)
    then show ?thesis using canonical_small [of t True bs] k len b by simp
  next
    case 5
    then have no: "\<not> t < 0x80" "\<not> t < 0xB8" "\<not> t < 0xC0" "\<not> t < 0xF8" by (simp_all add: word_less_nat_alt word_le_nat_alt)
    with 5 have n: "readSize bs (t - 0xF7) = Ok cs" "k = List" "\<not> (of_nat (length (t # bs)) - (ucast (t - 0xF7) + 1) :: u64) < cs"
      using assms(1) b by (auto simp: unfold split: if_splits)
    have "1 \<le> t - 0xF7" "t - 0xF7 \<le> 8" using 5 byte_less [of t] by (simp_all add: word_less_nat_alt word_le_nat_alt unat_sub)
    then show ?thesis using canonical_large [of bs t True] n len b by simp
  qed
qed

lemma kind_list [simp]: "kind_of l c = List \<longleftrightarrow> l" "kind_of (k = List) c = kind_of False c \<longleftrightarrow> k \<noteq> List"
  by (auto simp: kind_of_def)

lemma Split_iff:
  assumes "length b < 2 ^ 63"
  shows "Split b = Ok (k, c, rest) \<longleftrightarrow> b = enc_item k c @ rest \<and> k = kind_of (k = List) c"
proof
  assume split: "Split b = Ok (k, c, rest)"
  then obtain ts cs where "readKind b = Ok (k, ts, cs)" by (auto simp: Split_def bindR_Ok_iff)
  then obtain l c' rest' where b: "b = enc_item (kind_of l c') c' @ rest'" using readKind_canonical assms by blast
  then have "Split b = Ok (kind_of l c', c', rest')" using Split_enc assms by blast
  with split have "k = kind_of l c" "c' = c" "rest' = rest" by auto
  then show "b = enc_item k c @ rest \<and> k = kind_of (k = List) c" using b by simp
next
  assume "b = enc_item k c @ rest \<and> k = kind_of (k = List) c"
  then show "Split b = Ok (k, c, rest)" using Split_enc [of "k = List" c rest] assms by metis
qed

lemma Split_returns: "Split b \<noteq> Diverge" "Split b \<noteq> Panic p"
  by (auto simp: Split_def readKind_def readSize_def Let_def elim!: bindR.elims split: if_splits)

section \<open>Counting\<close>

definition enc_items :: "(bool \<times> byte list) list \<Rightarrow> byte list" where
  "enc_items items = concat (map (\<lambda>(l, c). enc_item (kind_of l c) c) items)"

lemma enc_item_pos: "enc_item (kind_of l c) c \<noteq> []"
  by (auto simp: enc_item_def enc_list_def enc_string_def puthead_def)

lemma enc_items_simps [simp]:
  "enc_items [] = []" "enc_items ((l, c) # items) = enc_item (kind_of l c) c @ enc_items items"
  by (simp_all add: enc_items_def)

lemma countFrom_step:
  "b \<noteq> [] \<Longrightarrow> countFrom (Suc fuel) i b = bindR (readKind b) (\<lambda>(k, tagsize, contentsize).
     countFrom fuel (i + 1) (drop (unat (tagsize + contentsize)) b))"
  by (cases b) simp_all

lemma readKind_next:
  assumes "length (enc_item (kind_of l c) c @ rest) < 2 ^ 63"
  obtains ts cs where "readKind (enc_item (kind_of l c) c @ rest) = Ok (kind_of l c, ts, cs)"
    and "drop (unat (ts + cs)) (enc_item (kind_of l c) c @ rest) = rest"
  using Split_enc [OF assms] by (auto simp: Split_def bindR_Ok_iff)

lemma countFrom_enc:
  "length (enc_items items) < 2 ^ 63 \<Longrightarrow> length (enc_items items) \<le> fuel \<Longrightarrow> countFrom fuel i (enc_items items) = Ok (i + length items)"
proof (induction items arbitrary: i fuel)
  case (Cons item items)
  obtain l c where item: "item = (l, c)" by fastforce
  obtain f where f: "fuel = Suc f" using Cons.prems enc_item_pos [of l c] by (cases fuel) (auto simp: item)
  obtain ts cs where ts: "readKind (enc_items (item # items)) = Ok (kind_of l c, ts, cs)" "drop (unat (ts + cs)) (enc_items (item # items)) = enc_items items"
    using readKind_next [of l c "enc_items items"] Cons.prems(1) item by auto
  have "countFrom f (i + 1) (enc_items items) = Ok (i + 1 + length items)"
    by (rule Cons.IH) (use Cons.prems f item enc_item_pos [of l c] in \<open>cases "enc_item (kind_of l c) c"; simp\<close>)+
  moreover have "enc_items (item # items) \<noteq> []" using enc_item_pos item by simp
  ultimately show ?case using countFrom_step [of "enc_items (item # items)" f i] ts f by simp
qed simp

lemma readKind_outcomes: "(\<exists>x. readKind b = Ok x) \<or> (\<exists>e. readKind b = Fail e)"
  by (auto simp: readKind_def readSize_def Let_def)

lemma countFrom_canonical:
  "length b < 2 ^ 63 \<Longrightarrow> length b \<le> fuel \<Longrightarrow> (\<exists>items. b = enc_items items) \<or> (\<exists>e. countFrom fuel i b = Fail e)"
proof (induction fuel arbitrary: i b)
  case 0
  then show ?case by (auto intro: exI [of _ "[]"])
next
  case (Suc fuel)
  show ?case
  proof (cases "b = []")
    case False
    show ?thesis
    proof (cases "\<exists>x. readKind b = Ok x")
      case True
      then obtain l c rest where b: "b = enc_item (kind_of l c) c @ rest" using readKind_canonical [OF _ Suc.prems(1)] by (metis prod_cases3)
      then obtain ts cs where ts: "readKind b = Ok (kind_of l c, ts, cs)" "drop (unat (ts + cs)) b = rest"
        using readKind_next Suc.prems(1) by metis
      have "length rest < 2 ^ 63" "length rest \<le> fuel" using b Suc.prems enc_item_pos [of l c] by (cases "enc_item (kind_of l c) c"; simp)+
      from Suc.IH [OF this, of "i + 1"] show ?thesis
      proof
        assume "\<exists>items. rest = enc_items items"
        then show ?thesis using b by (metis enc_items_simps(2))
      qed (use countFrom_step [OF False] ts in simp)
    qed (use readKind_outcomes [of b] countFrom_step [OF False] in auto)
  qed (auto intro: exI [of _ "[]"])
qed

lemma CountValues_iff:
  assumes "length b < 2 ^ 63"
  shows "CountValues b = Ok n \<longleftrightarrow> (\<exists>items. b = enc_items items \<and> n = length items)"
proof
  assume "CountValues b = Ok n"
  then show "\<exists>items. b = enc_items items \<and> n = length items"
    using countFrom_canonical [OF assms order_refl, of 0] countFrom_enc [of _ "length b" 0] assms by (auto simp: CountValues_def)
next
  assume "\<exists>items. b = enc_items items \<and> n = length items"
  then show "CountValues b = Ok n" using countFrom_enc [of _ "length b" 0] assms by (auto simp: CountValues_def)
qed

lemma CountValues_outcomes:
  assumes "length b < 2 ^ 63"
  shows "(\<exists>n. CountValues b = Ok n) \<or> (\<exists>e. CountValues b = Fail e)"
  using countFrom_canonical [OF assms order_refl, of 0] CountValues_iff [OF assms] by (auto simp: CountValues_def)

text \<open>C17: splitting the first RLP value off a byte string succeeds exactly on the canonical encodings: the
  result is a kind, a content and a rest if and only if the input is the encoding of that content
  with that kind followed by that rest. So encodings are split correctly, no byte string has two
  readings, and non-canonical sizes are refused.\<close>

theorem rlp_split_exact:
  assumes "length b < 2 ^ 63"
  shows "Split b = Ok (k, c, rest) \<longleftrightarrow> b = enc_item k c @ rest \<and> k = kind_of (k = List) c"
  by (rule Split_iff [OF assms])

theorem rlp_split_exact_witness:
  "Split [0xC3, 0x82, 7, 8, 9] = Ok (List, [0x82, 7, 8], [9]) \<and> Split [0x81, 5] \<noteq> Ok (String, [5], [])"
proof -
  have "[0xC3, 0x82, 7, 8, 9] = enc_item List [0x82, 7, 8] @ [9]" by (simp add: enc_item_def enc_list_def puthead_def)
  moreover have "String \<noteq> kind_of False [5]" by (simp add: kind_of_def)
  ultimately show ?thesis
    using rlp_split_exact [of "[0xC3, 0x82, 7, 8, 9]" List "[0x82, 7, 8]" "[9]"] rlp_split_exact [of "[0x81, 5]" String "[5]" "[]"]
    by (simp add: kind_of_def)
qed

end
