(* ===== verification/Trie_Node.thy ===== *)
theory Trie_Node
  imports Trie_Map Rlp_Raw
begin

text \<open>
  Encoding and decoding of trie nodes (\<open>l2geth/trie/node.go\<close>) and the compact form in which the
  node database keeps them (\<open>l2geth/trie/database.go\<close>): a node is read back either from the database
  cache, by expanding its compact form, or from disk, by decoding its RLP encoding.
\<close>

section \<open>Encoding\<close>

text \<open>A node as the RLP encoder sees it: a short node is a struct of its key and its child, a full
  node writes its children as an array, with an empty string for a missing child.\<close>

fun node_val :: "node \<Rightarrow> rval" where
  "node_val NilNode = NilInterface"
| "node_val (ValueNode v) = Bytes v"
| "node_val (HashNode h) = Bytes h"
| "node_val (ShortNode k v fl) = Struct [Bytes k, node_val v]"
| "node_val (FullNode cs fl) = Slice (map (\<lambda>c. if c = NilNode then Bytes [] else node_val c) cs)"

abbreviation node_enc :: "node \<Rightarrow> byte list" where
  "node_enc n \<equiv> rlp_enc (node_val n)"

section \<open>Decoding\<close>

definition hashLen :: nat where
  "hashLen = 32"

text \<open>\<open>fmt.Errorf\<close> with the verb for a value: a new error that no longer holds the old one.\<close>

fun errorfR :: "string \<Rightarrow> 'a res \<Rightarrow> 'a res" where
  "errorfR msg (Fail e) = Fail (ErrNew msg)"
| "errorfR msg r = r"

text \<open>The decoders call each other on shorter and shorter input; each takes the decoder for an embedded
  node as an argument, and the depth of the embedding bounds the recursion.\<close>

definition decodeRef :: "(byte list option \<Rightarrow> byte list \<Rightarrow> node res) \<Rightarrow> byte list \<Rightarrow> (node \<times> byte list) res" where
  "decodeRef dec buf = bindR (Split buf) (\<lambda>(kind, val, rest).
     if kind = List then
       (if hashLen < length buf - length rest then Fail (ErrNew ''oversized embedded node'')
        else bindR (dec None buf) (\<lambda>n. Ok (n, rest)))
     else if kind = String \<and> length val = 0 then Ok (NilNode, rest)
     else if kind = String \<and> length val = 32 then Ok (HashNode val, rest)
     else Fail (ErrNew ''invalid RLP string size''))"

definition decodeShort :: "(byte list option \<Rightarrow> byte list \<Rightarrow> node res) \<Rightarrow> byte list option \<Rightarrow> byte list \<Rightarrow> node res" where
  "decodeShort dec hash elems = bindR (SplitString elems) (\<lambda>(kbuf, rest).
     let flag = \<lparr>fl_hash = hash, fl_dirty = False\<rparr>; key = compactToHex kbuf in
     if hasTerm key then
       bindR (errorfR ''invalid value node'' (SplitString rest)) (\<lambda>(val, _). Ok (ShortNode key (ValueNode val) flag))
     else bindR (wrapR ''val'' (decodeRef dec rest)) (\<lambda>(r, _). Ok (ShortNode key r flag)))"

fun decodeChildren :: "(byte list option \<Rightarrow> byte list \<Rightarrow> node res) \<Rightarrow> nat \<Rightarrow> byte list \<Rightarrow> (node list \<times> byte list) res" where
  "decodeChildren dec 0 elems = Ok ([], elems)"
| "decodeChildren dec (Suc n) elems = bindR (wrapR ''[i]'' (decodeRef dec elems)) (\<lambda>(cld, rest).
     bindR (decodeChildren dec n rest) (\<lambda>(cs, rest). Ok (cld # cs, rest)))"

definition decodeFull :: "(byte list option \<Rightarrow> byte list \<Rightarrow> node res) \<Rightarrow> byte list option \<Rightarrow> byte list \<Rightarrow> node res" where
  "decodeFull dec hash elems = bindR (decodeChildren dec 16 elems) (\<lambda>(cs, elems).
     bindR (SplitString elems) (\<lambda>(val, _).
     Ok (FullNode (cs @ [if 0 < length val then ValueNode val else NilNode]) \<lparr>fl_hash = hash, fl_dirty = False\<rparr>)))"

definition decodeBody :: "(byte list option \<Rightarrow> byte list \<Rightarrow> node res) \<Rightarrow> byte list option \<Rightarrow> byte list \<Rightarrow> node res" where
  "decodeBody dec hash buf =
    (if buf = [] then Fail io_ErrUnexpectedEOF
     else bindR (errorfR ''decode error'' (SplitList buf)) (\<lambda>(elems, _).
       let c = (case CountValues elems of Ok c \<Rightarrow> c | _ \<Rightarrow> 0) in
       if c = 2 then wrapR ''short'' (decodeShort dec hash elems)
       else if c = 17 then wrapR ''full'' (decodeFull dec hash elems)
       else Fail (ErrNew ''invalid number of list elements'')))"

primrec decodeDepth :: "nat \<Rightarrow> byte list option \<Rightarrow> byte list \<Rightarrow> node res" where
  "decodeDepth 0 hash buf = Diverge"
| "decodeDepth (Suc n) hash buf = decodeBody (decodeDepth n) hash buf"

definition decodeNode :: "byte list option \<Rightarrow> byte list \<Rightarrow> node res" where
  "decodeNode hash buf = decodeDepth (Suc (length buf)) hash buf"

definition mustDecodeNode :: "byte list option \<Rightarrow> byte list \<Rightarrow> node res" where
  "mustDecodeNode hash buf = (case decodeNode hash buf of Fail e \<Rightarrow> Panic ''node'' | r \<Rightarrow> r)"

section \<open>The compact form\<close>

datatype rawnode =
    RawNil
  | RawBlob "byte list"
  | RawValueNode "byte list"
  | RawHashNode "byte list"
  | RawShortNode "byte list" rawnode
  | RawFullNode "rawnode list"

fun simplifyNode :: "node \<Rightarrow> rawnode res" and simplifyChildren :: "node list \<Rightarrow> rawnode list res" where
  "simplifyNode NilNode = Panic ''unknown node type''"
| "simplifyNode (ValueNode v) = Ok (RawValueNode v)"
| "simplifyNode (HashNode h) = Ok (RawHashNode h)"
| "simplifyNode (ShortNode k v fl) = bindR (simplifyNode v) (\<lambda>v. Ok (RawShortNode k v))"
| "simplifyNode (FullNode cs fl) = bindR (simplifyChildren cs) (\<lambda>cs. Ok (RawFullNode cs))"
| "simplifyChildren [] = Ok []"
| "simplifyChildren (c # cs) = bindR (if c \<noteq> NilNode then simplifyNode c else Ok RawNil) (\<lambda>r.
     bindR (simplifyChildren cs) (\<lambda>rs. Ok (r # rs)))"

fun expandNode :: "byte list option \<Rightarrow> rawnode \<Rightarrow> node res" and expandChildren :: "rawnode list \<Rightarrow> node list res" where
  "expandNode hash RawNil = Panic ''unknown node type''"
| "expandNode hash (RawBlob b) = Panic ''unknown node type''"
| "expandNode hash (RawValueNode v) = Ok (ValueNode v)"
| "expandNode hash (RawHashNode h) = Ok (HashNode h)"
| "expandNode hash (RawShortNode k v) = bindR (expandNode None v) (\<lambda>v.
     Ok (ShortNode (compactToHex k) v \<lparr>fl_hash = hash, fl_dirty = False\<rparr>))"
| "expandNode hash (RawFullNode cs) = bindR (expandChildren cs) (\<lambda>cs. Ok (FullNode cs \<lparr>fl_hash = hash, fl_dirty = False\<rparr>))"
| "expandChildren [] = Ok []"
| "expandChildren (c # cs) = bindR (if c \<noteq> RawNil then expandNode None c else Ok NilNode) (\<lambda>n.
     bindR (expandChildren cs) (\<lambda>ns. Ok (n # ns)))"

text \<open>The compact form encodes like the node it stands for.\<close>

fun raw_val :: "rawnode \<Rightarrow> rval" where
  "raw_val RawNil = NilInterface"
| "raw_val (RawBlob b) = Bytes b"
| "raw_val (RawValueNode v) = Bytes v"
| "raw_val (RawHashNode h) = Bytes h"
| "raw_val (RawShortNode k v) = Struct [Bytes k, raw_val v]"
| "raw_val (RawFullNode cs) = Slice (map (\<lambda>c. if c = RawNil then Bytes [] else raw_val c) cs)"

fun forGatherChildren :: "rawnode \<Rightarrow> byte list list res" and gatherChildren :: "nat \<Rightarrow> rawnode list \<Rightarrow> byte list list res" where
  "forGatherChildren RawNil = Ok []"
| "forGatherChildren (RawBlob b) = Panic ''unknown node type''"
| "forGatherChildren (RawValueNode v) = Ok []"
| "forGatherChildren (RawHashNode h) = Ok [BytesToHash h]"
| "forGatherChildren (RawShortNode k v) = forGatherChildren v"
| "forGatherChildren (RawFullNode cs) = gatherChildren 16 cs"
| "gatherChildren (Suc n) (c # cs) = bindR (forGatherChildren c) (\<lambda>hs. bindR (gatherChildren n cs) (\<lambda>rest. Ok (hs @ rest)))"
| "gatherChildren _ _ = Ok []"

section \<open>Stored nodes\<close>

text \<open>The nodes that hashing stores: keys in compact form, children that are hashes of 32 bytes or
  embedded nodes whose encoding is no longer than a hash, and no empty value in a full node.\<close>

inductive stored :: "node \<Rightarrow> bool" and child_ref :: "node \<Rightarrow> bool" where
  stored_leaf: "hasTerm (compactToHex k) \<Longrightarrow> stored (ShortNode k (ValueNode v) fl)"
| stored_ext: "\<not> hasTerm (compactToHex k) \<Longrightarrow> child_ref c \<Longrightarrow> stored (ShortNode k c fl)"
| stored_full: "length cs = 17 \<Longrightarrow> \<forall>i < 16. cs ! i = NilNode \<or> child_ref (cs ! i) \<Longrightarrow>
    cs ! 16 = NilNode \<or> (\<exists>v. v \<noteq> [] \<and> cs ! 16 = ValueNode v) \<Longrightarrow> stored (FullNode cs fl)"
| child_hash: "length h = 32 \<Longrightarrow> child_ref (HashNode h)"
| child_node: "stored n \<Longrightarrow> length (node_enc n) \<le> hashLen \<Longrightarrow> child_ref n"

section \<open>Nodes as items\<close>

fun item :: "node \<Rightarrow> bool \<times> byte list" where
  "item NilNode = (False, [])"
| "item (ValueNode v) = (False, v)"
| "item (HashNode h) = (False, h)"
| "item (ShortNode k v fl) = (True, enc_string k @ node_enc v)"
| "item (FullNode cs fl) = (True, rlp_encs (map (\<lambda>c. if c = NilNode then Bytes [] else node_val c) cs))"

lemma enc_item_kind [simp]: "enc_item (kind_of l c) c = (if l then enc_list c else enc_string c)"
  by (simp add: enc_item_def)

lemma node_enc_item: "n \<noteq> NilNode \<Longrightarrow> node_enc n = enc_items [item n]"
  by (cases n) simp_all

lemma children_enc: "rlp_encs (map (\<lambda>c. if c = NilNode then Bytes [] else node_val c) cs) = enc_items (map item cs)"
  by (induction cs) (auto simp: enc_items_def node_enc_item)

lemma short_enc: "c \<noteq> NilNode \<Longrightarrow> node_enc (ShortNode k c fl) = enc_list (enc_items [(False, k), item c])"
  by (simp add: node_enc_item)

lemma full_enc: "node_enc (FullNode cs fl) = enc_list (enc_items (map item cs))"
  by (simp add: children_enc)

lemma Split_string: "length (enc_string c @ rest) < 2 ^ 63 \<Longrightarrow> Split (enc_string c @ rest) = Ok (kind_of False c, c, rest)"
  using Split_enc [of False c rest] by simp

lemma Split_list: "length (enc_list c @ rest) < 2 ^ 63 \<Longrightarrow> Split (enc_list c @ rest) = Ok (List, c, rest)"
  using Split_enc [of True c rest] by (simp add: kind_of_def enc_item_def)

lemma SplitString_enc:
  assumes "length (enc_string c @ rest) < 2 ^ 63"
  shows "SplitString (enc_string c @ rest) = Ok (c, rest)"
  using Split_string [OF assms] by (simp add: SplitString_def)

lemma SplitList_enc:
  assumes "length (enc_list c @ rest) < 2 ^ 63"
  shows "SplitList (enc_list c @ rest) = Ok (c, rest)"
  using Split_list [OF assms] by (simp add: SplitList_def)

lemma enc_list_longer: "length c < length (enc_list c)"
  by (simp add: enc_list_def puthead_def)

lemma decodeBody_list:
  assumes "length (enc_list (enc_items items) @ rest) < 2 ^ 63"
  shows "decodeBody dec hash (enc_list (enc_items items) @ rest) =
    (if length items = 2 then wrapR ''short'' (decodeShort dec hash (enc_items items))
     else if length items = 17 then wrapR ''full'' (decodeFull dec hash (enc_items items))
     else Fail (ErrNew ''invalid number of list elements''))"
proof -
  have "length (enc_items items) < 2 ^ 63" using assms enc_list_longer [of "enc_items items"] by simp
  then have "CountValues (enc_items items) = Ok (length items)" using CountValues_iff by blast
  moreover have "enc_list (enc_items items) \<noteq> []" using enc_list_longer [of "enc_items items"] by auto
  ultimately show ?thesis using SplitList_enc [OF assms] by (simp add: decodeBody_def)
qed

section \<open>Reading back\<close>

text \<open>A reference, and a stored node, are read back to what their compact form expands to.\<close>

definition ref_back :: "node \<Rightarrow> bool" where
  "ref_back c \<longleftrightarrow> c \<noteq> NilNode \<and> (\<exists>r m. simplifyNode c = Ok r \<and> r \<noteq> RawNil \<and> expandNode None r = Ok m \<and>
     (\<forall>d rest. length (node_enc c @ rest) < 2 ^ 63 \<longrightarrow> length (node_enc c) \<le> d \<longrightarrow>
        decodeRef (decodeDepth d) (node_enc c @ rest) = Ok (m, rest)))"

definition node_back :: "node \<Rightarrow> bool" where
  "node_back n \<longleftrightarrow> (\<exists>r. simplifyNode n = Ok r \<and> r \<noteq> RawNil \<and> (\<forall>hash. \<exists>m. expandNode hash r = Ok m \<and>
     (\<forall>d rest. length (node_enc n @ rest) < 2 ^ 63 \<longrightarrow> length (node_enc n) \<le> d \<longrightarrow>
        decodeDepth d hash (node_enc n @ rest) = Ok m)))"

lemma hash_back: "length h = 32 \<Longrightarrow> ref_back (HashNode h)"
  using Split_string [of h] by (auto simp: ref_back_def decodeRef_def kind_of_def)

lemma embedded_back:
  assumes "node_back n" and "length (node_enc n) \<le> hashLen" and "n \<noteq> NilNode" and "fst (item n)"
  shows "ref_back n"
proof -
  obtain r m where r: "simplifyNode n = Ok r" "r \<noteq> RawNil" "expandNode None r = Ok m"
    "\<And>d rest. length (node_enc n @ rest) < 2 ^ 63 \<Longrightarrow> length (node_enc n) \<le> d \<Longrightarrow> decodeDepth d None (node_enc n @ rest) = Ok m"
    using assms(1) unfolding node_back_def by blast
  have "decodeRef (decodeDepth d) (node_enc n @ rest) = Ok (m, rest)"
    if "length (node_enc n @ rest) < 2 ^ 63" "length (node_enc n) \<le> d" for d rest
  proof -
    obtain c where c: "node_enc n = enc_list c" using assms(3,4) by (cases n) auto
    then have "Split (node_enc n @ rest) = Ok (List, c, rest)" using Split_list [of c rest] that by simp
    then show ?thesis using r(4) [OF that] assms(2) by (simp add: decodeRef_def)
  qed
  with r assms(3) show ?thesis unfolding ref_back_def by blast
qed

lemma leaf_back:
  assumes "hasTerm (compactToHex k)"
  shows "node_back (ShortNode k (ValueNode v) fl)"
proof -
  have "decodeDepth d hash (node_enc (ShortNode k (ValueNode v) fl) @ rest) =
      Ok (ShortNode (compactToHex k) (ValueNode v) \<lparr>fl_hash = hash, fl_dirty = False\<rparr>)"
    if "length (node_enc (ShortNode k (ValueNode v) fl) @ rest) < 2 ^ 63" "length (node_enc (ShortNode k (ValueNode v) fl)) \<le> d" for d hash rest
  proof -
    from that(2) obtain d' where "d = Suc d'" using enc_list_longer by (cases d) (auto simp: enc_list_def puthead_def)
    moreover have "length (enc_string k @ enc_string v) < 2 ^ 63"
      using that(1) enc_list_longer [of "enc_string k @ enc_string v"] by simp
    ultimately show ?thesis
      using decodeBody_list [of "[(False, k), (False, v)]" rest] that(1) assms SplitString_enc [of k "enc_string v"] SplitString_enc [of v "[]"]
      by (simp add: decodeShort_def)
  qed
  then show ?thesis unfolding node_back_def by simp
qed

lemma ext_back:
  assumes "\<not> hasTerm (compactToHex k)" and "ref_back c"
  shows "node_back (ShortNode k c fl)"
proof -
  obtain r m where r: "c \<noteq> NilNode" "simplifyNode c = Ok r" "r \<noteq> RawNil" "expandNode None r = Ok m"
    "\<And>d rest. length (node_enc c @ rest) < 2 ^ 63 \<Longrightarrow> length (node_enc c) \<le> d \<Longrightarrow> decodeRef (decodeDepth d) (node_enc c @ rest) = Ok (m, rest)"
    using assms(2) unfolding ref_back_def by blast
  have "decodeDepth d hash (node_enc (ShortNode k c fl) @ rest) = Ok (ShortNode (compactToHex k) m \<lparr>fl_hash = hash, fl_dirty = False\<rparr>)"
    if "length (node_enc (ShortNode k c fl) @ rest) < 2 ^ 63" "length (node_enc (ShortNode k c fl)) \<le> d" for d hash rest
  proof -
    have len: "length (enc_string k @ node_enc c) < length (node_enc (ShortNode k c fl))"
      using enc_list_longer [of "enc_string k @ node_enc c"] by simp
    with that(2) obtain d' where d: "d = Suc d'" "length (node_enc c) \<le> d'" by (cases d) auto
    have "length (enc_string k @ node_enc c) < 2 ^ 63" "length (node_enc c @ []) < 2 ^ 63" using that(1) len by simp_all
    then show ?thesis
      using decodeBody_list [of "[(False, k), item c]" rest "decodeDepth d'" hash] that(1) assms(1) SplitString_enc [of k "node_enc c"] r(5) [of "[]" d'] d
      by (simp add: decodeShort_def short_enc [OF r(1)] node_enc_item [OF r(1)] del: node_val.simps)
  qed
  with r show ?thesis unfolding node_back_def by simp
qed

lemma children_back:
  assumes "\<forall>c \<in> set cs. c = NilNode \<or> ref_back c"
  shows "\<exists>rs ms. simplifyChildren cs = Ok rs \<and> expandChildren rs = Ok ms \<and>
    (\<forall>d rest. length (enc_items (map item cs) @ rest) < 2 ^ 63 \<longrightarrow> length (enc_items (map item cs)) \<le> d \<longrightarrow>
       decodeChildren (decodeDepth d) (length cs) (enc_items (map item cs) @ rest) = Ok (ms, rest))"
  using assms
proof (induction cs)
  case (Cons c cs)
  then obtain rs ms where rs: "simplifyChildren cs = Ok rs" "expandChildren rs = Ok ms"
    "\<And>d rest. length (enc_items (map item cs) @ rest) < 2 ^ 63 \<Longrightarrow> length (enc_items (map item cs)) \<le> d \<Longrightarrow>
       decodeChildren (decodeDepth d) (length cs) (enc_items (map item cs) @ rest) = Ok (ms, rest)"
    by auto
  have "\<exists>r m. (if c \<noteq> NilNode then simplifyNode c else Ok RawNil) = Ok r \<and> (if r \<noteq> RawNil then expandNode None r else Ok NilNode) = Ok m \<and>
    (\<forall>d rest. length (enc_items [item c] @ rest) < 2 ^ 63 \<longrightarrow> length (enc_items [item c]) \<le> d \<longrightarrow>
       decodeRef (decodeDepth d) (enc_items [item c] @ rest) = Ok (m, rest))"
  proof (cases "c = NilNode")
    case True
    then show ?thesis using Split_string [of "[]"] by (auto simp: decodeRef_def kind_of_def enc_item_def)
  next
    case False
    then have "ref_back c" using Cons.prems by simp
    then show ?thesis using False unfolding ref_back_def node_enc_item [OF False] by auto
  qed
  then obtain r m where r: "(if c \<noteq> NilNode then simplifyNode c else Ok RawNil) = Ok r" "(if r \<noteq> RawNil then expandNode None r else Ok NilNode) = Ok m"
    "\<And>d rest. length (enc_items [item c] @ rest) < 2 ^ 63 \<Longrightarrow> length (enc_items [item c]) \<le> d \<Longrightarrow>
       decodeRef (decodeDepth d) (enc_items [item c] @ rest) = Ok (m, rest)" by blast
  have cons: "enc_items (map item (c # cs)) = enc_items [item c] @ enc_items (map item cs)" by (cases "item c") simp
  show ?case
    by (rule exI [of _ "r # rs"], rule exI [of _ "m # ms"])
      (use r rs in \<open>simp add: cons del: enc_items_simps list.map\<close>)
qed simp

lemma simplifyChildren_snoc:
  "simplifyChildren as = Ok rs \<Longrightarrow> (if c \<noteq> NilNode then simplifyNode c else Ok RawNil) = Ok r \<Longrightarrow> simplifyChildren (as @ [c]) = Ok (rs @ [r])"
  by (induction as arbitrary: rs) (auto simp: bindR_Ok_iff)

lemma expandChildren_snoc:
  "expandChildren as = Ok rs \<Longrightarrow> (if c \<noteq> RawNil then expandNode None c else Ok NilNode) = Ok r \<Longrightarrow> expandChildren (as @ [c]) = Ok (rs @ [r])"
  by (induction as arbitrary: rs) (auto simp: bindR_Ok_iff)

lemma full_back:
  assumes "length cs = 17" and "\<forall>i < 16. cs ! i = NilNode \<or> ref_back (cs ! i)"
    and "cs ! 16 = NilNode \<or> (\<exists>v. v \<noteq> [] \<and> cs ! 16 = ValueNode v)"
  shows "node_back (FullNode cs fl)"
proof -
  define ks and w where "ks = take 16 cs" and "w = cs ! 16"
  have cs: "cs = ks @ [w]" "length ks = 16" using assms(1) take_Suc_conv_app_nth [of 16 cs] by (simp_all add: ks_def w_def)
  have "c = NilNode \<or> ref_back c" if "c \<in> set ks" for c
  proof -
    from that obtain i where "i < 16" "c = cs ! i" by (auto simp: ks_def in_set_conv_nth)
    then show ?thesis using assms(2) by blast
  qed
  then obtain rs ms where rs: "simplifyChildren ks = Ok rs" "expandChildren rs = Ok ms"
    "\<And>d rest. length (enc_items (map item ks) @ rest) < 2 ^ 63 \<Longrightarrow> length (enc_items (map item ks)) \<le> d \<Longrightarrow>
       decodeChildren (decodeDepth d) 16 (enc_items (map item ks) @ rest) = Ok (ms, rest)"
    using children_back [of ks] unfolding cs(2) by blast
  have w: "w = NilNode \<or> (\<exists>v. v \<noteq> [] \<and> w = ValueNode v)" using assms(3) by (simp add: w_def)
  define wr where "wr = (if w = NilNode then RawNil else RawValueNode (snd (item w)))"
  have raw: "simplifyChildren (ks @ [w]) = Ok (rs @ [wr])"
    using simplifyChildren_snoc [OF rs(1)] w by (auto simp: wr_def)
  have exp: "expandChildren (rs @ [wr]) = Ok (ms @ [w])"
    using expandChildren_snoc [OF rs(2)] w by (auto simp: wr_def)
  have "decodeDepth d hash (node_enc (FullNode cs fl) @ rest) = Ok (FullNode (ms @ [w]) \<lparr>fl_hash = hash, fl_dirty = False\<rparr>)"
    if len: "length (node_enc (FullNode cs fl) @ rest) < 2 ^ 63" "length (node_enc (FullNode cs fl)) \<le> d" for d hash rest
  proof -
    let ?items = "enc_items (map item cs)"
    have items: "?items = enc_items (map item ks) @ enc_string (snd (item w))"
      using w by (auto simp: cs enc_items_def enc_item_def kind_of_def)
    have longer: "length ?items < length (node_enc (FullNode cs fl))" unfolding full_enc by (rule enc_list_longer)
    with len(2) obtain d' where d: "d = Suc d'" "length (enc_items (map item ks)) \<le> d'" using items by (cases d) auto
    have small: "length ?items < 2 ^ 63" using longer len(1) by simp
    then have "decodeChildren (decodeDepth d') 16 ?items = Ok (ms, enc_string (snd (item w)))"
      using rs(3) [of "enc_string (snd (item w))" d'] d(2) unfolding items by simp
    moreover have "SplitString (enc_string (snd (item w))) = Ok (snd (item w), [])"
      using SplitString_enc [of "snd (item w)" "[]"] small items by simp
    ultimately have "decodeFull (decodeDepth d') hash ?items = Ok (FullNode (ms @ [w]) \<lparr>fl_hash = hash, fl_dirty = False\<rparr>)"
      using w by (auto simp: decodeFull_def)
    then show ?thesis
      using decodeBody_list [of "map item cs" rest "decodeDepth d'" hash] len(1) d(1) unfolding full_enc by (simp add: assms(1))
  qed
  then show ?thesis using raw exp unfolding node_back_def cs(1) by simp
qed

lemma stored_back: "stored n \<Longrightarrow> node_back n \<and> n \<noteq> NilNode \<and> fst (item n)" and child_back: "child_ref c \<Longrightarrow> ref_back c"
  by (induction rule: stored_child_ref.inducts)
    (auto intro: leaf_back ext_back full_back hash_back embedded_back)

lemma simplify_val:
  "simplifyNode n = Ok r \<Longrightarrow> raw_val r = node_val n \<and> r \<noteq> RawNil"
  "simplifyChildren cs = Ok rs \<Longrightarrow> map (\<lambda>c. if c = RawNil then Bytes [] else raw_val c) rs = map (\<lambda>c. if c = NilNode then Bytes [] else node_val c) cs"
  by (induction n and cs arbitrary: r and rs rule: simplifyNode_simplifyChildren.induct) (auto simp: bindR_Ok_iff split: if_splits)

lemma stored_reload:
  assumes "stored n" and "simplifyNode n = Ok r" and "length (node_enc n) < 2 ^ 63"
  shows "\<exists>m. expandNode hash r = Ok m \<and> decodeNode hash (rlp_enc (raw_val r)) = Ok m"
proof -
  from stored_back [OF assms(1)] obtain r' where r': "simplifyNode n = Ok r'" "\<forall>hash. \<exists>m. expandNode hash r' = Ok m \<and>
     (\<forall>d rest. length (node_enc n @ rest) < 2 ^ 63 \<longrightarrow> length (node_enc n) \<le> d \<longrightarrow> decodeDepth d hash (node_enc n @ rest) = Ok m)"
    unfolding node_back_def by blast
  then obtain m where m: "expandNode hash r = Ok m" "decodeDepth (Suc (length (node_enc n))) hash (node_enc n @ []) = Ok m"
    using assms(2,3) by (metis append_Nil2 le_Suc_eq order_refl res.inject(1))
  have "rlp_enc (raw_val r) = node_enc n" using simplify_val(1) [OF assms(2)] by simp
  then show ?thesis using m by (simp add: decodeNode_def)
qed

lemma node_encodable: "encodable (node_val n)"
  by (induction n) auto

section \<open>Properties\<close>

text \<open>C15: a stored node is read back the same from the cache and from disk: the database can drop a node from
  memory once its encoding is written, because encoding its compact form and decoding the result
  gives exactly the node that expanding the compact form gives.\<close>

theorem node_reload_same:
  assumes "stored n" and "simplifyNode n = Ok r" and "length (node_enc n) < 2 ^ 63"
  shows "\<exists>blob m. EncodeToBytes (raw_val r) = Ok blob \<and> decodeNode hash blob = Ok m \<and> expandNode hash r = Ok m"
proof -
  have val: "raw_val r = node_val n" using simplify_val(1) [OF assms(2)] by simp
  then have "EncodeToBytes (raw_val r) = Ok (rlp_enc (raw_val r))"
    using encode_enc [of "raw_val r"] assms(3) node_encodable by simp
  with stored_reload [OF assms, of hash] show ?thesis by blast
qed

theorem node_reload_same_witness:
  "\<exists>blob m. EncodeToBytes (raw_val (RawShortNode [0x20, 0x12] (RawValueNode [7]))) = Ok blob \<and> decodeNode None blob = Ok m \<and>
     expandNode None (RawShortNode [0x20, 0x12] (RawValueNode [7])) = Ok m"
proof -
  have "hasTerm (compactToHex [0x20, 0x12])" by code_simp
  then have "stored (ShortNode [0x20, 0x12] (ValueNode [7]) newFlag)" by (rule stored_leaf)
  from node_reload_same [OF this, of "RawShortNode [0x20, 0x12] (RawValueNode [7])" None] show ?thesis
    by (simp add: enc_list_def enc_string_def puthead_def)
qed

lemma expandChildren_snocD:
  "expandChildren (rs @ [r]) = Ok ms \<Longrightarrow> \<exists>as a. ms = as @ [a] \<and> expandChildren rs = Ok as \<and> (if r \<noteq> RawNil then expandNode None r else Ok NilNode) = Ok a"
  by (induction rs arbitrary: ms) (fastforce simp: bindR_Ok_iff)+

text \<open>C38: an empty value in a full node is lost when the node goes to disk: the node in memory expands to a full
  node with the empty value as its last child, the encoding of the same node decodes to a full node
  without it.\<close>

theorem empty_branch_value_lost:
  assumes "stored (FullNode (cs @ [NilNode]) fl)" and "simplifyChildren cs = Ok rs" and "length (node_enc (FullNode (cs @ [NilNode]) fl)) < 2 ^ 63"
  shows "\<exists>blob ms flag. EncodeToBytes (raw_val (RawFullNode (rs @ [RawValueNode []]))) = Ok blob \<and>
    expandNode hash (RawFullNode (rs @ [RawValueNode []])) = Ok (FullNode (ms @ [ValueNode []]) flag) \<and>
    decodeNode hash blob = Ok (FullNode (ms @ [NilNode]) flag)"
proof -
  have raw: "simplifyNode (FullNode (cs @ [NilNode]) fl) = Ok (RawFullNode (rs @ [RawNil]))"
    using simplifyChildren_snoc [OF assms(2), of NilNode RawNil] by simp
  have val: "raw_val (RawFullNode (rs @ [RawValueNode []])) = raw_val (RawFullNode (rs @ [RawNil]))" by simp
  obtain m where m: "expandNode hash (RawFullNode (rs @ [RawNil])) = Ok m" "decodeNode hash (rlp_enc (raw_val (RawFullNode (rs @ [RawNil])))) = Ok m"
    using stored_reload [OF assms(1) raw assms(3)] by blast
  then obtain ms where ms: "expandChildren rs = Ok ms" "m = FullNode (ms @ [NilNode]) \<lparr>fl_hash = hash, fl_dirty = False\<rparr>"
    using expandChildren_snocD by (fastforce simp: bindR_Ok_iff)
  have "EncodeToBytes (raw_val (RawFullNode (rs @ [RawNil]))) = Ok (rlp_enc (raw_val (RawFullNode (rs @ [RawNil]))))"
    using encode_enc(1) [OF assms(3) node_encodable] simplify_val(1) [OF raw] by simp
  then show ?thesis using m(2) ms expandChildren_snoc [OF ms(1), of "RawValueNode []"] unfolding val by simp
qed

lemma enc_items_append: "enc_items (as @ bs) = enc_items as @ enc_items bs"
  by (simp add: enc_items_def)

lemma nil_items: "enc_items (replicate n (False, [])) = replicate n 0x80"
  by (induction n) (simp_all add: enc_item_def kind_of_def enc_string_empty)

lemma nil_children_stored: "stored (FullNode (replicate 16 NilNode @ [NilNode]) fl)"
  by (rule stored_full) (simp_all add: nth_append)

theorem empty_branch_value_lost_witness:
  "\<exists>blob ms flag. EncodeToBytes (raw_val (RawFullNode (replicate 16 RawNil @ [RawValueNode []]))) = Ok blob \<and>
    expandNode None (RawFullNode (replicate 16 RawNil @ [RawValueNode []])) = Ok (FullNode (ms @ [ValueNode []]) flag) \<and>
    decodeNode None blob = Ok (FullNode (ms @ [NilNode]) flag)"
proof -
  have "simplifyChildren (replicate 16 NilNode) = Ok (replicate 16 RawNil)" by code_simp
  moreover have "length (node_enc (FullNode (replicate 16 NilNode @ [NilNode]) newFlag)) < 2 ^ 63"
    by (simp add: full_enc enc_items_append nil_items enc_string_empty enc_list_def puthead_def del: node_val.simps)
  ultimately show ?thesis by (rule empty_branch_value_lost [OF nil_children_stored])
qed

end
