(* ===== verification/Trie_Database.thy ===== *)
theory Trie_Database
  imports Trie_Node Rollup_Index "HOL-Library.AList"
begin

text \<open>
  The node database between the tries and the disk (\<open>l2geth/trie/database.go\<close>): nodes enter a cache of
  dirty nodes, linked in a flush list and counted by their references; \<open>Dereference\<close> collects the
  nodes of a root no longer wanted, \<open>Cap\<close> flushes the oldest nodes to disk, \<open>Commit\<close> writes a whole
  trie. The disk is the in-memory key-value store. The database is the one of \<open>NewDatabase\<close>, without
  the cache of clean nodes. Times are left out, storage sizes are integers, and a map that Go
  iterates in any order is an association list, iterated in the order of the list.
\<close>

section \<open>Data\<close>

type_synonym hash = "byte list"

definition zeroHash :: hash where
  "zeroHash = replicate 32 0"

definition HashLength :: nat where
  "HashLength = 32"

record cachedNode =
  cn_node :: rawnode
  cn_size :: "16 word"
  cn_parents :: "32 word"
  cn_children :: "(hash \<times> 16 word) list option"
  cn_flushPrev :: hash
  cn_flushNext :: hash

record Database =
  d_disk :: memdb
  d_dirties :: "hash \<rightharpoonup> cachedNode"
  d_oldest :: hash
  d_newest :: hash
  d_preimages :: "(hash \<times> byte list) list"
  d_gcnodes :: nat
  d_gcsize :: int
  d_flushnodes :: nat
  d_flushsize :: int
  d_dirtiesSize :: int
  d_childrenSize :: int
  d_preimagesSize :: int

definition IdealBatchSize :: nat where
  "IdealBatchSize = 100 * 1024"

text \<open>The size of \<open>cachedNode\<close> on a 64-bit machine: an interface, the counters, a map and two hashes.\<close>

definition cachedNodeSize :: int where
  "cachedNodeSize = 96"

definition cachedNodeChildrenSize :: int where
  "cachedNodeChildrenSize = 48"

text \<open>Keys of the disk are Go strings.\<close>

definition disk_key :: "byte list \<Rightarrow> string" where
  "disk_key = map (\<lambda>b. char_of (unat b))"

definition key_bytes :: "string \<Rightarrow> byte list" where
  "key_bytes = map (\<lambda>c. of_nat (of_char c))"

definition secureKeyPrefix :: string where
  "secureKeyPrefix = ''secure-key-''"

definition secureKey :: "byte list \<Rightarrow> string" where
  "secureKey key = secureKeyPrefix @ disk_key key"

section \<open>Cached nodes\<close>

definition cachedNode_rlp :: "cachedNode \<Rightarrow> byte list res" where
  "cachedNode_rlp n = (case cn_node n of
       RawBlob b \<Rightarrow> Ok b
     | r \<Rightarrow> (case EncodeToBytes (raw_val r) of Fail e \<Rightarrow> Panic ''rlp'' | x \<Rightarrow> x))"

definition cachedNode_obj :: "hash \<Rightarrow> cachedNode \<Rightarrow> node res" where
  "cachedNode_obj hash n = (case cn_node n of
       RawBlob b \<Rightarrow> mustDecodeNode (Some hash) b
     | r \<Rightarrow> expandNode (Some hash) r)"

definition childList :: "cachedNode \<Rightarrow> (hash \<times> 16 word) list" where
  "childList n = (case cn_children n of None \<Rightarrow> [] | Some m \<Rightarrow> m)"

definition forChilds :: "cachedNode \<Rightarrow> hash list res" where
  "forChilds n =
    (let children = map fst (childList n) in
     case cn_node n of
       RawBlob b \<Rightarrow> Ok children
     | r \<Rightarrow> bindR (forGatherChildren r) (\<lambda>hs. Ok (children @ hs)))"

section \<open>Entries of the cache\<close>

text \<open>Reading or writing a field of a missing entry dereferences a nil pointer.\<close>

definition entry :: "hash \<Rightarrow> (Database, cachedNode) sm" where
  "entry h d = (case d_dirties d h of Some n \<Rightarrow> (Ok n, d) | None \<Rightarrow> (Panic ''nil pointer dereference'', d))"

definition setEntry :: "hash \<Rightarrow> (cachedNode \<Rightarrow> cachedNode) \<Rightarrow> (Database, unit) sm" where
  "setEntry h f = bindM (entry h) (\<lambda>n. modM (\<lambda>d. d\<lparr>d_dirties := (d_dirties d)(h \<mapsto> f n)\<rparr>))"

definition NewDatabase :: "memdb \<Rightarrow> Database" where
  "NewDatabase diskdb = \<lparr>d_disk = diskdb,
     d_dirties = [zeroHash \<mapsto> \<lparr>cn_node = RawNil, cn_size = 0, cn_parents = 0, cn_children = Some [], cn_flushPrev = zeroHash, cn_flushNext = zeroHash\<rparr>],
     d_oldest = zeroHash, d_newest = zeroHash, d_preimages = [], d_gcnodes = 0, d_gcsize = 0,
     d_flushnodes = 0, d_flushsize = 0, d_dirtiesSize = 0, d_childrenSize = 0, d_preimagesSize = 0\<rparr>"

definition addParent :: "hash \<Rightarrow> (Database, unit) sm" where
  "addParent child = modM (\<lambda>d. case d_dirties d child of
       Some c \<Rightarrow> d\<lparr>d_dirties := (d_dirties d)(child \<mapsto> c\<lparr>cn_parents := cn_parents c + 1\<rparr>)\<rparr>
     | None \<Rightarrow> d)"

text \<open>The node to insert arrives as what \<open>simplifyNode\<close> makes of it.\<close>

definition db_insert :: "hash \<Rightarrow> byte list \<Rightarrow> rawnode res \<Rightarrow> (Database, unit) sm" where
  "db_insert hash blob simplified = bindM (getsM (\<lambda>d. d_dirties d hash)) (\<lambda>cached. case cached of
       Some _ \<Rightarrow> retM ()
     | None \<Rightarrow>
         bindM (liftR simplified) (\<lambda>node.
         bindM (getsM d_newest) (\<lambda>newest.
         let entry = \<lparr>cn_node = node, cn_size = of_nat (length blob), cn_parents = 0, cn_children = None,
               cn_flushPrev = newest, cn_flushNext = zeroHash\<rparr> in
         bindM (liftR (forChilds entry)) (\<lambda>childs.
         seqM (forM childs addParent) (
         seqM (modM (\<lambda>d. d\<lparr>d_dirties := (d_dirties d)(hash \<mapsto> entry)\<rparr>)) (
         bindM (getsM d_oldest) (\<lambda>oldest.
         seqM (if oldest = zeroHash then modM (\<lambda>d. d\<lparr>d_oldest := hash, d_newest := hash\<rparr>)
               else seqM (setEntry newest (\<lambda>n. n\<lparr>cn_flushNext := hash\<rparr>)) (modM (\<lambda>d. d\<lparr>d_newest := hash\<rparr>)))
          (modM (\<lambda>d. d\<lparr>d_dirtiesSize := d_dirtiesSize d + int (unat (of_nat HashLength + cn_size entry))\<rparr>)))))))))"

definition InsertBlob :: "hash \<Rightarrow> byte list \<Rightarrow> (Database, unit) sm" where
  "InsertBlob hash blob = db_insert hash blob (Ok (RawBlob blob))"

definition insertPreimage :: "hash \<Rightarrow> byte list \<Rightarrow> (Database, unit) sm" where
  "insertPreimage hash preimage = modM (\<lambda>d.
     if map_of (d_preimages d) hash \<noteq> None then d
     else d\<lparr>d_preimages := AList.update hash preimage (d_preimages d),
            d_preimagesSize := d_preimagesSize d + int (HashLength + length preimage)\<rparr>)"

section \<open>Reading\<close>

text \<open>\<open>node\<close> returns nil, here \<open>NilNode\<close>, for a node that is nowhere.\<close>

definition Database_node :: "hash \<Rightarrow> Database \<Rightarrow> node res" where
  "Database_node hash d = (case d_dirties d hash of
       Some dirty \<Rightarrow> cachedNode_obj hash dirty
     | None \<Rightarrow> (case db_Get (disk_key hash) (d_disk d) of
           Ok enc \<Rightarrow> mustDecodeNode (Some hash) enc
         | _ \<Rightarrow> Ok NilNode))"

definition errNotFound :: goerr where
  "errNotFound = ErrNew ''not found''"

definition Database_Node :: "hash \<Rightarrow> Database \<Rightarrow> byte list res" where
  "Database_Node hash d =
    (if hash = zeroHash then Fail errNotFound
     else case d_dirties d hash of
       Some dirty \<Rightarrow> cachedNode_rlp dirty
     | None \<Rightarrow> db_Get (disk_key hash) (d_disk d))"

definition preimage :: "hash \<Rightarrow> Database \<Rightarrow> byte list res" where
  "preimage hash d = (case map_of (d_preimages d) hash of
       Some p \<Rightarrow> Ok p
     | None \<Rightarrow> db_Get (secureKey hash) (d_disk d))"

definition Database_Size :: "Database \<Rightarrow> (int \<times> int) res" where
  "Database_Size d = (case d_dirties d zeroHash of
       None \<Rightarrow> Panic ''nil pointer dereference''
     | Some root \<Rightarrow>
         let metadataSize = (int (card (dom (d_dirties d))) - 1) * cachedNodeSize;
             metarootRefs = int (length (childList root)) * int (HashLength + 2)
         in Ok (d_dirtiesSize d + d_childrenSize d + metadataSize - metarootRefs, d_preimagesSize d))"

section \<open>References\<close>

definition childCount :: "hash \<Rightarrow> cachedNode \<Rightarrow> 16 word" where
  "childCount child n = (case map_of (childList n) child of Some c \<Rightarrow> c | None \<Rightarrow> 0)"

definition reference :: "hash \<Rightarrow> hash \<Rightarrow> (Database, unit) sm" where
  "reference child parent = bindM (getsM (\<lambda>d. d_dirties d child)) (\<lambda>node.
     if node = None then retM ()
     else bindM (entry parent) (\<lambda>p.
       if cn_children p \<noteq> None \<and> map_of (childList p) child \<noteq> None \<and> parent \<noteq> zeroHash then retM ()
       else
         seqM (if cn_children p = None
               then seqM (setEntry parent (\<lambda>p. p\<lparr>cn_children := Some []\<rparr>))
                      (modM (\<lambda>d. d\<lparr>d_childrenSize := d_childrenSize d + cachedNodeChildrenSize\<rparr>))
               else retM ()) (
         seqM (setEntry child (\<lambda>n. n\<lparr>cn_parents := cn_parents n + 1\<rparr>)) (
         seqM (setEntry parent (\<lambda>p. p\<lparr>cn_children := Some (AList.update child (childCount child p + 1) (childList p))\<rparr>)) (
         bindM (entry parent) (\<lambda>p.
         if childCount child p = 1 then modM (\<lambda>d. d\<lparr>d_childrenSize := d_childrenSize d + int (HashLength + 2)\<rparr>) else retM ()))))))"

definition Reference :: "hash \<Rightarrow> hash \<Rightarrow> (Database, unit) sm" where
  "Reference child parent = reference child parent"

text \<open>Taking a node out of the flush list, in \<open>dereference\<close> and in \<open>cleaner.Put\<close> alike.\<close>

definition unlink :: "hash \<Rightarrow> cachedNode \<Rightarrow> (Database, unit) sm" where
  "unlink h node = bindM (getsM d_oldest) (\<lambda>oldest. bindM (getsM d_newest) (\<lambda>newest.
     if h = oldest then
       seqM (modM (\<lambda>d. d\<lparr>d_oldest := cn_flushNext node\<rparr>)) (setEntry (cn_flushNext node) (\<lambda>n. n\<lparr>cn_flushPrev := zeroHash\<rparr>))
     else if h = newest then
       seqM (modM (\<lambda>d. d\<lparr>d_newest := cn_flushPrev node\<rparr>)) (setEntry (cn_flushPrev node) (\<lambda>n. n\<lparr>cn_flushNext := zeroHash\<rparr>))
     else
       seqM (setEntry (cn_flushPrev node) (\<lambda>n. n\<lparr>cn_flushNext := cn_flushNext node\<rparr>))
         (setEntry (cn_flushNext node) (\<lambda>n. n\<lparr>cn_flushPrev := cn_flushPrev node\<rparr>))))"

definition dropChild :: "hash \<Rightarrow> hash \<Rightarrow> (Database, unit) sm" where
  "dropChild child parent = bindM (entry parent) (\<lambda>p.
     if 0 < childCount child p then
       if childCount child p - 1 = 0 then
         seqM (setEntry parent (\<lambda>p. p\<lparr>cn_children := Some (AList.delete child (childList p))\<rparr>))
           (modM (\<lambda>d. d\<lparr>d_childrenSize := d_childrenSize d - int (HashLength + 2)\<rparr>))
       else setEntry parent (\<lambda>p. p\<lparr>cn_children := Some (AList.update child (childCount child p - 1) (childList p))\<rparr>)
     else retM ())"

text \<open>A cycle of references, which hashes exclude, would make \<open>dereference\<close> run forever; on other
  states the number of cached nodes bounds its depth.\<close>

primrec dereferenceN :: "nat \<Rightarrow> hash \<Rightarrow> hash \<Rightarrow> (Database, unit) sm" where
  "dereferenceN 0 child parent = (\<lambda>d. (Diverge, d))"
| "dereferenceN (Suc n) child parent =
    seqM (dropChild child parent) (
    bindM (getsM (\<lambda>d. d_dirties d child)) (\<lambda>node. case node of
       None \<Rightarrow> retM ()
     | Some _ \<Rightarrow>
         seqM (setEntry child (\<lambda>c. if 0 < cn_parents c then c\<lparr>cn_parents := cn_parents c - 1\<rparr> else c)) (
         bindM (entry child) (\<lambda>node.
         if cn_parents node = 0 then
           seqM (unlink child node) (
           bindM (entry child) (\<lambda>node.
           bindM (liftR (forChilds node)) (\<lambda>childs.
           seqM (forM childs (\<lambda>h. dereferenceN n h child)) (
           bindM (entry child) (\<lambda>node.
           seqM (modM (\<lambda>d. d\<lparr>d_dirties := (d_dirties d)(child := None),
                    d_dirtiesSize := d_dirtiesSize d - int (HashLength + unat (cn_size node))\<rparr>))
             (if cn_children node \<noteq> None then modM (\<lambda>d. d\<lparr>d_childrenSize := d_childrenSize d - cachedNodeChildrenSize\<rparr>) else retM ()))))))
         else retM ()))))"

definition dereference :: "hash \<Rightarrow> hash \<Rightarrow> (Database, unit) sm" where
  "dereference child parent = bindM (getsM (\<lambda>d. card (dom (d_dirties d)))) (\<lambda>n. dereferenceN (Suc n) child parent)"

definition Dereference :: "hash \<Rightarrow> (Database, unit) sm" where
  "Dereference root =
    (if root = zeroHash then retM ()
     else bindM (getsM (\<lambda>d. (card (dom (d_dirties d)), d_dirtiesSize d))) (\<lambda>(nodes, storage).
       seqM (dereference root zeroHash)
         (modM (\<lambda>d. d\<lparr>d_gcnodes := d_gcnodes d + (nodes - card (dom (d_dirties d))),
            d_gcsize := d_gcsize d + (storage - d_dirtiesSize d)\<rparr>))))"

section \<open>Flushing\<close>

definition onDisk :: "(memdb, 'a) sm \<Rightarrow> (Database, 'a) sm" where
  "onDisk m d = (case m (d_disk d) of (r, disk) \<Rightarrow> (r, d\<lparr>d_disk := disk\<rparr>))"

text \<open>Writing the pending preimages, with a write to disk whenever the batch is large.\<close>

fun putPreimages :: "(hash \<times> byte list) list \<Rightarrow> batch \<Rightarrow> (Database, batch) sm" where
  "putPreimages [] b = retM b"
| "putPreimages ((hash, p) # ps) b =
    (let b = batch_Put (secureKey hash) p b in
     if IdealBatchSize < batch_ValueSize b
     then seqM (onDisk (batch_Write b)) (putPreimages ps (batch_Reset b))
     else putPreimages ps b)"

text \<open>A flush list that ends is visited in as many rounds as there are cached nodes.\<close>

primrec capFlush :: "nat \<Rightarrow> int \<Rightarrow> int \<Rightarrow> hash \<Rightarrow> batch \<Rightarrow> (Database, batch \<times> hash) sm" where
  "capFlush 0 sz limit oldest b = (\<lambda>d. (Diverge, d))"
| "capFlush (Suc fuel) sz limit oldest b =
    (if limit < sz \<and> oldest \<noteq> zeroHash then
       bindM (entry oldest) (\<lambda>node.
       bindM (liftR (cachedNode_rlp node)) (\<lambda>rlp.
       let b = batch_Put (disk_key oldest) rlp b;
           sz = sz - (int (HashLength + unat (cn_size node)) + cachedNodeSize);
           sz = (if cn_children node \<noteq> None then sz - (cachedNodeChildrenSize + int (length (childList node)) * int (HashLength + 2)) else sz)
       in if IdealBatchSize \<le> batch_ValueSize b
          then seqM (onDisk (batch_Write b)) (capFlush fuel sz limit (cn_flushNext node) (batch_Reset b))
          else capFlush fuel sz limit (cn_flushNext node) b))
     else retM (b, oldest))"

primrec capClear :: "nat \<Rightarrow> hash \<Rightarrow> (Database, unit) sm" where
  "capClear 0 oldest = (\<lambda>d. (Diverge, d))"
| "capClear (Suc fuel) oldest = bindM (getsM d_oldest) (\<lambda>head.
     if head = oldest then retM ()
     else
       bindM (entry head) (\<lambda>node.
       seqM (modM (\<lambda>d. d\<lparr>d_dirties := (d_dirties d)(head := None), d_oldest := cn_flushNext node,
           d_dirtiesSize := d_dirtiesSize d - int (HashLength + unat (cn_size node)),
           d_childrenSize := (if cn_children node \<noteq> None
             then d_childrenSize d - (cachedNodeChildrenSize + int (length (childList node)) * int (HashLength + 2)) else d_childrenSize d)\<rparr>))
         (capClear fuel oldest)))"

definition Cap :: "int \<Rightarrow> (Database, unit) sm" where
  "Cap limit =
    bindM (getsM (\<lambda>d. (card (dom (d_dirties d)), d_dirtiesSize d))) (\<lambda>(nodes, storage).
    bindM (entry zeroHash) (\<lambda>root.
    bindM (getsM (\<lambda>d. d_dirtiesSize d + (int (card (dom (d_dirties d))) - 1) * cachedNodeSize +
       (d_childrenSize d - int (length (childList root)) * int (HashLength + 2)))) (\<lambda>sz.
    bindM (getsM (\<lambda>d. 4 * 1024 * 1024 < d_preimagesSize d)) (\<lambda>flushPreimages.
    bindM (getsM d_preimages) (\<lambda>preimages.
    bindM (if flushPreimages then putPreimages preimages NewBatch else retM NewBatch) (\<lambda>b.
    bindM (getsM d_oldest) (\<lambda>oldest.
    bindM (capFlush (Suc nodes) sz limit oldest b) (\<lambda>(b, oldest).
    seqM (onDisk (batch_Write b)) (
    seqM (if flushPreimages then modM (\<lambda>d. d\<lparr>d_preimages := [], d_preimagesSize := 0\<rparr>) else retM ()) (
    seqM (capClear (Suc nodes) oldest) (
    bindM (getsM d_oldest) (\<lambda>oldest.
    seqM (if oldest \<noteq> zeroHash then setEntry oldest (\<lambda>n. n\<lparr>cn_flushPrev := zeroHash\<rparr>) else retM ())
      (modM (\<lambda>d. d\<lparr>d_flushnodes := d_flushnodes d + (nodes - card (dom (d_dirties d))),
         d_flushsize := d_flushsize d + (storage - d_dirtiesSize d)\<rparr>))))))))))))))"

definition cleaner_Put :: "string \<Rightarrow> (Database, unit) sm" where
  "cleaner_Put key = (let hash = BytesToHash (key_bytes key) in
     bindM (getsM (\<lambda>d. d_dirties d hash)) (\<lambda>node. case node of
       None \<Rightarrow> retM ()
     | Some node \<Rightarrow>
         seqM (unlink hash node)
           (modM (\<lambda>d. d\<lparr>d_dirties := (d_dirties d)(hash := None),
              d_dirtiesSize := d_dirtiesSize d - int (HashLength + unat (cn_size node)) -
                (if cn_children node \<noteq> None then cachedNodeChildrenSize + int (length (childList node)) * int (HashLength + 2) else 0)\<rparr>))))"

definition uncache :: "batch \<Rightarrow> (Database, unit) sm" where
  "uncache b = forM (b_writes b) (\<lambda>kv. if kv_delete kv then panicM ''not implemented'' else cleaner_Put (kv_key kv))"

text \<open>\<open>commit\<close> walks the references from a node down. As above, the number of cached nodes bounds
  its depth when there is no cycle.\<close>

fun commitEach :: "(hash \<Rightarrow> batch \<Rightarrow> (Database, batch) sm) \<Rightarrow> hash list \<Rightarrow> batch \<Rightarrow> (Database, batch) sm" where
  "commitEach commit [] b = retM b"
| "commitEach commit (child # childs) b = bindM (commit child b) (commitEach commit childs)"

primrec commitN :: "nat \<Rightarrow> hash \<Rightarrow> batch \<Rightarrow> (Database, batch) sm" where
  "commitN 0 hash b = (\<lambda>d. (Diverge, d))"
| "commitN (Suc n) hash b = bindM (getsM (\<lambda>d. d_dirties d hash)) (\<lambda>node. case node of
       None \<Rightarrow> retM b
     | Some node \<Rightarrow>
         bindM (liftR (forChilds node)) (\<lambda>childs.
         bindM (commitEach (commitN n) childs b) (\<lambda>b.
         bindM (liftR (cachedNode_rlp node)) (\<lambda>rlp.
         let b = batch_Put (disk_key hash) rlp b in
         if IdealBatchSize \<le> batch_ValueSize b
         then seqM (onDisk (batch_Write b)) (seqM (uncache b) (retM (batch_Reset b)))
         else retM b))))"

definition Commit :: "hash \<Rightarrow> (Database, unit) sm" where
  "Commit node =
    bindM (getsM d_preimages) (\<lambda>preimages.
    bindM (putPreimages preimages NewBatch) (\<lambda>b.
    seqM (onDisk (batch_Write b)) (
    bindM (getsM (\<lambda>d. card (dom (d_dirties d)))) (\<lambda>n.
    bindM (commitN (Suc n) node (batch_Reset b)) (\<lambda>b.
    seqM (onDisk (batch_Write b)) (
    seqM (uncache b)
      (modM (\<lambda>d. d\<lparr>d_preimages := [], d_preimagesSize := 0, d_gcnodes := 0, d_gcsize := 0, d_flushnodes := 0, d_flushsize := 0\<rparr>))))))))"

end
