(* ===== verification/Trie_Flush.thy ===== *)
theory Trie_Flush
  imports Trie_Database
begin

text \<open>
  Flushing the node database loses nothing: at every moment of \<open>Cap\<close> and \<open>Commit\<close>, also when they stop
  in the middle, every node is readable, from the cache or from disk, and reads as before; and
  \<open>Commit\<close> brings everything below its root to disk.
\<close>

lemma bindM_entry:
  "d_dirties d h = Some n \<Longrightarrow> bindM (entry h) f d = f n d"
  "d_dirties d h = None \<Longrightarrow> bindM (entry h) f d = (Panic ''nil pointer dereference'', d)"
  by (simp_all add: entry_def bindM_def)

section \<open>Keys\<close>

lemma key_bytes_disk_key [simp]: "key_bytes (disk_key h) = h"
proof -
  have "of_nat (of_char (char_of (unat b) :: char)) = b" for b :: byte
    using byte_less [of b] by simp
  then show ?thesis by (simp add: key_bytes_def disk_key_def comp_def)
qed

lemma disk_key_inj [simp]: "disk_key h = disk_key h' \<longleftrightarrow> h = h'"
  by (metis key_bytes_disk_key)

lemma length_disk_key [simp]: "length (disk_key h) = length h"
  by (simp add: disk_key_def)

lemma secureKey_other: "length h = 32 \<Longrightarrow> length p = 32 \<Longrightarrow> secureKey p \<noteq> disk_key h"
  by (auto simp: secureKey_def secureKeyPrefix_def dest!: arg_cong [of _ _ length])

lemma BytesToHash_32 [simp]: "length h = 32 \<Longrightarrow> BytesToHash h = h"
  by (simp add: BytesToHash_def)

section \<open>Availability\<close>

definition disk_at :: "Database \<Rightarrow> hash \<Rightarrow> byte list option" where
  "disk_at d h = (case d_disk d of None \<Rightarrow> None | Some m \<Rightarrow> m (disk_key h))"

text \<open>What a database \<open>d0\<close> holds is still available in \<open>d\<close>: an entry is in the cache with its content,
  or its encoding is on disk; and the disk has changed only to hold encodings of entries.\<close>

definition written :: "Database \<Rightarrow> Database \<Rightarrow> hash \<Rightarrow> bool" where
  "written d0 d h \<longleftrightarrow> (\<exists>n v. d_dirties d0 h = Some n \<and> cachedNode_rlp n = Ok v \<and> disk_at d h = Some v)"

definition cached :: "Database \<Rightarrow> Database \<Rightarrow> hash \<Rightarrow> bool" where
  "cached d0 d h \<longleftrightarrow> (\<exists>n n0. d_dirties d0 h = Some n0 \<and> d_dirties d h = Some n \<and> cn_node n = cn_node n0 \<and> cn_children n = cn_children n0 \<and> cn_parents n = cn_parents n0)"

definition avail :: "Database \<Rightarrow> Database \<Rightarrow> bool" where
  "avail d0 d \<longleftrightarrow> d_disk d \<noteq> None \<and> (\<forall>h \<in> dom (d_dirties d0). length h = 32) \<and> dom (d_dirties d) \<subseteq> dom (d_dirties d0) \<and>
     (\<forall>h. d_dirties d0 h \<noteq> None \<longrightarrow> cached d0 d h \<or> d_dirties d h = None \<and> written d0 d h) \<and>
     (\<forall>h. length h = 32 \<longrightarrow> disk_at d h = disk_at d0 h \<or> written d0 d h)"

definition pending :: "Database \<Rightarrow> batch \<Rightarrow> bool" where
  "pending d0 b \<longleftrightarrow> (\<forall>kv \<in> set (b_writes b). \<not> kv_delete kv \<and>
     ((\<exists>p. kv_key kv = secureKey p \<and> length p = 32) \<or>
      (\<exists>h n. kv_key kv = disk_key h \<and> length h = 32 \<and> d_dirties d0 h = Some n \<and> cachedNode_rlp n = Ok (kv_value kv))))"

definition in_batch :: "batch \<Rightarrow> hash \<Rightarrow> bool" where
  "in_batch b h \<longleftrightarrow> (\<exists>kv \<in> set (b_writes b). kv_key kv = disk_key h)"

lemma avail_entry: "avail d0 d \<Longrightarrow> d_dirties d0 h \<noteq> None \<Longrightarrow> cached d0 d h \<or> d_dirties d h = None \<and> written d0 d h"
  and avail_length: "avail d0 d \<Longrightarrow> d_dirties d0 h \<noteq> None \<Longrightarrow> length h = 32"
  and avail_disk: "avail d0 d \<Longrightarrow> length h = 32 \<Longrightarrow> disk_at d h = disk_at d0 h \<or> written d0 d h"
  and avail_dom: "avail d0 d \<Longrightarrow> d_dirties d h = Some n \<Longrightarrow> d_dirties d0 h \<noteq> None"
  and avail_open: "avail d0 d \<Longrightarrow> d_disk d \<noteq> None"
  unfolding avail_def by auto

lemma availI:
  assumes "d_disk d \<noteq> None" and "\<And>h. d_dirties d0 h \<noteq> None \<Longrightarrow> length h = 32"
    and "\<And>h. d_dirties d h \<noteq> None \<Longrightarrow> d_dirties d0 h \<noteq> None"
    and "\<And>h. d_dirties d0 h \<noteq> None \<Longrightarrow> cached d0 d h \<or> d_dirties d h = None \<and> written d0 d h"
    and "\<And>h. length h = 32 \<Longrightarrow> disk_at d h = disk_at d0 h \<or> written d0 d h"
  shows "avail d0 d"
  using assms unfolding avail_def by blast

lemma avail_refl: "d_disk d \<noteq> None \<Longrightarrow> \<forall>h \<in> dom (d_dirties d). length h = 32 \<Longrightarrow> avail d d"
  by (auto simp: avail_def cached_def)

lemma pending_empty [simp]: "pending d0 NewBatch" "pending d0 (batch_Reset b)" "\<not> in_batch NewBatch h" "\<not> in_batch (batch_Reset b) h"
  by (simp_all add: pending_def in_batch_def NewBatch_def batch_Reset_def)

lemma pending_Put:
  "pending d0 b \<Longrightarrow> length p = 32 \<Longrightarrow> pending d0 (batch_Put (secureKey p) v b)"
  "pending d0 b \<Longrightarrow> length h = 32 \<Longrightarrow> d_dirties d0 h = Some n \<Longrightarrow> cachedNode_rlp n = Ok v \<Longrightarrow> pending d0 (batch_Put (disk_key h) v b)"
  by (auto simp: pending_def batch_Put_def)

lemma in_batch_Put [simp]: "in_batch (batch_Put (disk_key h) v b) h' \<longleftrightarrow> h' = h \<or> in_batch b h'"
  by (auto simp: in_batch_def batch_Put_def)

lemma in_batch_secure [simp]: "length p = 32 \<Longrightarrow> length h = 32 \<Longrightarrow> in_batch (batch_Put (secureKey p) v b) h \<longleftrightarrow> in_batch b h"
  by (auto simp: in_batch_def batch_Put_def secureKey_other)

lemma last_write_pending:
  assumes "pending d0 b" and "length h = 32"
  shows "last_write (b_writes b) m (disk_key h) = m (disk_key h) \<and> \<not> in_batch b h \<or>
    (\<exists>n v. d_dirties d0 h = Some n \<and> cachedNode_rlp n = Ok v \<and> last_write (b_writes b) m (disk_key h) = Some v)"
proof (cases "find (\<lambda>kv. kv_key kv = disk_key h) (rev (b_writes b))")
  case None
  then have "\<not> in_batch b h" by (auto simp: in_batch_def find_None_iff)
  then show ?thesis using None by (simp add: last_write_def)
next
  case (Some kv)
  then obtain i where "i < length (rev (b_writes b))" "kv = rev (b_writes b) ! i" "kv_key kv = disk_key h"
    unfolding find_Some_iff by metis
  then have kv: "kv \<in> set (b_writes b)" "kv_key kv = disk_key h" using nth_mem [of i "rev (b_writes b)"] by simp_all
  then show ?thesis using assms Some secureKey_other [OF assms(2)] by (fastforce simp: pending_def last_write_def)
qed

text \<open>Writing a batch of entries to disk.\<close>

lemma write_avail:
  assumes "avail d0 d" and "pending d0 b"
  shows "\<exists>d'. onDisk (batch_Write b) d = (Ok (), d') \<and> avail d0 d' \<and> d_dirties d' = d_dirties d \<and> d_oldest d' = d_oldest d \<and>
    (\<forall>h. length h = 32 \<longrightarrow> in_batch b h \<or> written d0 d h \<longrightarrow> written d0 d' h)"
proof -
  obtain m where m: "d_disk d = Some m" using assms(1) by (auto simp: avail_def)
  define d' where "d' = d\<lparr>d_disk := Some (last_write (b_writes b) m)\<rparr>"
  have run: "onDisk (batch_Write b) d = (Ok (), d')" using m by (simp add: onDisk_def batch_Write_def forM_write_one d'_def)
  have disk: "disk_at d h = m (disk_key h)" "disk_at d' h = last_write (b_writes b) m (disk_key h)" for h
    by (simp_all add: disk_at_def m d'_def)
  have wr: "disk_at d' h = disk_at d h \<and> \<not> in_batch b h \<or> written d0 d' h" if "length h = 32" for h
    using last_write_pending [OF assms(2) that, of m] by (auto simp: disk written_def)
  have keep: "written d0 d' h" if "length h = 32" "in_batch b h \<or> written d0 d h" for h
    using wr [OF that(1)] that(2) by (auto simp: written_def)
  have same: "d_dirties d' = d_dirties d" "d_disk d' \<noteq> None" by (simp_all add: d'_def)
  have "avail d0 d'"
  proof (rule availI)
    show "cached d0 d' h \<or> d_dirties d' h = None \<and> written d0 d' h" if "d_dirties d0 h \<noteq> None" for h
      using avail_entry [OF assms(1) that] keep [OF avail_length [OF assms(1) that]] same by (auto simp: cached_def)
    show "disk_at d' h = disk_at d0 h \<or> written d0 d' h" if "length h = 32" for h
      using avail_disk [OF assms(1) that] wr [OF that] keep [OF that] by auto
    show "d_dirties d0 h \<noteq> None" if "d_dirties d' h \<noteq> None" for h using that avail_dom [OF assms(1)] same by auto
  qed (use assms(1) same avail_length in auto)
  then show ?thesis using run keep by (auto simp: d'_def)
qed

section \<open>Entries that leave the cache\<close>

text \<open>From \<open>d\<close> to \<open>d'\<close> only entries of \<open>H\<close> were removed, and flush links of others changed.\<close>

definition removed :: "hash set \<Rightarrow> Database \<Rightarrow> Database \<Rightarrow> bool" where
  "removed H d d' \<longleftrightarrow> d_disk d' = d_disk d \<and>
     (\<forall>h. d_dirties d' h = None \<and> (h \<in> H \<or> d_dirties d h = None) \<or>
       (\<exists>n n'. d_dirties d h = Some n \<and> d_dirties d' h = Some n' \<and> cn_node n' = cn_node n \<and> cn_children n' = cn_children n \<and> cn_parents n' = cn_parents n))"

lemma removed_refl: "removed H d d"
  unfolding removed_def by (metis not_None_eq)

lemma removed_none: "removed H d d' \<Longrightarrow> d_dirties d h = None \<Longrightarrow> d_dirties d' h = None"
  unfolding removed_def by (metis option.distinct(1))

lemma removed_update:
  assumes "removed H d d'" and "d_dirties d'' = (d_dirties d')(h := e)" and "d_disk d'' = d_disk d'"
    and "e = None \<and> h \<in> H \<or> (\<exists>n n'. d_dirties d' h = Some n \<and> e = Some n' \<and> cn_node n' = cn_node n \<and> cn_children n' = cn_children n \<and> cn_parents n' = cn_parents n)"
  shows "removed H d d''"
  using assms unfolding removed_def by (auto simp: fun_upd_def) (metis option.distinct(1) option.inject)+

lemma removed_same: "removed H d d' \<Longrightarrow> d_dirties d'' = d_dirties d' \<Longrightarrow> d_disk d'' = d_disk d' \<Longrightarrow> removed H d d''"
  unfolding removed_def by simp

lemma removed_setEntry [keeps_intros]:
  assumes "\<And>n. cn_node (f n) = cn_node n \<and> cn_children (f n) = cn_children n \<and> cn_parents (f n) = cn_parents n"
  shows "keeps (removed H d) (setEntry h f)"
  unfolding keeps_def
proof (intro allI impI)
  fix d' assume "removed H d d'"
  then show "removed H d (snd (setEntry h f d'))"
    using assms removed_update [of H d d' _ h] by (cases "d_dirties d' h") (auto simp: setEntry_def entry_def bindM_def modM_def)
qed

lemma removed_unlink: "keeps (removed H d) (unlink h n)"
  unfolding unlink_def by (intro keeps_intros) (auto intro!: keeps_modM elim: removed_same)

lemma removed_cleaner_Put:
  assumes "h \<in> H" and "length h = 32"
  shows "keeps (removed H d) (cleaner_Put (disk_key h))"
proof -
  have "keeps (removed H d) (modM (\<lambda>d. d\<lparr>d_dirties := (d_dirties d)(h := None), d_dirtiesSize := g d\<rparr>))" for g
    by (rule keeps_modM) (use assms(1) in \<open>auto elim!: removed_update [where h = h and e = None]\<close>)
  then show ?thesis using assms(2) removed_unlink
    by (auto simp: cleaner_Put_def intro!: keeps_intros)
qed

text \<open>A batch of nodes only, as \<open>commit\<close> fills it.\<close>

definition node_writes :: "Database \<Rightarrow> batch \<Rightarrow> bool" where
  "node_writes d0 b \<longleftrightarrow> pending d0 b \<and> (\<forall>kv \<in> set (b_writes b). \<exists>h. length h = 32 \<and> kv_key kv = disk_key h)"

lemma node_writes_simps [simp]:
  "node_writes d0 NewBatch" "node_writes d0 (batch_Reset b)"
  by (simp_all add: node_writes_def, simp_all add: NewBatch_def batch_Reset_def)

lemma node_writes_Put:
  "node_writes d0 b \<Longrightarrow> length h = 32 \<Longrightarrow> d_dirties d0 h = Some n \<Longrightarrow> cachedNode_rlp n = Ok v \<Longrightarrow> node_writes d0 (batch_Put (disk_key h) v b)"
  unfolding node_writes_def by (auto simp: pending_Put) (auto simp: batch_Put_def)

lemma node_writesE:
  assumes "node_writes d0 b" and "kv \<in> set (b_writes b)"
  obtains h where "kv_key kv = disk_key h" and "length h = 32" and "in_batch b h" and "\<not> kv_delete kv"
  using assms unfolding node_writes_def pending_def in_batch_def by metis

definition batch_hashes :: "batch \<Rightarrow> hash set" where
  "batch_hashes b = {h. length h = 32 \<and> in_batch b h}"

lemma removed_uncache:
  assumes "node_writes d0 b" and "batch_hashes b \<subseteq> H"
  shows "keeps (removed H d) (uncache b)"
  unfolding uncache_def
proof (rule keeps_forM_in)
  fix kv assume "kv \<in> set (b_writes b)"
  then obtain h where "kv_key kv = disk_key h" "length h = 32" "in_batch b h" "\<not> kv_delete kv"
    by (rule node_writesE [OF assms(1)])
  then show "keeps (removed H d) (if kv_delete kv then panicM ''not implemented'' else cleaner_Put (kv_key kv))"
    using removed_cleaner_Put [of h H d] assms(2) by (auto simp: batch_hashes_def)
qed

lemma cleaner_Put_gone:
  assumes "length h = 32" and "cleaner_Put (disk_key h) d = (Ok (), d')"
  shows "d_dirties d' h = None"
  using assms by (auto simp: cleaner_Put_def bindM_def seqM_def getsM_def modM_def retM_def split: option.splits prod.splits res.splits)

lemma uncache_gone:
  assumes "node_writes d0 b" and "uncache b d = (Ok (), d')" and "in_batch b h" and "length h = 32"
  shows "d_dirties d' h = None"
proof -
  let ?body = "\<lambda>kv. if kv_delete kv then panicM ''not implemented'' else cleaner_Put (kv_key kv)"
  have "\<forall>kv \<in> set (b_writes b). d_dirties d' (key_bytes (kv_key kv)) = None"
  proof (rule forM_each [OF assms(2) [unfolded uncache_def]])
    fix kv s s' assume kv: "kv \<in> set (b_writes b)" and run: "?body kv s = (Ok (), s')"
    then obtain h where h: "kv_key kv = disk_key h" "length h = 32" "\<not> kv_delete kv" using node_writesE [OF assms(1)] by metis
    then show "d_dirties s' (key_bytes (kv_key kv)) = None" using run cleaner_Put_gone [of h s s'] by simp
  next
    fix kv :: keyvalue and y :: keyvalue and s s' assume kv: "kv \<in> set (b_writes b)" and y: "d_dirties s (key_bytes (kv_key y)) = None" and run: "?body kv s = (Ok (), s')"
    then obtain h where h: "kv_key kv = disk_key h" "length h = 32" "\<not> kv_delete kv" using node_writesE [OF assms(1)] by metis
    have "removed {h} s s'" using keeps_step [OF removed_cleaner_Put [of h "{h}" s] removed_refl, of "Ok ()" s'] run h by simp
    then show "d_dirties s' (key_bytes (kv_key y)) = None" using y removed_none by blast
  qed
  then show ?thesis using assms(3) by (auto simp: in_batch_def)
qed

text \<open>Removing entries that are on disk keeps everything available.\<close>

lemma avail_removed:
  assumes "avail d0 d" and "removed H d d'" and "\<And>h. h \<in> H \<Longrightarrow> d_dirties d h \<noteq> None \<Longrightarrow> written d0 d h"
  shows "avail d0 d'" and "written d0 d h \<Longrightarrow> written d0 d' h"
proof -
  have disk: "disk_at d' h = disk_at d h" for h using assms(2) by (simp add: removed_def disk_at_def)
  then have wr: "written d0 d' h \<longleftrightarrow> written d0 d h" for h by (simp add: written_def)
  then show "written d0 d h \<Longrightarrow> written d0 d' h" by simp
  have step: "d_dirties d' h = None \<and> (h \<in> H \<or> d_dirties d h = None) \<or>
       (\<exists>n n'. d_dirties d h = Some n \<and> d_dirties d' h = Some n' \<and> cn_node n' = cn_node n \<and> cn_children n' = cn_children n \<and> cn_parents n' = cn_parents n)" for h
    by (rule conjunct2 [OF assms(2) [unfolded removed_def], THEN spec])
  show "avail d0 d'"
  proof (rule availI)
    show "d_disk d' \<noteq> None" using assms(2) avail_open [OF assms(1)] by (simp add: removed_def)
    show "length h = 32" if "d_dirties d0 h \<noteq> None" for h using that assms(1) avail_length by blast
    show "d_dirties d0 h \<noteq> None" if "d_dirties d' h \<noteq> None" for h using step [of h] that avail_dom [OF assms(1)] by auto
    show "disk_at d' h = disk_at d0 h \<or> written d0 d' h" if "length h = 32" for h using avail_disk [OF assms(1) that] disk wr by auto
    show "cached d0 d' h \<or> d_dirties d' h = None \<and> written d0 d' h" if "d_dirties d0 h \<noteq> None" for h
      using step [of h] avail_entry [OF assms(1) that] assms(3) [of h] by (auto simp: cached_def wr)
  qed
qed

section \<open>Commit\<close>

definition kids :: "Database \<Rightarrow> hash \<Rightarrow> hash set" where
  "kids d h = (case d_dirties d h of None \<Rightarrow> {} | Some n \<Rightarrow> (case forChilds n of Ok cs \<Rightarrow> set cs | _ \<Rightarrow> {}))"

text \<open>An entry is covered once it is in the batch or has left the cache; a covered entry has all its
  children covered.\<close>

definition covered :: "Database \<Rightarrow> batch \<Rightarrow> Database \<Rightarrow> hash \<Rightarrow> bool" where
  "covered d0 b d h \<longleftrightarrow> d_dirties d0 h \<noteq> None \<and> (in_batch b h \<or> d_dirties d h = None)"

definition commit_inv :: "Database \<Rightarrow> hash set \<Rightarrow> batch \<Rightarrow> Database \<Rightarrow> bool" where
  "commit_inv d0 C b d \<longleftrightarrow> avail d0 d \<and> node_writes d0 b \<and> (\<forall>h \<in> C. covered d0 b d h) \<and>
     (\<forall>h c. covered d0 b d h \<longrightarrow> c \<in> kids d0 h \<longrightarrow> d_dirties d0 c \<noteq> None \<longrightarrow> covered d0 b d c)"

lemma forChilds_same: "cn_node n' = cn_node n \<Longrightarrow> cn_children n' = cn_children n \<Longrightarrow> forChilds n' = forChilds n"
  by (simp add: forChilds_def childList_def)

lemma rlp_same: "cn_node n' = cn_node n \<Longrightarrow> cachedNode_rlp n' = cachedNode_rlp n"
  by (simp add: cachedNode_rlp_def)

lemma flush_commit:
  assumes inv: "commit_inv d0 C b d"
  shows "\<exists>r d'. seqM (onDisk (batch_Write b)) (uncache b) d = (r, d') \<and> avail d0 d' \<and>
    (r = Ok () \<longrightarrow> commit_inv d0 C (batch_Reset b) d' \<and> (\<forall>h. covered d0 b d h \<longrightarrow> d_dirties d' h = None))"
proof -
  have writes: "node_writes d0 b" "pending d0 b" using inv by (auto simp: commit_inv_def node_writes_def)
  obtain d1 where d1: "onDisk (batch_Write b) d = (Ok (), d1)" "avail d0 d1" "d_dirties d1 = d_dirties d"
    "\<And>h. length h = 32 \<Longrightarrow> in_batch b h \<Longrightarrow> written d0 d1 h"
    using write_avail [OF _ writes(2), of d] inv unfolding commit_inv_def by blast
  obtain r d' where d': "uncache b d1 = (r, d')" by fastforce
  have rem: "removed (batch_hashes b) d1 d'" using keeps_step [OF removed_uncache [OF writes(1) order_refl] removed_refl d'] .
  have av: "avail d0 d'" using avail_removed(1) [OF d1(2) rem] d1(4) by (auto simp: batch_hashes_def)
  have gone: "covered d0 b d h \<Longrightarrow> d_dirties d' h = None" if "r = Ok ()" for h
    using that uncache_gone [OF writes(1), of d1 d' h] d' avail_length [OF av, of h] d1(3) removed_none [OF rem, of h] by (auto simp: covered_def)
  have was: "covered d0 (batch_Reset b) d' h \<Longrightarrow> covered d0 b d h" for h
    using rem avail_length [OF av, of h] d1(3) unfolding removed_def covered_def batch_hashes_def by auto
  have "commit_inv d0 C (batch_Reset b) d'" if "r = Ok ()"
    using inv av gone [OF that] was unfolding commit_inv_def covered_def by (metis node_writes_simps(2))
  then show ?thesis using d1(1) d' av gone by (intro exI [of _ r] exI [of _ d']) (auto simp: seqM_def bindM_def)
qed

lemma commit_inv_weaken: "commit_inv d0 C b d \<Longrightarrow> C' \<subseteq> C \<Longrightarrow> commit_inv d0 C' b d"
  unfolding commit_inv_def by blast

lemma commit_inv_Put:
  assumes "commit_inv d0 C b d" and "d_dirties d0 h = Some n" and "cachedNode_rlp n = Ok v" and "kids d0 h \<inter> dom (d_dirties d0) \<subseteq> C"
  shows "commit_inv d0 (C \<union> {h}) (batch_Put (disk_key h) v b) d"
proof -
  have len: "length h = 32" using avail_length [of d0 d h] assms(1,2) by (simp add: commit_inv_def)
  have cov: "covered d0 (batch_Put (disk_key h) v b) d x \<longleftrightarrow> x = h \<or> covered d0 b d x" for x
    using assms(2) by (auto simp: covered_def)
  have "covered d0 b d c" if "c \<in> kids d0 h" "d_dirties d0 c \<noteq> None" for c
    using that assms(1,4) unfolding commit_inv_def by blast
  then show ?thesis
    using assms(1) node_writes_Put [OF _ len assms(2,3), of b] unfolding commit_inv_def cov by blast
qed

lemma ensures_commitEach:
  assumes "\<And>C b child. ensures (commit_inv d0 C b) (f child b) (commit_inv d0 (C \<union> ({child} \<inter> dom (d_dirties d0)))) (avail d0)"
  shows "ensures (commit_inv d0 C b) (commitEach f childs b) (commit_inv d0 (C \<union> (set childs \<inter> dom (d_dirties d0)))) (avail d0)"
proof (induction childs arbitrary: C b)
  case (Cons child childs)
  have "ensures (commit_inv d0 C b) (bindM (f child b) (commitEach f childs))
      (commit_inv d0 (C \<union> ({child} \<inter> dom (d_dirties d0)) \<union> (set childs \<inter> dom (d_dirties d0)))) (avail d0)"
    by (rule ensures_bindM [OF assms Cons.IH])
  moreover have "C \<union> ({child} \<inter> dom (d_dirties d0)) \<union> (set childs \<inter> dom (d_dirties d0)) = C \<union> (set (child # childs) \<inter> dom (d_dirties d0))" by auto
  ultimately show ?case by simp
qed (simp add: ensures_def retM_def)

lemma ensures_flush:
  "ensures (commit_inv d0 C b) (seqM (onDisk (batch_Write b)) (seqM (uncache b) (retM (batch_Reset b)))) (commit_inv d0 C) (avail d0)"
  unfolding ensures_def
proof (intro allI impI)
  fix d assume "commit_inv d0 C b d"
  from flush_commit [OF this] show "case seqM (onDisk (batch_Write b)) (seqM (uncache b) (retM (batch_Reset b))) d of
      (Ok b', d') \<Rightarrow> commit_inv d0 C b' d' | (_, d') \<Rightarrow> avail d0 d'"
    by (auto simp: seqM_def bindM_def retM_def split: prod.splits res.splits)
qed

lemma ensures_node:
  assumes "d_dirties d0 h = Some n" and "\<And>C b child. ensures (commit_inv d0 C b) (f child b) (commit_inv d0 (C \<union> ({child} \<inter> dom (d_dirties d0)))) (avail d0)"
  shows "ensures (commit_inv d0 C b)
    (bindM (liftR (forChilds n)) (\<lambda>childs. bindM (commitEach f childs b) (\<lambda>b. bindM (liftR (cachedNode_rlp n)) (\<lambda>rlp.
       let b = batch_Put (disk_key h) rlp b in
       if IdealBatchSize \<le> batch_ValueSize b then seqM (onDisk (batch_Write b)) (seqM (uncache b) (retM (batch_Reset b))) else retM b))))
    (commit_inv d0 (C \<union> {h})) (avail d0)"
proof (cases "forChilds n")
  case (Ok childs)
  have kids: "kids d0 h = set childs" using Ok assms(1) by (simp add: kids_def)
  show ?thesis
    unfolding Ok bindM_liftR
  proof (rule ensures_bindM [OF ensures_commitEach [OF assms(2)]])
    fix b'
    let ?C = "C \<union> (set childs \<inter> dom (d_dirties d0))"
    show "ensures (commit_inv d0 ?C b') (bindM (liftR (cachedNode_rlp n)) (\<lambda>rlp.
        let b = batch_Put (disk_key h) rlp b' in
        if IdealBatchSize \<le> batch_ValueSize b then seqM (onDisk (batch_Write b)) (seqM (uncache b) (retM (batch_Reset b))) else retM b))
      (commit_inv d0 (C \<union> {h})) (avail d0)"
    proof (cases "cachedNode_rlp n")
      case rlp: (Ok v)
      have put: "commit_inv d0 (C \<union> {h}) (batch_Put (disk_key h) v b') d" if "commit_inv d0 ?C b' d" for d
        by (rule commit_inv_weaken [OF commit_inv_Put [OF that assms(1) rlp]]) (auto simp: kids)
      show ?thesis
        unfolding rlp bindM_liftR Let_def
      proof (rule ensures_if)
        show "ensures (commit_inv d0 ?C b') (seqM (onDisk (batch_Write (batch_Put (disk_key h) v b')))
            (seqM (uncache (batch_Put (disk_key h) v b')) (retM (batch_Reset (batch_Put (disk_key h) v b'))))) (commit_inv d0 (C \<union> {h})) (avail d0)"
          by (rule ensures_weaken [OF ensures_flush put])
        show "ensures (commit_inv d0 ?C b') (retM (batch_Put (disk_key h) v b')) (commit_inv d0 (C \<union> {h})) (avail d0)"
          using put by (simp add: ensures_def retM_def)
      qed
    qed (auto simp: ensures_def bindM_def liftR_def commit_inv_def)
  qed
qed (auto simp: ensures_def bindM_def liftR_def commit_inv_def)

lemma ensures_commitN:
  "ensures (commit_inv d0 C b) (commitN n h b) (commit_inv d0 (C \<union> ({h} \<inter> dom (d_dirties d0)))) (avail d0)"
proof (induction n arbitrary: C b h)
  case 0
  then show ?case by (simp add: ensures_def commit_inv_def)
next
  case (Suc n)
  show ?case
    unfolding ensures_def
  proof (intro allI impI)
    fix d assume inv: "commit_inv d0 C b d"
    then have av: "avail d0 d" by (simp add: commit_inv_def)
    show "case commitN (Suc n) h b d of (Ok b', d') \<Rightarrow> commit_inv d0 (C \<union> ({h} \<inter> dom (d_dirties d0))) b' d' | (_, d') \<Rightarrow> avail d0 d'"
    proof (cases "d_dirties d h")
      case None
      then have "d_dirties d0 h \<noteq> None \<Longrightarrow> covered d0 b d h" by (simp add: covered_def)
      then show ?thesis using None inv by (auto simp: commit_inv_def getsM_def bindM_def retM_def)
    next
      case (Some node)
      then obtain n0 where n0: "d_dirties d0 h = Some n0" "cn_node node = cn_node n0" "cn_children node = cn_children n0"
        using avail_dom [OF av Some] avail_entry [OF av, of h] by (auto simp: cached_def)
      have run: "commitN (Suc n) h b d = bindM (liftR (forChilds n0)) (\<lambda>childs. bindM (commitEach (commitN n) childs b) (\<lambda>b. bindM (liftR (cachedNode_rlp n0)) (\<lambda>rlp.
          let b = batch_Put (disk_key h) rlp b in
          if IdealBatchSize \<le> batch_ValueSize b then seqM (onDisk (batch_Write b)) (seqM (uncache b) (retM (batch_Reset b))) else retM b))) d"
        using Some n0 by (simp add: forChilds_same [of node n0] rlp_same [of node n0] bindM_def getsM_def)
      have one: "{h} \<inter> dom (d_dirties d0) = {h}" using n0(1) by auto
      show ?thesis unfolding run one by (rule ensures_use [OF ensures_node [OF n0(1) Suc.IH] inv])
    qed
  qed
qed

text \<open>Preimages go to keys of their own.\<close>

definition disk_only :: "Database \<Rightarrow> Database \<Rightarrow> bool" where
  "disk_only d0 d \<longleftrightarrow> avail d0 d \<and> d_dirties d = d_dirties d0 \<and> d_oldest d = d_oldest d0"

lemma ensures_Write:
  "ensures (\<lambda>d. disk_only d0 d \<and> pending d0 b) (onDisk (batch_Write b)) (\<lambda>_. disk_only d0) (avail d0)"
  unfolding ensures_def
proof (intro allI impI)
  fix d assume "disk_only d0 d \<and> pending d0 b"
  then obtain d' where "onDisk (batch_Write b) d = (Ok (), d')" "avail d0 d'" "d_dirties d' = d_dirties d" "d_oldest d' = d_oldest d"
    "d_dirties d = d_dirties d0" "d_oldest d = d_oldest d0"
    using write_avail [of d0 d b] unfolding disk_only_def by blast
  then show "case onDisk (batch_Write b) d of (Ok _, d') \<Rightarrow> disk_only d0 d' | (_, d') \<Rightarrow> avail d0 d'" by (simp add: disk_only_def)
qed

lemma ensures_putPreimages:
  "\<forall>(h, p) \<in> set ps. length h = 32 \<Longrightarrow>
     ensures (\<lambda>d. disk_only d0 d \<and> pending d0 b) (putPreimages ps b) (\<lambda>b' d. disk_only d0 d \<and> pending d0 b') (avail d0)"
proof (induction ps b rule: putPreimages.induct)
  case (1 b)
  then show ?case by (simp add: ensures_def retM_def)
next
  case (2 hash p ps b)
  let ?b = "batch_Put (secureKey hash) p b"
  have put: "pending d0 b \<Longrightarrow> pending d0 ?b" using 2(3) pending_Put(1) by auto
  show ?case
  proof (cases "IdealBatchSize < batch_ValueSize ?b")
    case True
    have "ensures (\<lambda>d. disk_only d0 d \<and> pending d0 ?b) (seqM (onDisk (batch_Write ?b)) (putPreimages ps (batch_Reset ?b)))
        (\<lambda>b' d. disk_only d0 d \<and> pending d0 b') (avail d0)"
      by (rule ensures_seqM [OF ensures_Write], rule ensures_weaken [OF 2(1) [OF refl True]]) (use 2(3) in auto)
    then show ?thesis using True put by (auto simp: Let_def elim!: ensures_weaken)
  next
    case False
    have "ensures (\<lambda>d. disk_only d0 d \<and> pending d0 ?b) (putPreimages ps ?b) (\<lambda>b' d. disk_only d0 d \<and> pending d0 b') (avail d0)"
      by (rule 2(2) [OF refl False]) (use 2(3) in auto)
    then show ?thesis using False put by (auto simp: Let_def elim!: ensures_weaken)
  qed
qed

definition typed :: "Database \<Rightarrow> bool" where
  "typed d \<longleftrightarrow> d_disk d \<noteq> None \<and> (\<forall>h \<in> dom (d_dirties d). length h = 32) \<and> (\<forall>(h, p) \<in> set (d_preimages d). length h = 32)"

lemma disk_only_refl: "typed d \<Longrightarrow> disk_only d d"
  by (auto simp: typed_def disk_only_def avail_refl)

lemma avail_stats:
  "avail d0 d \<Longrightarrow> d_disk d' = d_disk d \<Longrightarrow> d_dirties d' = d_dirties d \<Longrightarrow> avail d0 d'"
  by (simp add: avail_def cached_def written_def disk_at_def)

lemma commit_inv_start:
  assumes "disk_only d0 d"
  shows "commit_inv d0 {} (batch_Reset b) d"
  using assms by (auto simp: commit_inv_def disk_only_def covered_def)

abbreviation child_of :: "Database \<Rightarrow> hash \<Rightarrow> hash \<Rightarrow> bool" where
  "child_of d h c \<equiv> c \<in> kids d h \<and> d_dirties d c \<noteq> None"

lemma commit_inv_reach:
  assumes "commit_inv d0 C b d" and "root \<in> C" and "(child_of d0)\<^sup>*\<^sup>* root h"
  shows "covered d0 b d h"
  using assms(3)
proof (induction rule: rtranclp_induct)
  case base
  then show ?case using assms(1,2) by (simp add: commit_inv_def)
next
  case (step h c)
  then show ?case using assms(1) unfolding commit_inv_def by blast
qed

lemma ensures_last:
  assumes "\<And>d. d_disk (g d) = d_disk d" and "\<And>d. d_dirties (g d) = d_dirties d"
  shows "ensures (commit_inv d0 C b) (seqM (onDisk (batch_Write b)) (seqM (uncache b) (modM g)))
    (\<lambda>_ d. avail d0 d \<and> (\<forall>h \<in> C. \<forall>x. (child_of d0)\<^sup>*\<^sup>* h x \<longrightarrow> d_dirties d x = None)) (avail d0)"
  unfolding ensures_def
proof (intro allI impI)
  fix d assume inv: "commit_inv d0 C b d"
  obtain r d' where d': "seqM (onDisk (batch_Write b)) (uncache b) d = (r, d')" "avail d0 d'"
    "r = Ok () \<longrightarrow> (\<forall>h. covered d0 b d h \<longrightarrow> d_dirties d' h = None)" using flush_commit [OF inv] by blast
  then show "case seqM (onDisk (batch_Write b)) (seqM (uncache b) (modM g)) d of
      (Ok _, d') \<Rightarrow> avail d0 d' \<and> (\<forall>h \<in> C. \<forall>x. (child_of d0)\<^sup>*\<^sup>* h x \<longrightarrow> d_dirties d' x = None) | (_, d') \<Rightarrow> avail d0 d'"
    using assms avail_stats [OF d'(2), of "g d'"] commit_inv_reach [OF inv]
    by (auto simp: seqM_def bindM_def modM_def split: prod.splits res.splits)
qed

lemma ensures_Commit:
  assumes "typed d0"
  shows "ensures (\<lambda>d. d = d0) (Commit root)
    (\<lambda>_ d. avail d0 d \<and> (\<forall>h \<in> {root} \<inter> dom (d_dirties d0). \<forall>x. (child_of d0)\<^sup>*\<^sup>* h x \<longrightarrow> d_dirties d x = None)) (avail d0)"
proof -
  let ?Q = "\<lambda>_ d. avail d0 d \<and> (\<forall>h \<in> {root} \<inter> dom (d_dirties d0). \<forall>x. (child_of d0)\<^sup>*\<^sup>* h x \<longrightarrow> d_dirties d x = None)"
  let ?last = "\<lambda>b. seqM (onDisk (batch_Write b)) (seqM (uncache b)
    (modM (\<lambda>d. d\<lparr>d_preimages := [], d_preimagesSize := 0, d_gcnodes := 0, d_gcsize := 0, d_flushnodes := 0, d_flushsize := 0\<rparr>)))"
  let ?rest = "\<lambda>b. bindM (getsM (\<lambda>d. card (dom (d_dirties d)))) (\<lambda>n. bindM (commitN (Suc n) root (batch_Reset b)) ?last)"
  have start: "ensures (disk_only d0) (commitN n root (batch_Reset b)) (commit_inv d0 ({root} \<inter> dom (d_dirties d0))) (avail d0)" for n b
    using ensures_weaken [OF ensures_commitN [of d0 "{}" "batch_Reset b" n root] commit_inv_start] by simp
  have "ensures (disk_only d0) (bindM (commitN n root (batch_Reset b)) ?last) ?Q (avail d0)" for n b
    by (rule ensures_bindM [OF start ensures_last]) simp_all
  then have "ensures (disk_only d0) (?rest b) ?Q (avail d0)" for b
    by (rule ensures_gets_any)
  then have wr: "ensures (\<lambda>d. disk_only d0 d \<and> pending d0 b) (seqM (onDisk (batch_Write b)) (?rest b)) ?Q (avail d0)" for b
    by (rule ensures_seqM [OF ensures_Write])
  have "ensures (\<lambda>d. disk_only d0 d \<and> pending d0 NewBatch) (putPreimages (d_preimages d0) NewBatch) (\<lambda>b d. disk_only d0 d \<and> pending d0 b) (avail d0)"
    by (rule ensures_putPreimages) (use assms in \<open>simp add: typed_def\<close>)
  from ensures_bindM [OF this wr] have all: "ensures (\<lambda>d. disk_only d0 d \<and> pending d0 NewBatch)
      (bindM (putPreimages (d_preimages d0) NewBatch) (\<lambda>b. seqM (onDisk (batch_Write b)) (?rest b))) ?Q (avail d0)" .
  show ?thesis
    unfolding Commit_def
  proof (rule ensures_getsM)
    fix s assume s: "s = d0"
    show "ensures (\<lambda>t. t = s) (bindM (putPreimages (d_preimages s) NewBatch) (\<lambda>b. seqM (onDisk (batch_Write b)) (?rest b))) ?Q (avail d0)"
      unfolding s by (rule ensures_weaken [OF all]) (simp_all add: disk_only_refl [OF assms])
  qed
qed

lemma Commit_safe:
  assumes "typed d0" and "Commit root d0 = (r, d)"
  shows "avail d0 d" and "r = Ok () \<Longrightarrow> d_dirties d0 root \<noteq> None \<Longrightarrow> (child_of d0)\<^sup>*\<^sup>* root h \<Longrightarrow> d_dirties d h = None"
proof -
  have "avail d0 (snd (Commit root d0))" by (rule ensures_snd [OF ensures_Commit [OF assms(1)]]) auto
  then show "avail d0 d" using assms(2) by simp
  show "r = Ok () \<Longrightarrow> d_dirties d0 root \<noteq> None \<Longrightarrow> (child_of d0)\<^sup>*\<^sup>* root h \<Longrightarrow> d_dirties d h = None"
    using ensures_Ok [OF ensures_Commit [OF assms(1)], of d0 root "()" d] assms(2) by auto
qed

section \<open>Cap\<close>

text \<open>The way along the flush list from one hash to another.\<close>

primrec path :: "(hash \<rightharpoonup> cachedNode) \<Rightarrow> hash \<Rightarrow> hash list \<Rightarrow> hash \<Rightarrow> bool" where
  "path M x [] y \<longleftrightarrow> x = y"
| "path M x (h # hs) y \<longleftrightarrow> x = h \<and> (\<exists>n. M h = Some n \<and> path M (cn_flushNext n) hs y)"

lemma path_cons: "path M x hs y \<Longrightarrow> x \<noteq> y \<Longrightarrow> \<exists>hs'. hs = x # hs'"
  by (cases hs) simp_all

definition flushed :: "Database \<Rightarrow> batch \<Rightarrow> hash set \<Rightarrow> Database \<Rightarrow> bool" where
  "flushed d0 b W d \<longleftrightarrow> disk_only d0 d \<and> pending d0 b \<and> (\<forall>h \<in> W. length h = 32 \<and> (in_batch b h \<or> written d0 d h))"

lemma flushed_Write:
  assumes "flushed d0 b W d"
  shows "\<exists>d'. onDisk (batch_Write b) d = (Ok (), d') \<and> flushed d0 (batch_Reset b) W d' \<and> (\<forall>h \<in> W. written d0 d' h)"
proof -
  obtain d' where d': "onDisk (batch_Write b) d = (Ok (), d')" "avail d0 d'" "d_dirties d' = d_dirties d" "d_oldest d' = d_oldest d"
    "\<forall>h. length h = 32 \<longrightarrow> in_batch b h \<or> written d0 d h \<longrightarrow> written d0 d' h"
    using assms write_avail [of d0 d b] unfolding flushed_def disk_only_def by blast
  then show ?thesis using assms by (intro exI [of _ d']) (auto simp: flushed_def disk_only_def)
qed

definition flush_post :: "Database \<Rightarrow> hash set \<Rightarrow> hash \<Rightarrow> batch \<times> hash \<Rightarrow> Database \<Rightarrow> bool" where
  "flush_post d0 W oldest a d \<longleftrightarrow> (\<exists>hs. path (d_dirties d0) oldest hs (snd a) \<and> flushed d0 (fst a) (W \<union> set hs) d)"

lemma flush_post_here: "flushed d0 b W d \<Longrightarrow> flush_post d0 W oldest (b, oldest) d"
  unfolding flush_post_def by (rule exI [of _ "[]"]) simp

lemma flush_post_cons:
  assumes "d_dirties d0 oldest = Some n" and "flush_post d0 (W \<union> {oldest}) (cn_flushNext n) a d"
  shows "flush_post d0 W oldest a d"
proof -
  from assms(2) obtain hs where "path (d_dirties d0) (cn_flushNext n) hs (snd a)" "flushed d0 (fst a) (W \<union> {oldest} \<union> set hs) d"
    unfolding flush_post_def by blast
  then have "path (d_dirties d0) oldest (oldest # hs) (snd a) \<and> flushed d0 (fst a) (W \<union> set (oldest # hs)) d" using assms(1) by simp
  then show ?thesis unfolding flush_post_def by blast
qed

lemma ensures_capFlush:
  "ensures (flushed d0 b W) (capFlush fuel sz limit oldest b)
    (flush_post d0 W oldest) (avail d0)"
proof (induction fuel arbitrary: b W sz oldest)
  case 0
  then show ?case by (simp add: ensures_def flushed_def disk_only_def)
next
  case (Suc fuel)
  show ?case
    unfolding ensures_def
  proof (intro allI impI)
    fix d assume d: "flushed d0 b W d"
    then have av: "avail d0 d" "d_dirties d = d_dirties d0" by (simp_all add: flushed_def disk_only_def)
    let ?Q = "flush_post d0 W oldest"
    show "case capFlush (Suc fuel) sz limit oldest b d of (Ok a, d') \<Rightarrow> ?Q a d' | (_, d') \<Rightarrow> avail d0 d'"
    proof (cases "limit < sz \<and> oldest \<noteq> zeroHash")
      case False
      then have "capFlush (Suc fuel) sz limit oldest b d = (Ok (b, oldest), d)" by (auto simp: retM_def)
      then show ?thesis using flush_post_here [OF d] by simp
    next
      case True
      show ?thesis
      proof (cases "d_dirties d0 oldest")
        case None
        then show ?thesis using True av by (simp add: entry_def bindM_def)
      next
        case n: (Some n)
        show ?thesis
        proof (cases "cachedNode_rlp n")
          case (Ok v)
          have len: "length oldest = 32" using avail_length [OF av(1)] n by simp
          have put: "flushed d0 (batch_Put (disk_key oldest) v b) (W \<union> {oldest}) d"
            using d Ok n len pending_Put(2) [of d0 b oldest n v] by (auto simp: flushed_def)
          have IH: "case capFlush fuel sz' limit (cn_flushNext n) b' d' of (Ok a, d') \<Rightarrow> ?Q a d' | (_, d') \<Rightarrow> avail d0 d'"
            if "flushed d0 b' (W \<union> {oldest}) d'" for sz' b' d'
          proof -
            have "ensures (flushed d0 b' (W \<union> {oldest})) (capFlush fuel sz' limit (cn_flushNext n) b') ?Q (avail d0)"
              by (rule ensures_weaken [OF Suc.IH [of b' "W \<union> {oldest}" sz' "cn_flushNext n"]]) (simp, rule flush_post_cons [OF n])
            from ensures_use [OF this that] show ?thesis .
          qed
          obtain d' where d': "onDisk (batch_Write (batch_Put (disk_key oldest) v b)) d = (Ok (), d')"
            "flushed d0 (batch_Reset (batch_Put (disk_key oldest) v b)) (W \<union> {oldest}) d'" using flushed_Write [OF put] by blast
          show ?thesis
            using True n Ok av IH [OF put] IH [OF d'(2)] d'(1) by (simp add: entry_def bindM_def liftR_def Let_def seqM_def)
        qed (use True n av in \<open>simp_all add: entry_def bindM_def liftR_def\<close>)
      qed
    qed
  qed
qed

definition clearing :: "Database \<Rightarrow> hash \<Rightarrow> Database \<Rightarrow> bool" where
  "clearing d0 oldest d \<longleftrightarrow> avail d0 d \<and> d_dirties d \<subseteq>\<^sub>m d_dirties d0 \<and>
     (\<exists>hs. path (d_dirties d0) (d_oldest d) hs oldest \<and> (\<forall>h \<in> set hs. written d0 d h))"

lemma avail_clear:
  assumes "avail d0 d" and "written d0 d h" and "d_dirties d' = (d_dirties d)(h := None)" and "d_disk d' = d_disk d"
  shows "avail d0 d'" and "written d0 d x \<Longrightarrow> written d0 d' x"
proof -
  have "removed {h} d d'" by (rule removed_update [OF removed_refl assms(3,4)]) simp
  from avail_removed [OF assms(1) this] assms(2) show "avail d0 d'" "written d0 d x \<Longrightarrow> written d0 d' x" by simp_all
qed

lemma ensures_capClear: "ensures (clearing d0 oldest) (capClear fuel oldest) (\<lambda>_. avail d0) (avail d0)"
proof (induction fuel)
  case 0
  then show ?case by (simp add: ensures_def clearing_def)
next
  case (Suc fuel)
  show ?case
    unfolding ensures_def
  proof (intro allI impI)
    fix d assume d: "clearing d0 oldest d"
    then obtain hs where av: "avail d0 d" and le: "d_dirties d \<subseteq>\<^sub>m d_dirties d0" and hs: "path (d_dirties d0) (d_oldest d) hs oldest"
      and wr: "\<forall>h \<in> set hs. written d0 d h" unfolding clearing_def by blast
    show "case capClear (Suc fuel) oldest d of (Ok _, d') \<Rightarrow> avail d0 d' | (_, d') \<Rightarrow> avail d0 d'"
    proof (cases "d_oldest d = oldest \<or> d_dirties d (d_oldest d) = None")
      case True
      then obtain r where "capClear (Suc fuel) oldest d = (r, d)" by (cases "d_oldest d = oldest") (simp_all add: retM_def bindM_entry)
      then show ?thesis using av unfolding \<open>capClear (Suc fuel) oldest d = (r, d)\<close> by (cases r) simp_all
    next
      case False
      then obtain n where n: "d_dirties d (d_oldest d) = Some n" by blast
      from False obtain hs' where cons: "hs = d_oldest d # hs'" using path_cons [OF hs] by blast
      have n0: "d_dirties d0 (d_oldest d) = Some n" using n le by (metis domI map_le_def)
      then have path': "path (d_dirties d0) (cn_flushNext n) hs' oldest" using hs cons by simp
      define d' where "d' = d\<lparr>d_dirties := (d_dirties d)(d_oldest d := None), d_oldest := cn_flushNext n,
           d_dirtiesSize := d_dirtiesSize d - int (HashLength + unat (cn_size n)),
           d_childrenSize := (if cn_children n \<noteq> None
             then d_childrenSize d - (cachedNodeChildrenSize + int (length (childList n)) * int (HashLength + 2)) else d_childrenSize d)\<rparr>"
      have "written d0 d (d_oldest d)" using wr cons by simp
      note clear = avail_clear [OF av this, of d']
      have "clearing d0 oldest d'"
        unfolding clearing_def
      proof (intro conjI exI [of _ hs'])
        show "avail d0 d'" by (rule clear(1)) (simp_all add: d'_def)
        show "d_dirties d' \<subseteq>\<^sub>m d_dirties d0" using le by (auto simp: d'_def map_le_def)
        show "path (d_dirties d0) (d_oldest d') hs' oldest" using path' by (simp add: d'_def)
        show "\<forall>h \<in> set hs'. written d0 d' h" using wr cons clear(2) by (simp add: d'_def)
      qed
      moreover have "capClear (Suc fuel) oldest d = capClear fuel oldest d'"
        using False n by (simp add: bindM_entry d'_def)
      ultimately show ?thesis using ensures_use [OF Suc.IH] by simp
    qed
  qed
qed

lemma ensures_removed:
  assumes "keeps (removed {} d) m"
  shows "avail d0 d \<Longrightarrow> avail d0 (snd (m d))"
  using avail_removed(1) [OF _ keepsD [OF assms removed_refl]] by blast

lemma ensures_capRest:
  assumes "\<And>d. d_disk (g d) = d_disk d" and "\<And>d. d_dirties (g d) = d_dirties d"
  shows "ensures (avail d0) (bindM (getsM d_oldest) (\<lambda>oldest.
     seqM (if oldest \<noteq> zeroHash then setEntry oldest (\<lambda>n. n\<lparr>cn_flushPrev := zeroHash\<rparr>) else retM ()) (modM g))) (\<lambda>_. avail d0) (avail d0)"
proof -
  have "ensures (avail d0) (setEntry oldest (\<lambda>n. n\<lparr>cn_flushPrev := zeroHash\<rparr>)) (\<lambda>_. avail d0) (avail d0)" for oldest
    using ensures_removed [OF removed_setEntry [of "\<lambda>n. n\<lparr>cn_flushPrev := zeroHash\<rparr>" "{}" _ oldest]]
    by (auto simp: ensures_def split: prod.splits res.splits) (metis snd_conv)+
  moreover have "ensures (avail d0) (modM g) (\<lambda>_. avail d0) (avail d0)"
    using assms by (auto simp: ensures_def modM_def intro: avail_stats)
  ultimately show ?thesis by (intro ensures_gets_any ensures_seqM ensures_if) (auto simp: ensures_def retM_def)
qed

lemma clearing_start:
  assumes "flush_post d0 {} (d_oldest d0) (b, oldest) d"
  shows "\<exists>d'. onDisk (batch_Write b) d = (Ok (), d') \<and> clearing d0 oldest d'"
proof -
  obtain hs where hs: "path (d_dirties d0) (d_oldest d0) hs oldest" "flushed d0 b (set hs) d"
    using assms unfolding flush_post_def by auto
  from flushed_Write [OF hs(2)] obtain d' where "onDisk (batch_Write b) d = (Ok (), d')" "flushed d0 (batch_Reset b) (set hs) d'" "\<forall>h \<in> set hs. written d0 d' h" by blast
  then show ?thesis using hs(1) by (auto simp: clearing_def flushed_def disk_only_def)
qed

lemma clearing_stats:
  "clearing d0 oldest d \<Longrightarrow> clearing d0 oldest (d\<lparr>d_preimages := [], d_preimagesSize := 0\<rparr>)"
  by (auto simp: clearing_def written_def disk_at_def avail_stats)

lemma ensures_capTail:
  assumes "\<And>d. d_disk (g d) = d_disk d" and "\<And>d. d_dirties (g d) = d_dirties d"
  shows "ensures (flush_post d0 {} (d_oldest d0) (b, oldest)) (seqM (onDisk (batch_Write b)) (
    seqM (if flush then modM (\<lambda>d. d\<lparr>d_preimages := [], d_preimagesSize := 0\<rparr>) else retM ()) (
    seqM (capClear fuel oldest) (bindM (getsM d_oldest) (\<lambda>oldest.
    seqM (if oldest \<noteq> zeroHash then setEntry oldest (\<lambda>n. n\<lparr>cn_flushPrev := zeroHash\<rparr>) else retM ()) (modM g))))))
    (\<lambda>_. avail d0) (avail d0)"
proof (intro ensures_seqM)
  show "ensures (flush_post d0 {} (d_oldest d0) (b, oldest)) (onDisk (batch_Write b)) (\<lambda>_. clearing d0 oldest) (avail d0)"
    using clearing_start by (fastforce simp: ensures_def)
  show "ensures (clearing d0 oldest) (if flush then modM (\<lambda>d. d\<lparr>d_preimages := [], d_preimagesSize := 0\<rparr>) else retM ())
      (\<lambda>_. clearing d0 oldest) (avail d0)"
    by (intro ensures_if ensures_basic clearing_stats)
  show "ensures (clearing d0 oldest) (capClear fuel oldest) (\<lambda>_. avail d0) (avail d0)" by (rule ensures_capClear)
  show "ensures (avail d0) (bindM (getsM d_oldest) (\<lambda>oldest.
    seqM (if oldest \<noteq> zeroHash then setEntry oldest (\<lambda>n. n\<lparr>cn_flushPrev := zeroHash\<rparr>) else retM ()) (modM g))) (\<lambda>_. avail d0) (avail d0)"
    by (rule ensures_capRest) (simp_all add: assms)
qed

lemma ensures_capPreimages:
  assumes "typed d0"
  shows "ensures (\<lambda>d. d = d0) (if flush then putPreimages (d_preimages d0) NewBatch else retM NewBatch)
    (\<lambda>b. flushed d0 b {}) (avail d0)"
proof (rule ensures_if)
  have "ensures (\<lambda>d. disk_only d0 d \<and> pending d0 NewBatch) (putPreimages (d_preimages d0) NewBatch) (\<lambda>b d. disk_only d0 d \<and> pending d0 b) (avail d0)"
    by (rule ensures_putPreimages) (use assms in \<open>simp add: typed_def\<close>)
  then show "ensures (\<lambda>d. d = d0) (putPreimages (d_preimages d0) NewBatch) (\<lambda>b. flushed d0 b {}) (avail d0)"
    by (rule ensures_weaken) (simp_all add: flushed_def disk_only_refl [OF assms])
  show "ensures (\<lambda>d. d = d0) (retM NewBatch) (\<lambda>b. flushed d0 b {}) (avail d0)"
    by (simp add: ensures_def retM_def flushed_def disk_only_refl [OF assms])
qed

lemma ensures_entry:
  assumes "\<And>d. P d \<Longrightarrow> E d" and "\<And>n. ensures P (f n) Q E"
  shows "ensures P (bindM (entry h) f) Q E"
  by (rule ensures_bindM [of _ _ "\<lambda>_. P"])
    (use assms in \<open>auto simp: ensures_def entry_def res_simps split: option.splits\<close>)

lemma flushed_oldest: "flushed d0 b W d \<Longrightarrow> d_oldest d = d_oldest d0"
  by (simp add: flushed_def disk_only_def)

lemma ensures_Cap:
  assumes "typed d0"
  shows "ensures (\<lambda>d. d = d0) (Cap limit) (\<lambda>_. avail d0) (avail d0)"
proof -
  have av: "avail d0 d0" using disk_only_refl [OF assms] by (simp add: disk_only_def)
  let ?tail = "\<lambda>nodes storage flush (b, oldest). seqM (onDisk (batch_Write b)) (
    seqM (if flush then modM (\<lambda>d. d\<lparr>d_preimages := [], d_preimagesSize := 0\<rparr>) else retM ()) (
    seqM (capClear (Suc nodes) oldest) (bindM (getsM d_oldest) (\<lambda>oldest.
    seqM (if oldest \<noteq> zeroHash then setEntry oldest (\<lambda>n. n\<lparr>cn_flushPrev := zeroHash\<rparr>) else retM ())
      (modM (\<lambda>d. d\<lparr>d_flushnodes := d_flushnodes d + (nodes - card (dom (d_dirties d))),
         d_flushsize := d_flushsize d + (storage - d_dirtiesSize d)\<rparr>))))))"
  have tail: "ensures (flush_post d0 {} (d_oldest d0) a) (?tail nodes storage flush a) (\<lambda>_. avail d0) (avail d0)" for nodes storage flush a
  proof (cases a)
    case (Pair b oldest)
    show ?thesis unfolding Pair prod.case by (rule ensures_capTail) simp_all
  qed
  have flush: "ensures (flushed d0 b {}) (bindM (getsM d_oldest) (\<lambda>oldest.
      bindM (capFlush (Suc nodes) sz limit oldest b) (?tail nodes storage flush))) (\<lambda>_. avail d0) (avail d0)" for b nodes storage flush sz
  proof (rule ensures_getsM)
    fix d assume d: "flushed d0 b {} d"
    have "ensures (flushed d0 b {}) (bindM (capFlush (Suc nodes) sz limit (d_oldest d0) b) (?tail nodes storage flush)) (\<lambda>_. avail d0) (avail d0)"
      by (rule ensures_bindM [OF ensures_capFlush tail])
    then show "ensures (\<lambda>t. t = d) (bindM (capFlush (Suc nodes) sz limit (d_oldest d) b) (?tail nodes storage flush)) (\<lambda>_. avail d0) (avail d0)"
      using d flushed_oldest [OF d] by (auto elim: ensures_weaken)
  qed
  have pre: "ensures (\<lambda>d. d = d0) (bindM (getsM d_preimages) (\<lambda>preimages.
      bindM (if flush then putPreimages preimages NewBatch else retM NewBatch) (\<lambda>b. bindM (getsM d_oldest) (\<lambda>oldest.
      bindM (capFlush (Suc nodes) sz limit oldest b) (?tail nodes storage flush))))) (\<lambda>_. avail d0) (avail d0)" for nodes storage flush sz
    by (rule ensures_getsM, rule ensures_bindM [OF _ flush]) (simp only: ensures_capPreimages [OF assms])
  show ?thesis
    unfolding Cap_def case_prod_beta
    by (intro ensures_gets_any ensures_entry pre [unfolded case_prod_beta]) (simp add: av)
qed

lemma Cap_safe: "typed d0 \<Longrightarrow> avail d0 (snd (Cap limit d0))"
  by (rule ensures_snd [OF ensures_Cap]) auto

section \<open>Reading\<close>

text \<open>Every cached node reads from disk as it reads from the cache.\<close>

definition readable :: "Database \<Rightarrow> bool" where
  "readable d \<longleftrightarrow> (\<forall>h n. d_dirties d h = Some n \<longrightarrow> h \<noteq> zeroHash \<longrightarrow>
     (\<exists>v. cachedNode_rlp n = Ok v \<and> mustDecodeNode (Some h) v = cachedNode_obj h n))"

lemma disk_at_Get: "disk_at d h = Some v \<Longrightarrow> db_Get (disk_key h) (d_disk d) = Ok v"
  by (auto simp: disk_at_def db_Get_def split: option.splits)

lemma avail_read:
  assumes "avail d0 d" and "readable d0" and "d_disk d0 \<noteq> None" and "length h = 32" and "h \<noteq> zeroHash"
  shows "Database_node h d = Database_node h d0"
proof (cases "d_dirties d0 h")
  case None
  then have "d_dirties d h = None" using avail_dom [OF assms(1), of h] by (cases "d_dirties d h") auto
  moreover have "disk_at d h = disk_at d0 h" using avail_disk [OF assms(1,4)] None by (auto simp: written_def)
  ultimately show ?thesis using None avail_open [OF assms(1)] assms(3)
    by (auto simp: Database_node_def db_Get_def disk_at_def)
next
  case (Some n0)
  then consider "cached d0 d h" | "d_dirties d h = None" "written d0 d h" using avail_entry [OF assms(1), of h] by auto
  then show ?thesis
  proof cases
    case 1
    then show ?thesis using Some by (auto simp: cached_def Database_node_def cachedNode_obj_def)
  next
    case 2
    then obtain v where "cachedNode_rlp n0 = Ok v" "disk_at d h = Some v" using Some by (auto simp: written_def)
    moreover from this have "mustDecodeNode (Some h) v = cachedNode_obj h n0" using Some assms(2,5) unfolding readable_def by (metis res.inject(1))
    ultimately show ?thesis using 2 Some by (auto simp: Database_node_def dest!: disk_at_Get)
  qed
qed

section \<open>Properties\<close>

text \<open>C8: Flushing loses nothing: however \<open>Commit\<close> or \<open>Cap\<close> ends, also when it stops in the middle of its writes,
  every node reads afterwards as before, from the cache or from disk, on a database whose cached nodes
  read from their encoding as from the cache.\<close>

theorem flush_loses_nothing:
  assumes "typed d" and "readable d" and "length h = 32" and "h \<noteq> zeroHash"
  shows "Database_node h (snd (Commit root d)) = Database_node h d \<and> Database_node h (snd (Cap limit d)) = Database_node h d"
proof -
  have open_disk: "d_disk d \<noteq> None" using assms(1) by (simp add: typed_def)
  have "avail d (snd (Commit root d))" by (rule Commit_safe(1) [OF assms(1) prod.collapse [symmetric]])
  from avail_read [OF this assms(2) open_disk assms(3,4)] avail_read [OF Cap_safe [OF assms(1)] assms(2) open_disk assms(3,4)]
  show ?thesis by simp
qed

text \<open>A database with one node in the cache.\<close>

definition one_node :: Database where
  "one_node = snd (InsertBlob (replicate 32 1) [0xc2, 0x80, 0x80] (NewDatabase (Some Map.empty)))"

lemma one_node_eq: "one_node = (NewDatabase (Some Map.empty))\<lparr>
    d_dirties := (d_dirties (NewDatabase None))(replicate 32 1 \<mapsto>
      \<lparr>cn_node = RawBlob [0xc2, 0x80, 0x80], cn_size = 3, cn_parents = 0, cn_children = None, cn_flushPrev = zeroHash, cn_flushNext = zeroHash\<rparr>),
    d_oldest := replicate 32 1, d_newest := replicate 32 1, d_dirtiesSize := 35\<rparr>"
  by (simp add: one_node_def InsertBlob_def db_insert_def NewDatabase_def zeroHash_def forChilds_def childList_def HashLength_def
      seqM_def Let_def res_simps)

lemma one_node_ok: "typed one_node" "readable one_node" "d_dirties one_node (replicate 32 1) \<noteq> None"
  by (auto simp: one_node_eq typed_def readable_def NewDatabase_def zeroHash_def cachedNode_rlp_def cachedNode_obj_def split: if_splits)

theorem flush_loses_nothing_witness:
  "Database_node (replicate 32 1) (snd (Commit (replicate 32 1) one_node)) = Database_node (replicate 32 1) one_node \<and>
   Database_node (replicate 32 1) (snd (Cap 0 one_node)) = Database_node (replicate 32 1) one_node"
  by (rule flush_loses_nothing [OF one_node_ok(1,2)]) (simp_all add: zeroHash_def)

text \<open>C19: A \<open>Commit\<close> that returns has brought to disk every node below its root: whatever the cache held that the
  root refers to, directly or through other cached nodes, has left the cache and its encoding is on disk.\<close>

theorem commit_persists:
  assumes "typed d" and "Commit root d = (Ok (), d')" and "d_dirties d root \<noteq> None"
    and "(child_of d)\<^sup>*\<^sup>* root h"
  shows "d_dirties d' h = None \<and> (\<exists>n v. d_dirties d h = Some n \<and> cachedNode_rlp n = Ok v \<and> db_Get (disk_key h) (d_disk d') = Ok v)"
proof -
  have gone: "d_dirties d' h = None" using Commit_safe(2) [OF assms(1,2)] assms(3,4) by simp
  have "d_dirties d h \<noteq> None" using assms(4,3) by (cases rule: rtranclp.cases) auto
  from avail_entry [OF Commit_safe(1) [OF assms(1,2)] this] have "written d d' h" using gone by (auto simp: cached_def)
  then show ?thesis using gone disk_at_Get by (fastforce simp: written_def)
qed

lemma onDisk_Write: "d_disk d = Some m \<Longrightarrow> onDisk (batch_Write b) d = (Ok (), d\<lparr>d_disk := Some (last_write (b_writes b) m)\<rparr>)"
  by (simp add: onDisk_def batch_Write_def forM_write_one)

lemma one_node_Commit: "fst (Commit (replicate 32 1) one_node) = Ok ()"
  by (simp add: Commit_def one_node_eq NewDatabase_def zeroHash_def onDisk_Write uncache_def cleaner_Put_def unlink_def setEntry_def entry_def
      forChilds_def childList_def cachedNode_rlp_def NewBatch_def batch_Reset_def batch_Put_def IdealBatchSize_def batch_ValueSize_def
      seqM_def bindM_def getsM_def retM_def modM_def liftR_def Let_def)

theorem commit_persists_witness:
  "d_dirties (snd (Commit (replicate 32 1) one_node)) (replicate 32 1) = None"
proof -
  have "Commit (replicate 32 1) one_node = (Ok (), snd (Commit (replicate 32 1) one_node))" using one_node_Commit by (metis prod.collapse)
  from commit_persists [OF one_node_ok(1) this one_node_ok(3), of "replicate 32 1"] show ?thesis by simp
qed

end
