(* ===== verification/Flush_List.thy ===== *)
theory Flush_List
  imports Trie_Flush
begin

text \<open>
  The flush list of the node database: the links of the cached nodes spell out a doubly linked list from
  the oldest to the newest node, and taking a node out of it keeps it one.
\<close>

section \<open>Doubly linked lists\<close>

text \<open>The neighbours of an element in the list that the flush links spell out.\<close>

fun nxt :: "hash list \<Rightarrow> hash \<Rightarrow> hash" where
  "nxt (x # y # zs) g = (if g = x then y else nxt (y # zs) g)"
| "nxt _ g = zeroHash"

fun prv :: "hash list \<Rightarrow> hash \<Rightarrow> hash" where
  "prv (x # y # zs) g = (if g = y then x else prv (y # zs) g)"
| "prv _ g = zeroHash"

lemma nxt_mem: "nxt hs g = zeroHash \<or> nxt hs g \<in> set hs"
  by (induction hs g rule: nxt.induct) auto

lemma prv_mem: "g \<in> set hs \<Longrightarrow> g \<noteq> hd hs \<Longrightarrow> prv hs g \<in> set hs"
  by (induction hs g rule: prv.induct) auto

lemma nxt_last: "distinct hs \<Longrightarrow> hs \<noteq> [] \<Longrightarrow> nxt hs (last hs) = zeroHash"
  by (induction hs "last hs" rule: nxt.induct) auto

lemma nxt_not_last: "g \<in> set hs \<Longrightarrow> g \<noteq> last hs \<Longrightarrow> nxt hs g \<in> set hs"
  by (induction hs g rule: nxt.induct) auto

lemma nxt_tl: "distinct hs \<Longrightarrow> g \<in> set (tl hs) \<Longrightarrow> nxt (tl hs) g = nxt hs g"
  by (cases "(hs, g)" rule: nxt.cases) auto

lemma prv_tl: "distinct hs \<Longrightarrow> g \<in> set (tl hs) \<Longrightarrow> g \<noteq> hd (tl hs) \<Longrightarrow> prv (tl hs) g = prv hs g"
  by (cases "(hs, g)" rule: prv.cases) auto

lemma nxt_hd: "hd (tl hs @ [zeroHash]) = nxt hs (hd hs)"
  by (cases "(hs, hd hs)" rule: nxt.cases) auto

lemma nxt_remove1:
  "distinct hs \<Longrightarrow> h \<in> set hs \<Longrightarrow> g \<in> set hs \<Longrightarrow> g \<noteq> h \<Longrightarrow>
   nxt (remove1 h hs) g = (if h \<noteq> hd hs \<and> g = prv hs h then nxt hs h else nxt hs g)"
proof (induction hs g rule: nxt.induct)
  case (1 x y zs g)
  show ?case
  proof (cases "h = x")
    case True
    then show ?thesis using 1(5) by simp
  next
    case hx: False
    show ?thesis
    proof (cases "g = x")
      case True
      then show ?thesis using 1(2,3) hx prv_mem [of h "y # zs"] by (cases zs) auto
    next
      case False
      then have IH: "nxt (remove1 h (y # zs)) g = (if h \<noteq> y \<and> g = prv (y # zs) h then nxt (y # zs) h else nxt (y # zs) g)"
        using 1 hx by auto
      show ?thesis using IH False hx 1(2-5) by (cases "remove1 h (y # zs)") auto
    qed
  qed
qed auto

lemma prv_remove1:
  "distinct hs \<Longrightarrow> zeroHash \<notin> set hs \<Longrightarrow> h \<in> set hs \<Longrightarrow> g \<in> set hs \<Longrightarrow> g \<noteq> h \<Longrightarrow> g \<noteq> hd (remove1 h hs) \<Longrightarrow>
   prv (remove1 h hs) g = (if g = nxt hs h then prv hs h else prv hs g)"
proof (induction hs g rule: prv.induct)
  case (1 x y zs g)
  show ?case
  proof (cases "h = x")
    case True
    then show ?thesis using 1 by auto
  next
    case hx: False
    show ?thesis
    proof (cases "g = y")
      case True
      then show ?thesis using 1(2-7) hx nxt_mem [of zs h] by (cases zs) auto
    next
      case False
      then have IH: "g \<noteq> hd (remove1 h (y # zs)) \<Longrightarrow> prv (remove1 h (y # zs)) g = (if g = nxt (y # zs) h then prv (y # zs) h else prv (y # zs) g)"
        using 1 hx by auto
      show ?thesis using IH False hx 1(2-7) by (cases "remove1 h (y # zs)") auto
    qed
  qed
qed auto

section \<open>The flush list\<close>

definition flush_list :: "hash list \<Rightarrow> Database \<Rightarrow> bool" where
  "flush_list hs d \<longleftrightarrow> distinct hs \<and> zeroHash \<notin> set hs \<and> d_oldest d = hd (hs @ [zeroHash]) \<and> (hs \<noteq> [] \<longrightarrow> d_newest d = last hs) \<and>
     (\<forall>g \<in> set hs. \<exists>n. d_dirties d g = Some n \<and> cn_flushNext n = nxt hs g \<and> (g \<noteq> hd hs \<longrightarrow> cn_flushPrev n = prv hs g))"

lemma flush_listI:
  assumes "distinct hs" and "zeroHash \<notin> set hs" and "d_oldest d = hd (hs @ [zeroHash])" and "hs \<noteq> [] \<Longrightarrow> d_newest d = last hs"
    and "\<And>g. g \<in> set hs \<Longrightarrow> \<exists>n. d_dirties d g = Some n \<and> cn_flushNext n = nxt hs g \<and> (g \<noteq> hd hs \<longrightarrow> cn_flushPrev n = prv hs g)"
  shows "flush_list hs d"
  using assms unfolding flush_list_def by blast

text \<open>The part of an entry that is not about the flush list.\<close>

definition core :: "cachedNode \<Rightarrow> rawnode \<times> 16 word \<times> 32 word \<times> (hash \<times> 16 word) list option" where
  "core n = (cn_node n, cn_size n, cn_parents n, cn_children n)"

definition cores :: "Database \<Rightarrow> hash \<Rightarrow> (rawnode \<times> 16 word \<times> 32 word \<times> (hash \<times> 16 word) list option) option" where
  "cores d h = map_option core (d_dirties d h)"

lemma cores_dom: "cores d' = cores d \<Longrightarrow> dom (d_dirties d') = dom (d_dirties d)"
  by (auto simp: cores_def fun_eq_iff dom_def) (metis map_option_is_None option.distinct(1) option.exhaust)+

lemma setEntry_run:
  "d_dirties d h = Some n \<Longrightarrow> setEntry h f d = (Ok (), d\<lparr>d_dirties := (d_dirties d)(h \<mapsto> f n)\<rparr>)"
  by (simp add: setEntry_def bindM_entry modM_def)

lemma setEntry_link:
  assumes "d_dirties d h \<noteq> None" and "\<And>n. core (f n) = core n"
  shows "\<exists>d'. setEntry h f d = (Ok (), d') \<and> cores d' = cores d \<and> d_disk d' = d_disk d \<and> d_oldest d' = d_oldest d \<and> d_newest d' = d_newest d \<and>
    d_dirties d' = (d_dirties d)(h \<mapsto> f (the (d_dirties d h)))"
  using assms by (auto simp: setEntry_run cores_def fun_eq_iff)

lemma flush_list_remove:
  assumes "flush_list hs d" and "h \<in> set hs" and "d_oldest d' = hd (remove1 h hs @ [zeroHash])"
    and "remove1 h hs \<noteq> [] \<Longrightarrow> d_newest d' = last (remove1 h hs)"
    and "\<And>g n. g \<in> set hs \<Longrightarrow> g \<noteq> h \<Longrightarrow> d_dirties d g = Some n \<Longrightarrow> \<exists>n'. d_dirties d' g = Some n' \<and>
       cn_flushNext n' = (if h \<noteq> hd hs \<and> g = prv hs h then nxt hs h else cn_flushNext n) \<and>
       (g = hd (remove1 h hs) \<or> cn_flushPrev n' = (if g = nxt hs h then prv hs h else cn_flushPrev n))"
  shows "flush_list (remove1 h hs) d'"
proof -
  have hs: "distinct hs" "zeroHash \<notin> set hs" using assms(1) by (simp_all add: flush_list_def)
  have "\<exists>n'. d_dirties d' g = Some n' \<and> cn_flushNext n' = nxt (remove1 h hs) g \<and> (g \<noteq> hd (remove1 h hs) \<longrightarrow> cn_flushPrev n' = prv (remove1 h hs) g)"
    if g: "g \<in> set hs" "g \<noteq> h" for g
  proof -
    obtain n where n: "d_dirties d g = Some n" "cn_flushNext n = nxt hs g" "g \<noteq> hd hs \<longrightarrow> cn_flushPrev n = prv hs g"
      using assms(1) g by (auto simp: flush_list_def)
    obtain n' where n': "d_dirties d' g = Some n'" "cn_flushNext n' = (if h \<noteq> hd hs \<and> g = prv hs h then nxt hs h else cn_flushNext n)"
      "g = hd (remove1 h hs) \<or> cn_flushPrev n' = (if g = nxt hs h then prv hs h else cn_flushPrev n)" using assms(5) [OF g n(1)] by blast
    show ?thesis
    proof (intro exI conjI impI)
      show "cn_flushNext n' = nxt (remove1 h hs) g" unfolding n'(2) n(2) nxt_remove1 [OF hs(1) assms(2) g] ..
      assume first: "g \<noteq> hd (remove1 h hs)"
      then have "g \<noteq> hd hs" using g by (cases hs) auto
      then show "cn_flushPrev n' = prv (remove1 h hs) g" using first n'(3) n(3) unfolding prv_remove1 [OF hs assms(2) g first] by simp
    qed (rule n'(1))
  qed
  then show ?thesis using assms(3,4) hs by (auto simp: flush_list_def)
qed

lemma remove1_hd: "hs \<noteq> [] \<Longrightarrow> remove1 (hd hs) hs = tl hs"
  by (cases hs) auto

lemma remove1_last: "distinct hs \<Longrightarrow> h \<in> set hs \<Longrightarrow> h \<noteq> last hs \<Longrightarrow> remove1 h hs \<noteq> [] \<and> last (remove1 h hs) = last hs"
  by (induction hs) (auto split: if_splits)

lemma remove1_last_prv: "distinct hs \<Longrightarrow> hs \<noteq> [] \<Longrightarrow> last hs \<noteq> hd hs \<Longrightarrow> remove1 (last hs) hs \<noteq> [] \<and> last (remove1 (last hs) hs) = prv hs (last hs)"
  by (induction hs "last hs" rule: prv.induct) auto

lemma remove1_hd_other: "h \<in> set hs \<Longrightarrow> h \<noteq> hd hs \<Longrightarrow> hd (remove1 h hs @ [x]) = hd hs"
  by (cases hs) auto

lemma flush_listD:
  assumes "flush_list hs d" and "h \<in> set hs"
  shows "distinct hs" and "zeroHash \<notin> set hs" and "hs \<noteq> []" and "d_oldest d = hd hs" and "d_newest d = last hs" and "d_dirties d h \<noteq> None"
    and "d_dirties d h = Some n \<Longrightarrow> cn_flushNext n = nxt hs h" and "d_dirties d h = Some n \<Longrightarrow> h \<noteq> hd hs \<Longrightarrow> cn_flushPrev n = prv hs h"
  using assms by (auto simp: flush_list_def hd_append)

text \<open>What taking an entry out of the list leaves alone.\<close>

definition relinked :: "hash list \<Rightarrow> Database \<Rightarrow> Database \<Rightarrow> bool" where
  "relinked hs d d' \<longleftrightarrow> flush_list hs d' \<and> cores d' = cores d \<and> d_disk d' = d_disk d"

lemma unlink_oldest:
  assumes "flush_list hs d" and "h \<in> set hs" and "d_dirties d h = Some n" and "d_dirties d zeroHash \<noteq> None" and "h = hd hs"
  shows "\<exists>d'. unlink h n d = (Ok (), d') \<and> relinked (remove1 h hs) d d'"
proof -
  note hs = flush_listD [OF assms(1,2)]
  let ?d = "d\<lparr>d_oldest := nxt hs h\<rparr>"
  have "d_dirties d (nxt hs h) \<noteq> None" using nxt_mem [of hs h] flush_listD(6) [OF assms(1)] assms(4) by metis
  then obtain d' where d': "setEntry (nxt hs h) (\<lambda>n. n\<lparr>cn_flushPrev := zeroHash\<rparr>) ?d = (Ok (), d')" "cores d' = cores ?d" "d_disk d' = d_disk ?d"
    "d_oldest d' = nxt hs h" "d_newest d' = d_newest d"
    "d_dirties d' = (d_dirties d)(nxt hs h \<mapsto> (the (d_dirties d (nxt hs h)))\<lparr>cn_flushPrev := zeroHash\<rparr>)"
    using setEntry_link [of ?d "nxt hs h" "\<lambda>n. n\<lparr>cn_flushPrev := zeroHash\<rparr>"] by (auto simp: core_def)
  have rem: "remove1 h hs = tl hs" using assms(5) hs(3) remove1_hd by simp
  have "flush_list (remove1 h hs) d'"
  proof (rule flush_list_remove [OF assms(1,2)])
    show "d_oldest d' = hd (remove1 h hs @ [zeroHash])" using nxt_hd [of hs] d'(4) assms(5) rem by simp
    show "d_newest d' = last (remove1 h hs)" if "remove1 h hs \<noteq> []" using that hs(5) d'(5) rem by (simp add: last_tl)
    have first: "g = hd (remove1 h hs)" if "g \<in> set hs" "g = nxt hs h" for g
      using that nxt_hd [of hs] assms(5) rem hs(2) by (cases "tl hs") auto
    fix g n assume g: "g \<in> set hs" "g \<noteq> h" "d_dirties d g = Some n"
    show "\<exists>n'. d_dirties d' g = Some n' \<and> cn_flushNext n' = (if h \<noteq> hd hs \<and> g = prv hs h then nxt hs h else cn_flushNext n) \<and>
       (g = hd (remove1 h hs) \<or> cn_flushPrev n' = (if g = nxt hs h then prv hs h else cn_flushPrev n))"
    proof (cases "g = nxt hs h")
      case True
      then show ?thesis using first [OF g(1) True] g(3) assms(5) d'(6) by simp
    next
      case False
      then show ?thesis using g(3) assms(5) d'(6) by simp
    qed
  qed
  moreover have "unlink h n d = (Ok (), d')" using assms(3,5) hs(4,7) d'(1) by (simp add: unlink_def seqM_def)
  ultimately show ?thesis using d'(2,3) by (auto simp: relinked_def cores_def)
qed

lemma unlink_newest:
  assumes "flush_list hs d" and "h \<in> set hs" and "d_dirties d h = Some n" and "h \<noteq> hd hs" and "h = last hs"
  shows "\<exists>d'. unlink h n d = (Ok (), d') \<and> relinked (remove1 h hs) d d'"
proof -
  note hs = flush_listD [OF assms(1,2)]
  let ?d = "d\<lparr>d_newest := prv hs h\<rparr>"
  have "d_dirties d (prv hs h) \<noteq> None" using prv_mem [OF assms(2,4)] flush_listD(6) [OF assms(1)] by blast
  then obtain d' where d': "setEntry (prv hs h) (\<lambda>n. n\<lparr>cn_flushNext := zeroHash\<rparr>) ?d = (Ok (), d')" "cores d' = cores ?d" "d_disk d' = d_disk ?d"
    "d_oldest d' = d_oldest d" "d_newest d' = prv hs h"
    "d_dirties d' = (d_dirties d)(prv hs h \<mapsto> (the (d_dirties d (prv hs h)))\<lparr>cn_flushNext := zeroHash\<rparr>)"
    using setEntry_link [of ?d "prv hs h" "\<lambda>n. n\<lparr>cn_flushNext := zeroHash\<rparr>"] by (auto simp: core_def)
  have end_list: "nxt hs h = zeroHash" using nxt_last [OF hs(1,3)] assms(5) by simp
  have "flush_list (remove1 h hs) d'"
  proof (rule flush_list_remove [OF assms(1,2)])
    show "d_oldest d' = hd (remove1 h hs @ [zeroHash])" using d'(4) hs(4) remove1_hd_other [OF assms(2,4)] by simp
    show "d_newest d' = last (remove1 h hs)" using d'(5) remove1_last_prv [OF hs(1,3)] assms(4,5) by simp
    fix g n assume g: "g \<in> set hs" "g \<noteq> h" "d_dirties d g = Some n"
    then have "g \<noteq> zeroHash" using hs(2) by auto
    then show "\<exists>n'. d_dirties d' g = Some n' \<and> cn_flushNext n' = (if h \<noteq> hd hs \<and> g = prv hs h then nxt hs h else cn_flushNext n) \<and>
       (g = hd (remove1 h hs) \<or> cn_flushPrev n' = (if g = nxt hs h then prv hs h else cn_flushPrev n))"
      using g(3) assms(4) d'(6) end_list by (cases "g = prv hs h") simp_all
  qed
  moreover have "unlink h n d = (Ok (), d')" using assms(3-5) hs(4,5,8) d'(1) by (simp add: unlink_def seqM_def)
  ultimately show ?thesis using d'(2,3) by (auto simp: relinked_def cores_def)
qed

lemma unlink_middle:
  assumes "flush_list hs d" and "h \<in> set hs" and "d_dirties d h = Some n" and "h \<noteq> hd hs" and "h \<noteq> last hs"
  shows "\<exists>d'. unlink h n d = (Ok (), d') \<and> relinked (remove1 h hs) d d'"
proof -
  note hs = flush_listD [OF assms(1,2)]
  have "d_dirties d (prv hs h) \<noteq> None" using prv_mem [OF assms(2,4)] flush_listD(6) [OF assms(1)] by blast
  then obtain d1 where d1: "setEntry (prv hs h) (\<lambda>n. n\<lparr>cn_flushNext := nxt hs h\<rparr>) d = (Ok (), d1)" "cores d1 = cores d" "d_disk d1 = d_disk d"
    "d_oldest d1 = d_oldest d" "d_newest d1 = d_newest d"
    "d_dirties d1 = (d_dirties d)(prv hs h \<mapsto> (the (d_dirties d (prv hs h)))\<lparr>cn_flushNext := nxt hs h\<rparr>)"
    using setEntry_link [of d "prv hs h" "\<lambda>n. n\<lparr>cn_flushNext := nxt hs h\<rparr>"] by (auto simp: core_def)
  have "d_dirties d1 (nxt hs h) \<noteq> None" using nxt_not_last [OF assms(2,5)] flush_listD(6) [OF assms(1)] d1(6) by auto
  then obtain d' where d': "setEntry (nxt hs h) (\<lambda>n. n\<lparr>cn_flushPrev := prv hs h\<rparr>) d1 = (Ok (), d')" "cores d' = cores d1" "d_disk d' = d_disk d1"
    "d_oldest d' = d_oldest d1" "d_newest d' = d_newest d1"
    "d_dirties d' = (d_dirties d1)(nxt hs h \<mapsto> (the (d_dirties d1 (nxt hs h)))\<lparr>cn_flushPrev := prv hs h\<rparr>)"
    using setEntry_link [of d1 "nxt hs h" "\<lambda>n. n\<lparr>cn_flushPrev := prv hs h\<rparr>"] by (auto simp: core_def)
  have "flush_list (remove1 h hs) d'"
  proof (rule flush_list_remove [OF assms(1,2)])
    show "d_oldest d' = hd (remove1 h hs @ [zeroHash])" using d'(4) d1(4) hs(4) remove1_hd_other [OF assms(2,4)] by simp
    show "d_newest d' = last (remove1 h hs)" using d'(5) d1(5) hs(5) remove1_last [OF hs(1) assms(2,5)] by simp
    fix g n assume g: "g \<in> set hs" "g \<noteq> h" "d_dirties d g = Some n"
    then show "\<exists>n'. d_dirties d' g = Some n' \<and> cn_flushNext n' = (if h \<noteq> hd hs \<and> g = prv hs h then nxt hs h else cn_flushNext n) \<and>
       (g = hd (remove1 h hs) \<or> cn_flushPrev n' = (if g = nxt hs h then prv hs h else cn_flushPrev n))"
      using assms(4) unfolding d'(6) d1(6) by (cases "g = prv hs h"; cases "g = nxt hs h") simp_all
  qed
  moreover have "unlink h n d = (Ok (), d')" using assms(3-5) hs(4,5,7,8) d1(1) d'(1) by (simp add: unlink_def seqM_run)
  ultimately show ?thesis using d1(2,3) d'(2,3) by (simp add: relinked_def)
qed

lemma unlink_ok:
  assumes "flush_list hs d" and "h \<in> set hs" and "d_dirties d h = Some n" and "d_dirties d zeroHash \<noteq> None"
  shows "\<exists>d'. unlink h n d = (Ok (), d') \<and> relinked (remove1 h hs) d d'"
  using unlink_oldest [OF assms] unlink_newest [OF assms(1-3)] unlink_middle [OF assms(1-3)] by blast

end
