(* ===== verification/Trie_GC.thy ===== *)
theory Trie_GC
  imports Flush_List "HOL-Library.Multiset"
begin

text \<open>
  Garbage collection in the node database: every reference of a cached node leads to a node that is
  cached or on disk, nodes are counted by at least the references to them, and adding nodes, adding references and
  \<open>Dereference\<close> keep this and return without touching a nil pointer.
\<close>

section \<open>References\<close>

definition childs :: "cachedNode \<Rightarrow> hash list" where
  "childs n = (case forChilds n of Ok cs \<Rightarrow> cs | _ \<Rightarrow> [])"

text \<open>The number of references from an entry: the meta root counts the references to each root, any other
  entry refers once to each child it has been given and to each hash in its node.\<close>

definition refs :: "hash \<Rightarrow> cachedNode \<Rightarrow> hash \<Rightarrow> nat" where
  "refs h n c = (if h = zeroHash then unat (childCount c n) else count_list (childs n) c)"

definition total :: "hash set \<Rightarrow> (hash \<rightharpoonup> cachedNode) \<Rightarrow> hash \<Rightarrow> nat" where
  "total P M c = (\<Sum>h \<in> dom M - P. refs h (the (M h)) c)"

text \<open>The database while the entries of \<open>P\<close> are being deleted and the references of \<open>R\<close> have still to be
  dropped. The function \<open>r\<close> ranks the hashes: a node refers to nodes of lower rank only.\<close>

definition well_placed :: "(hash \<Rightarrow> nat) \<Rightarrow> hash \<Rightarrow> cachedNode \<Rightarrow> bool" where
  "well_placed r h n \<longleftrightarrow> is_ok (forChilds n) \<and> (\<forall>c \<in> set (childs n). c \<noteq> zeroHash \<and> length c = 32) \<and> (h \<noteq> zeroHash \<longrightarrow> (\<forall>c \<in> set (childs n). r c < r h))"

definition sound :: "(hash \<Rightarrow> nat) \<Rightarrow> hash set \<Rightarrow> hash multiset \<Rightarrow> Database \<Rightarrow> bool" where
  "sound r P R d \<longleftrightarrow>
     (\<exists>hs. flush_list hs d \<and> set hs = dom (d_dirties d) - {zeroHash} - P) \<and>
     d_dirties d zeroHash \<noteq> None \<and> zeroHash \<notin> P \<and> P \<subseteq> dom (d_dirties d) \<and> finite P \<and>
     (\<forall>h n. d_dirties d h = Some n \<longrightarrow> well_placed r h n) \<and>
     (\<forall>c n. d_dirties d c = Some n \<longrightarrow> disk_at d c = None \<longrightarrow> total P (d_dirties d) c + count R c \<le> unat (cn_parents n)) \<and>
     (\<forall>h n c. d_dirties d h = Some n \<longrightarrow> h \<notin> P \<longrightarrow> 0 < refs h n c \<longrightarrow> d_dirties d c \<noteq> None \<or> disk_at d c \<noteq> None)"

lemma core_same:
  assumes "core n' = core n"
  shows "forChilds n' = forChilds n" and "childs n' = childs n" and "refs h n' = refs h n" and "cn_parents n' = cn_parents n"
    and "cn_node n' = cn_node n" and "cn_children n' = cn_children n" and "well_placed r h n' = well_placed r h n"
proof -
  have "childList n' = childList n" "cn_node n' = cn_node n" using assms by (auto simp: core_def childList_def)
  then show fc: "forChilds n' = forChilds n" by (simp add: forChilds_def)
  then show ch: "childs n' = childs n" by (simp add: childs_def)
  show "refs h n' = refs h n" using ch \<open>childList n' = childList n\<close> by (auto simp: refs_def childCount_def fun_eq_iff)
  show "cn_parents n' = cn_parents n" "cn_node n' = cn_node n" "cn_children n' = cn_children n" using assms by (auto simp: core_def)
  show "well_placed r h n' = well_placed r h n" using fc ch by (simp add: well_placed_def)
qed

lemma cores_entry:
  assumes "cores d' = cores d" and "d_dirties d h = Some n"
  shows "\<exists>n'. d_dirties d' h = Some n' \<and> core n' = core n"
proof -
  have "map_option core (d_dirties d' h) = Some (core n)" using fun_cong [OF assms(1), of h] assms(2) by (simp add: cores_def)
  then show ?thesis by (cases "d_dirties d' h") simp_all
qed

lemma total_cores:
  assumes "cores d' = cores d"
  shows "total P (d_dirties d') c = total P (d_dirties d) c"
proof -
  have "refs h (the (d_dirties d' h)) c = refs h (the (d_dirties d h)) c" if h: "h \<in> dom (d_dirties d)" for h
  proof -
    obtain n where n: "d_dirties d h = Some n" using h by blast
    from cores_entry [OF assms n] obtain n' where n': "d_dirties d' h = Some n'" "core n' = core n" by blast
    then show ?thesis using n core_same(3) [OF n'(2)] by simp
  qed
  then show ?thesis unfolding total_def cores_dom [OF assms] by (intro sum.cong) auto
qed

lemma total_insert:
  assumes "finite (dom M)" and "M h = Some n" and "h \<notin> P"
  shows "total P M c = refs h n c + total (insert h P) M c"
proof -
  have eq: "dom M - P = insert h (dom M - insert h P)" using assms(2,3) by auto
  have "(\<Sum>g \<in> insert h (dom M - insert h P). refs g (the (M g)) c) = refs h (the (M h)) c + (\<Sum>g \<in> dom M - insert h P. refs g (the (M g)) c)"
    by (rule sum.insert) (use assms(1) in auto)
  then show ?thesis using assms(2) unfolding total_def eq by simp
qed

lemma total_upd_in: "h \<in> P \<Longrightarrow> h \<in> dom M \<Longrightarrow> total P (M(h \<mapsto> n')) c = total P M c"
  unfolding total_def by (rule sum.cong) auto

lemma total_upd:
  assumes "finite (dom M)" and "M h = Some n" and "h \<notin> P"
  shows "total P (M(h \<mapsto> n')) c + refs h n c = total P M c + refs h n' c"
proof -
  have "total (insert h P) (M(h \<mapsto> n')) c = total (insert h P) M c"
    using assms(2) by (intro total_upd_in) auto
  then show ?thesis using total_insert [OF assms] total_insert [of "M(h \<mapsto> n')" h n' P c] assms by simp
qed

lemma total_remove: "h \<in> dom M \<Longrightarrow> h \<notin> P \<Longrightarrow> total P (M(h := None)) c = total (insert h P) M c"
  unfolding total_def by (rule sum.cong) auto

lemma refs_le_total: "finite (dom M) \<Longrightarrow> M h = Some n \<Longrightarrow> h \<notin> P \<Longrightarrow> refs h n c \<le> total P M c"
  by (simp add: total_insert)

lemma soundD:
  assumes "sound r P R d"
  shows "\<exists>hs. flush_list hs d \<and> set hs = dom (d_dirties d) - {zeroHash} - P" and "d_dirties d zeroHash \<noteq> None" and "zeroHash \<notin> P"
    and "P \<subseteq> dom (d_dirties d)" and "finite P" and "d_dirties d h = Some n \<Longrightarrow> well_placed r h n"
    and "d_dirties d h = Some n \<Longrightarrow> disk_at d h = None \<Longrightarrow> total P (d_dirties d) h + count R h \<le> unat (cn_parents n)"
    and "d_dirties d h = Some n \<Longrightarrow> h \<notin> P \<Longrightarrow> 0 < refs h n c \<Longrightarrow> d_dirties d c \<noteq> None \<or> disk_at d c \<noteq> None"
    and "finite (dom (d_dirties d))"
proof -
  show hs: "\<exists>hs. flush_list hs d \<and> set hs = dom (d_dirties d) - {zeroHash} - P" "finite P" using assms by (simp_all add: sound_def)
  then obtain hs where "set hs = dom (d_dirties d) - {zeroHash} - P" by blast
  then have "dom (d_dirties d) \<subseteq> set hs \<union> {zeroHash} \<union> P" by auto
  then show "finite (dom (d_dirties d))" using hs(2) by (auto intro: finite_subset)
qed (use assms in \<open>simp_all add: sound_def\<close>)

lemma sound_weaken:
  assumes "sound r P (add_mset h R) d"
  shows "sound r P R d"
proof -
  have "total P (d_dirties d) c + count R c \<le> unat (cn_parents n)" if "d_dirties d c = Some n" "disk_at d c = None" for c n
    using soundD(7) [OF assms that] by (cases "c = h") auto
  then show ?thesis using assms unfolding sound_def by (intro conjI) blast+
qed

lemma flush_list_cong:
  assumes "flush_list hs d" and "d_oldest d' = d_oldest d" and "d_newest d' = d_newest d"
    and "\<And>g n. g \<in> set hs \<Longrightarrow> d_dirties d g = Some n \<Longrightarrow> \<exists>n'. d_dirties d' g = Some n' \<and> cn_flushNext n' = cn_flushNext n \<and> cn_flushPrev n' = cn_flushPrev n"
  shows "flush_list hs d'"
proof -
  have "\<exists>n. d_dirties d' g = Some n \<and> cn_flushNext n = nxt hs g \<and> (g \<noteq> hd hs \<longrightarrow> cn_flushPrev n = prv hs g)" if g: "g \<in> set hs" for g
  proof -
    obtain n where n: "d_dirties d g = Some n" "cn_flushNext n = nxt hs g" "g \<noteq> hd hs \<longrightarrow> cn_flushPrev n = prv hs g"
      using assms(1) g unfolding flush_list_def by blast
    with assms(4) [OF g n(1)] show ?thesis by metis
  qed
  then show ?thesis using assms(1-3) unfolding flush_list_def by auto
qed

lemma disk_at_cong: "d_disk d' = d_disk d \<Longrightarrow> disk_at d' h = disk_at d h"
  by (simp add: disk_at_def)

lemma sound_update:
  assumes "sound r P R d" and "d_dirties d h = Some n" and "d_dirties d' = (d_dirties d)(h \<mapsto> n')" and "d_disk d' = d_disk d"
    and "d_oldest d' = d_oldest d" and "d_newest d' = d_newest d" and "cn_flushNext n' = cn_flushNext n" and "cn_flushPrev n' = cn_flushPrev n"
    and "well_placed r h n'" and "\<And>c. c \<noteq> h \<Longrightarrow> total P (d_dirties d') c + count R' c \<le> total P (d_dirties d) c + count R c"
    and "disk_at d h = None \<Longrightarrow> total P (d_dirties d') h + count R' h \<le> unat (cn_parents n')"
    and "\<And>c. h \<notin> P \<Longrightarrow> 0 < refs h n' c \<Longrightarrow> 0 < refs h n c \<or> d_dirties d c \<noteq> None"
  shows "sound r P R' d'"
proof -
  note D = soundD [OF assms(1)]
  obtain hs where hs: "flush_list hs d" "set hs = dom (d_dirties d) - {zeroHash} - P" using D(1) by blast
  have "flush_list hs d'" by (rule flush_list_cong [OF hs(1) assms(5,6)]) (use assms(2,3,7,8) in auto)
  moreover have dom: "dom (d_dirties d') = dom (d_dirties d)" using assms(2,3) by auto
  moreover have "total P (d_dirties d') c + count R' c \<le> unat (cn_parents m)" if "d_dirties d' c = Some m" "disk_at d' c = None" for c m
    using that assms(3,4,10,11) D(7) disk_at_cong [OF assms(4)] by (cases "c = h") (auto intro: order_trans)
  moreover have "d_dirties d' c \<noteq> None \<or> disk_at d' c \<noteq> None" if "d_dirties d' g = Some m" "g \<notin> P" "0 < refs g m c" for g m c
  proof (cases "g = h")
    case True
    then have "0 < refs h n c \<or> d_dirties d c \<noteq> None" using that assms(3,12) by auto
    then have "d_dirties d c \<noteq> None \<or> disk_at d c \<noteq> None" using D(8) [OF assms(2)] that(2) True by blast
    then show ?thesis using assms(3) disk_at_cong [OF assms(4)] by auto
  next
    case False
    then show ?thesis using that D(8) [of g m c] assms(3) disk_at_cong [OF assms(4)] by auto
  qed
  moreover have "well_placed r g m" if "d_dirties d' g = Some m" for g m using that assms(3,9) D(6) by (cases "g = h") auto
  ultimately show ?thesis unfolding sound_def using D(2-5) hs(2) assms(3) by auto
qed

section \<open>Dropping a reference\<close>

lemma parents_same [simp]:
  "childs (n\<lparr>cn_parents := p\<rparr>) = childs n" "forChilds (n\<lparr>cn_parents := p\<rparr>) = forChilds n"
  "refs h (n\<lparr>cn_parents := p\<rparr>) = refs h n" "well_placed r h (n\<lparr>cn_parents := p\<rparr>) = well_placed r h n"
proof -
  show fc: "forChilds (n\<lparr>cn_parents := p\<rparr>) = forChilds n" by (simp add: forChilds_def childList_def)
  then show ch: "childs (n\<lparr>cn_parents := p\<rparr>) = childs n" by (simp add: childs_def)
  show "refs h (n\<lparr>cn_parents := p\<rparr>) = refs h n" using ch by (auto simp: refs_def childCount_def childList_def fun_eq_iff)
  show "well_placed r h (n\<lparr>cn_parents := p\<rparr>) = well_placed r h n" using ch fc by (simp add: well_placed_def)
qed

lemma total_same:
  assumes "finite (dom M)" and "M h = Some n" and "refs h n' = refs h n"
  shows "total P (M(h \<mapsto> n')) c = total P M c"
  using total_upd [OF assms(1,2), of P n' c] total_upd_in [of h P M n' c] assms(2,3) by (cases "h \<in> P") auto

lemma sound_release:
  assumes "sound r P (add_mset h R) d" and "d_dirties d h = Some n"
  shows "sound r P R (d\<lparr>d_dirties := (d_dirties d)(h \<mapsto> (if 0 < cn_parents n then n\<lparr>cn_parents := cn_parents n - 1\<rparr> else n))\<rparr>)"
proof -
  let ?n = "if 0 < cn_parents n then n\<lparr>cn_parents := cn_parents n - 1\<rparr> else n"
  note D = soundD [OF assms(1)]
  have tot: "total P ((d_dirties d)(h \<mapsto> ?n)) c = total P (d_dirties d) c" for c
    by (rule total_same [where n = n]) (use assms(2) D(9) in auto)
  have "total P (d_dirties d) h + count R h \<le> unat (cn_parents ?n)" if "disk_at d h = None"
  proof -
    have le: "Suc (total P (d_dirties d) h + count R h) \<le> unat (cn_parents n)" using D(7) [OF assms(2) that] by simp
    then have "cn_parents n \<noteq> 0" by auto
    moreover from this have "unat (cn_parents n - 1) = unat (cn_parents n) - 1" by (rule unat_minus_one)
    ultimately show ?thesis using le by (simp add: word_greater_zero_iff)
  qed
  then show ?thesis
    by (intro sound_update [OF assms(1,2), where n' = ?n]) (use tot D(6) [OF assms(2)] in \<open>auto split: if_splits\<close>)
qed

lemma sound_enter:
  assumes "sound r P R d" and "flush_list hs d" and "set hs = dom (d_dirties d) - {zeroHash} - P" and "h \<in> set hs"
    and "relinked (remove1 h hs) d d'" and "d_dirties d h = Some n"
  shows "sound r (insert h P) (mset (childs n) + R) d'"
proof -
  note D = soundD [OF assms(1)]
  have rel: "flush_list (remove1 h hs) d'" "cores d' = cores d" "d_disk d' = d_disk d" using assms(5) by (simp_all add: relinked_def)
  note same = cores_dom [OF rel(2)] disk_at_cong [OF rel(3)]
  have h: "h \<noteq> zeroHash" "h \<notin> P" using assms(3,4) by auto
  have entry: "\<exists>m. d_dirties d g = Some m \<and> core m' = core m" if "d_dirties d' g = Some m'" for g m'
    using cores_entry [OF rel(2) [symmetric] that] by metis
  have tot: "total (insert h P) (d_dirties d') c + count (mset (childs n) + R) c = total P (d_dirties d) c + count R c" for c
    using total_insert [OF D(9) assms(6) h(2), of c] total_cores [OF rel(2)] h(1) by (simp add: refs_def count_mset)
  have "set (remove1 h hs) = dom (d_dirties d') - {zeroHash} - insert h P"
    using assms(3,4) flush_listD(1) [OF assms(2,4)] same(1) by auto
  moreover have "total (insert h P) (d_dirties d') c + count (mset (childs n) + R) c \<le> unat (cn_parents m')"
    if m': "d_dirties d' c = Some m'" "disk_at d' c = None" for c m'
  proof -
    obtain m where "d_dirties d c = Some m" "core m' = core m" using entry [OF m'(1)] by blast
    then show ?thesis using D(7) [of c m] m'(2) same(2) core_same(4) [of m' m] unfolding tot by simp
  qed
  moreover have "d_dirties d' c \<noteq> None \<or> disk_at d' c \<noteq> None" if m': "d_dirties d' g = Some m'" "g \<notin> insert h P" "0 < refs g m' c" for g m' c
  proof -
    obtain m where m: "d_dirties d g = Some m" "core m' = core m" using entry [OF m'(1)] by blast
    then have "d_dirties d c \<noteq> None \<or> disk_at d c \<noteq> None" using D(8) [OF m(1), of c] m'(2,3) core_same(3) [OF m(2), of g] by simp
    then show ?thesis using same by (metis domIff)
  qed
  moreover have "well_placed r g m'" if "d_dirties d' g = Some m'" for g m'
    using entry [OF that] D(6) core_same(7) by metis
  moreover have "d_dirties d' zeroHash \<noteq> None" "insert h P \<subseteq> dom (d_dirties d')" using D(2,4) assms(6) same(1) by auto
  ultimately show ?thesis unfolding sound_def using rel(1) D(3,5) h(1) by auto
qed

lemma sound_leave:
  assumes "sound r (insert h P) R d" and "h \<notin> P" and "d_dirties d h = Some n" and "cn_parents n = 0"
    and "d_dirties d' = (d_dirties d)(h := None)" and "d_disk d' = d_disk d" and "d_oldest d' = d_oldest d" and "d_newest d' = d_newest d"
  shows "sound r P R d'"
proof -
  note D = soundD [OF assms(1)]
  obtain hs where hs: "flush_list hs d" "set hs = dom (d_dirties d) - {zeroHash} - insert h P" using D(1) by blast
  have hz: "h \<noteq> zeroHash" using D(3) by auto
  have "flush_list hs d'" by (rule flush_list_cong [OF hs(1) assms(7,8)]) (use hs(2) assms(5) in auto)
  moreover have "set hs = dom (d_dirties d') - {zeroHash} - P" using hs(2) assms(5) by auto
  moreover have tot: "total P (d_dirties d') c = total (insert h P) (d_dirties d) c" for c
    unfolding assms(5) by (rule total_remove) (use assms(2,3) in auto)
  moreover have "d_dirties d' c \<noteq> None \<or> disk_at d' c \<noteq> None" if g: "d_dirties d' g = Some m" "g \<notin> P" "0 < refs g m c" for g m c
  proof -
    have gm: "d_dirties d g = Some m" "g \<notin> insert h P" using g(1,2) assms(5) by (auto split: if_splits)
    show ?thesis
    proof (cases "c = h")
      case True
      have "0 < total (insert h P) (d_dirties d) h" using refs_le_total [OF D(9) gm, of h] g(3) True by simp
      then have "disk_at d h \<noteq> None" using D(7) [OF assms(3)] assms(4) by auto
      then show ?thesis using True disk_at_cong [OF assms(6)] by simp
    next
      case False
      then show ?thesis using D(8) [OF gm g(3)] assms(5) disk_at_cong [OF assms(6)] by auto
    qed
  qed
  ultimately show ?thesis
    unfolding sound_def using D(2,3,4,5,6,7) hz assms(2,5) disk_at_cong [OF assms(6)] by (auto split: if_splits)
qed

lemma dropChild_keys: "set (map fst (AList.delete c xs)) \<subseteq> set (map fst xs)" "map_of xs c \<noteq> None \<Longrightarrow> set (map fst (AList.update c v xs)) = set (map fst xs)"
  by (auto simp: AList.delete_eq AList.dom_update dest: map_of_SomeD) (force dest: map_of_SomeD)

lemma forChilds_keys:
  assumes "cn_node n' = cn_node n" and "is_ok (forChilds n)"
  shows "\<exists>hs. forChilds n = Ok (map fst (childList n) @ hs) \<and> forChilds n' = Ok (map fst (childList n') @ hs)"
  using assms by (cases "cn_node n"; cases "forGatherChildren (cn_node n)") (auto simp: forChilds_def Let_def)

lemma childs_children:
  assumes "set (map fst (childList n')) \<subseteq> set (map fst (childList n))" and "cn_node n' = cn_node n" and "well_placed r h n"
  shows "well_placed r h n'"
proof -
  obtain hs where "forChilds n = Ok (map fst (childList n) @ hs)" "forChilds n' = Ok (map fst (childList n') @ hs)"
    using forChilds_keys [OF assms(2)] assms(3) by (auto simp: well_placed_def)
  then show ?thesis using assms(1,3) by (auto simp: well_placed_def childs_def)
qed

lemma dropChild_run:
  assumes "d_dirties d parent = Some p"
  shows "\<exists>d' p'. dropChild child parent d = (Ok (), d') \<and> d_dirties d' = (d_dirties d)(parent \<mapsto> p') \<and> d_disk d' = d_disk d \<and>
    d_oldest d' = d_oldest d \<and> d_newest d' = d_newest d \<and> p' = p\<lparr>cn_children := cn_children p'\<rparr> \<and>
    set (map fst (childList p')) \<subseteq> set (map fst (childList p)) \<and>
    (\<forall>c. childCount c p' = (if c = child \<and> 0 < childCount child p then childCount c p - 1 else childCount c p))"
proof (cases "0 < childCount child p")
  case False
  have "(d_dirties d)(parent \<mapsto> p) = d_dirties d" using assms by auto
  then show ?thesis using False assms by (intro exI [of _ d] exI [of _ p]) (auto simp: dropChild_def bindM_entry retM_def)
next
  case True
  then have key: "map_of (childList p) child \<noteq> None" by (auto simp: childCount_def split: option.splits)
  let ?xs = "if childCount child p - 1 = 0 then AList.delete child (childList p) else AList.update child (childCount child p - 1) (childList p)"
  let ?p = "p\<lparr>cn_children := Some ?xs\<rparr>"
  obtain d' where "dropChild child parent d = (Ok (), d')" "d_dirties d' = (d_dirties d)(parent \<mapsto> ?p)" "d_disk d' = d_disk d"
    "d_oldest d' = d_oldest d" "d_newest d' = d_newest d"
    using True assms by (cases "childCount child p - 1 = 0") (auto simp: dropChild_def bindM_entry setEntry_run seqM_run modM_def)
  moreover have "set (map fst (childList ?p)) \<subseteq> set (map fst (childList p))"
    using dropChild_keys(1) [of child "childList p"] dropChild_keys(2) [OF key] by (auto simp: childList_def)
  moreover have "\<forall>c. childCount c ?p = (if c = child \<and> 0 < childCount child p then childCount c p - 1 else childCount c p)"
    using True by (auto simp: childCount_def childList_def AList.delete_conv' AList.update_conv')
  ultimately show ?thesis by (intro exI [of _ d'] exI [of _ ?p]) simp
qed

definition frame :: "hash set \<Rightarrow> Database \<Rightarrow> Database \<Rightarrow> bool" where
  "frame P d d' \<longleftrightarrow> d_disk d' = d_disk d \<and> dom (d_dirties d') \<subseteq> dom (d_dirties d) \<and>
     (\<forall>p \<in> P. \<forall>n. d_dirties d p = Some n \<longrightarrow> (\<exists>n'. d_dirties d' p = Some n' \<and> cn_parents n' = cn_parents n)) \<and>
     (\<forall>h n'. h \<notin> P \<longrightarrow> d_dirties d' h = Some n' \<longrightarrow> (\<exists>n. d_dirties d h = Some n \<and> cn_node n' = cn_node n \<and> cn_children n' = cn_children n))"

lemma frame_refl: "frame P d d"
  by (simp add: frame_def)

lemma frame_entry:
  "frame P d d' \<Longrightarrow> h \<notin> P \<Longrightarrow> d_dirties d' h = Some n' \<Longrightarrow> \<exists>n. d_dirties d h = Some n \<and> cn_node n' = cn_node n \<and> cn_children n' = cn_children n"
  by (simp add: frame_def)

lemma frame_trans:
  assumes "frame P d1 d2" and "frame P d2 d3"
  shows "frame P d1 d3"
proof -
  have "\<exists>n. d_dirties d1 h = Some n \<and> cn_node n3 = cn_node n \<and> cn_children n3 = cn_children n" if "h \<notin> P" "d_dirties d3 h = Some n3" for h n3
  proof -
    obtain n2 where "d_dirties d2 h = Some n2" "cn_node n3 = cn_node n2" "cn_children n3 = cn_children n2" using assms(2) \<open>h \<notin> P\<close> \<open>d_dirties d3 h = Some n3\<close> unfolding frame_def by metis
    then show ?thesis using assms(1) \<open>h \<notin> P\<close> unfolding frame_def by metis
  qed
  moreover have "\<exists>n'. d_dirties d3 p = Some n' \<and> cn_parents n' = cn_parents n" if "p \<in> P" "d_dirties d1 p = Some n" for p n
    using assms \<open>p \<in> P\<close> \<open>d_dirties d1 p = Some n\<close> unfolding frame_def by metis
  moreover have "d_disk d3 = d_disk d1" using assms unfolding frame_def by simp
  moreover have "dom (d_dirties d3) \<subseteq> dom (d_dirties d1)" using assms unfolding frame_def by blast
  ultimately show ?thesis unfolding frame_def by blast
qed

lemma dropChild_in:
  assumes "sound r P R d" and "parent \<in> P"
  shows "\<exists>d'. dropChild child parent d = (Ok (), d') \<and> sound r P R d' \<and> frame P d d'"
proof -
  note D = soundD [OF assms(1)]
  obtain p where p: "d_dirties d parent = Some p" using D(4) assms(2) by blast
  from dropChild_run [OF p, of child] obtain d' p' where d': "dropChild child parent d = (Ok (), d')" "d_dirties d' = (d_dirties d)(parent \<mapsto> p')" "d_disk d' = d_disk d"
    "d_oldest d' = d_oldest d" "d_newest d' = d_newest d" and p': "p' = p\<lparr>cn_children := cn_children p'\<rparr>" and keys: "set (map fst (childList p')) \<subseteq> set (map fst (childList p))"
    by blast
  have same: "cn_node p' = cn_node p" "cn_parents p' = cn_parents p" "cn_flushNext p' = cn_flushNext p" "cn_flushPrev p' = cn_flushPrev p"
    by (subst p', simp)+
  have tot: "total P (d_dirties d') c = total P (d_dirties d) c" for c
    unfolding d'(2) by (rule total_upd_in) (use assms(2) p in auto)
  have "sound r P R d'"
    by (rule sound_update [OF assms(1) p d'(2-5) same(3,4)])
      (use tot same(2) D(7) [OF p] childs_children [OF keys same(1) D(6) [OF p]] assms(2) in auto)
  moreover have "frame P d d'" using d'(2,3) p same(2) assms(2) by (auto simp: frame_def split: if_splits)
  ultimately show ?thesis using d'(1) by blast
qed

text \<open>What \<open>dereference\<close> does to the child once its parent has forgotten it.\<close>

definition release :: "nat \<Rightarrow> hash \<Rightarrow> (Database, unit) sm" where
  "release n child = bindM (getsM (\<lambda>d. d_dirties d child)) (\<lambda>node. case node of
       None \<Rightarrow> retM ()
     | Some _ \<Rightarrow>
         seqM (setEntry child (\<lambda>c. if 0 < cn_parents c then c\<lparr>cn_parents := cn_parents c - 1\<rparr> else c)) (
         bindM (entry child) (\<lambda>node.
         if cn_parents node = 0 then
           seqM (unlink child node) (
           bindM (entry child) (\<lambda>node.
           bindM (liftR (forChilds node)) (\<lambda>childs.
           seqM (forM childs (\<lambda>h. dereferenceN n h child)) (
           bindM (entry child) (\<lambda>node.
           seqM (modM (\<lambda>d. d\<lparr>d_dirties := (d_dirties d)(child := None),
                    d_dirtiesSize := d_dirtiesSize d - int (HashLength + unat (cn_size node))\<rparr>))
             (if cn_children node \<noteq> None then modM (\<lambda>d. d\<lparr>d_childrenSize := d_childrenSize d - cachedNodeChildrenSize\<rparr>) else retM ()))))))
         else retM ())))"

lemma dereferenceN_release: "dereferenceN (Suc n) child parent = seqM (dropChild child parent) (release n child)"
  by (simp add: release_def)

text \<open>A computation that drops one reference to a node.\<close>

definition drops :: "(hash \<Rightarrow> nat) \<Rightarrow> nat \<Rightarrow> hash set \<Rightarrow> hash \<Rightarrow> (Database, unit) sm \<Rightarrow> bool" where
  "drops r n P child m \<longleftrightarrow> (\<forall>R d. sound r P (add_mset child R) d \<longrightarrow> card (dom (d_dirties d) - P) < n \<longrightarrow>
     (\<exists>d'. m d = (Ok (), d') \<and> sound r P R d' \<and> frame P d d'))"

lemma dropsD:
  "drops r n P h m \<Longrightarrow> sound r P (add_mset h R) d \<Longrightarrow> card (dom (d_dirties d) - P) < n \<Longrightarrow> \<exists>d'. m d = (Ok (), d') \<and> sound r P R d' \<and> frame P d d'"
  by (simp add: drops_def)

lemma card_frame:
  assumes "frame P d d'" and "finite (dom (d_dirties d))"
  shows "card (dom (d_dirties d') - P) \<le> card (dom (d_dirties d) - P)"
  using assms by (intro card_mono) (auto simp: frame_def)

lemma drops_each:
  assumes "\<And>c. c \<in> set cs \<Longrightarrow> drops r n P c (f c)" and "sound r P (mset cs + R) d" and "card (dom (d_dirties d) - P) < n"
  shows "\<exists>d'. forM cs f d = (Ok (), d') \<and> sound r P R d' \<and> frame P d d'"
  using assms
proof (induction cs arbitrary: d)
  case Nil
  then show ?case by (simp add: retM_def frame_refl)
next
  case (Cons c cs)
  have "drops r n P c (f c)" by (rule Cons.prems(1)) simp
  then obtain d1 where d1: "f c d = (Ok (), d1)" "sound r P (mset cs + R) d1" "frame P d d1"
    using Cons.prems(2,3) unfolding drops_def by (auto simp: ac_simps)
  have "card (dom (d_dirties d1) - P) < n" using card_frame [OF d1(3) soundD(9) [OF Cons.prems(2)]] Cons.prems(3) by simp
  then obtain d' where "forM cs f d1 = (Ok (), d')" "sound r P R d'" "frame P d1 d'" using Cons.IH [OF Cons.prems(1) d1(2)] by auto
  then show ?case using d1 frame_trans by (auto simp: bindM_def)
qed

lemma card_out:
  assumes "finite A" and "h \<in> A" and "h \<notin> P"
  shows "card (A - P) = Suc (card (A - insert h P))"
proof -
  have "card (A - P) = Suc (card (A - P - {h}))" by (rule card.remove) (use assms in auto)
  moreover have "A - P - {h} = A - insert h P" by auto
  ultimately show ?thesis by (simp only:)
qed

lemma frame_collect:
  assumes "cores d2 = cores d" and "d_disk d2 = d_disk d" and "frame (insert h P) d2 d3"
    and "d_dirties d4 = (d_dirties d3)(h := None)" and "d_disk d4 = d_disk d3" and "h \<notin> P"
  shows "frame P d d4"
  unfolding frame_def
proof (intro conjI allI ballI impI)
  note f = assms(3) [unfolded frame_def]
  show "d_disk d4 = d_disk d" using f assms(2,5) by simp
  show "dom (d_dirties d4) \<subseteq> dom (d_dirties d)" using f assms(4) cores_dom [OF assms(1)] by auto
  fix p n assume p: "p \<in> P" "d_dirties d p = Some n"
  obtain n2 where n2: "d_dirties d2 p = Some n2" "core n2 = core n" using cores_entry [OF assms(1) p(2)] by blast
  have "\<exists>n'. d_dirties d3 p = Some n' \<and> cn_parents n' = cn_parents n2" using f p(1) n2(1) by blast
  moreover have "d_dirties d4 p = d_dirties d3 p" using p(1) assms(4,6) by auto
  ultimately show "\<exists>n'. d_dirties d4 p = Some n' \<and> cn_parents n' = cn_parents n" using core_same(4) [OF n2(2)] by simp
next
  note f = assms(3) [unfolded frame_def]
  fix g n' assume g: "g \<notin> P" "d_dirties d4 g = Some n'"
  then have g3: "g \<notin> insert h P" "d_dirties d3 g = Some n'" using assms(4) by (auto split: if_splits)
  then obtain n2 where n2: "d_dirties d2 g = Some n2" "cn_node n' = cn_node n2" "cn_children n' = cn_children n2" using f by blast
  from cores_entry [OF assms(1) [symmetric] n2(1)] obtain n where n: "d_dirties d g = Some n" "core n = core n2" by blast
  then show "\<exists>n. d_dirties d g = Some n \<and> cn_node n' = cn_node n \<and> cn_children n' = cn_children n"
    using n2(2,3) core_same(5,6) [OF n(2)] by auto
qed

lemma collect:
  assumes IH: "\<And>c. c \<in> set (childs n) \<Longrightarrow> drops r k (insert h P) c (dereferenceN k c h)"
    and "sound r P R d" and "d_dirties d h = Some n" and "cn_parents n = 0" and "h \<noteq> zeroHash" and "h \<notin> P" and "card (dom (d_dirties d) - P) < Suc k"
  shows "\<exists>d2 n2 d3 n3. unlink h n d = (Ok (), d2) \<and> d_dirties d2 h = Some n2 \<and> forChilds n2 = Ok (childs n) \<and>
    forM (childs n) (\<lambda>c. dereferenceN k c h) d2 = (Ok (), d3) \<and> d_dirties d3 h = Some n3 \<and>
    (\<forall>d4. d_dirties d4 = (d_dirties d3)(h := None) \<longrightarrow> d_disk d4 = d_disk d3 \<longrightarrow> d_oldest d4 = d_oldest d3 \<longrightarrow> d_newest d4 = d_newest d3 \<longrightarrow>
       sound r P R d4 \<and> frame P d d4)"
proof -
  note D = soundD [OF assms(2)]
  obtain hs where hs: "flush_list hs d" "set hs = dom (d_dirties d) - {zeroHash} - P" using D(1) by blast
  have mem: "h \<in> set hs" using hs(2) assms(3,5,6) by auto
  obtain d2 where d2: "unlink h n d = (Ok (), d2)" "relinked (remove1 h hs) d d2" using unlink_ok [OF hs(1) mem assms(3) D(2)] by blast
  have rel: "cores d2 = cores d" "d_disk d2 = d_disk d" using d2(2) by (simp_all add: relinked_def)
  obtain n2 where n2: "d_dirties d2 h = Some n2" "core n2 = core n" using cores_entry [OF rel(1) assms(3)] by blast
  have fc: "forChilds n2 = Ok (childs n)" using D(6) [OF assms(3)] core_same(1) [OF n2(2)] by (cases "forChilds n") (auto simp: well_placed_def childs_def)
  have s2: "sound r (insert h P) (mset (childs n) + R) d2" by (rule sound_enter [OF assms(2) hs mem d2(2) assms(3)])
  have "card (dom (d_dirties d) - P) = Suc (card (dom (d_dirties d) - insert h P))" by (rule card_out) (use D(9) assms(3,6) in auto)
  then have "card (dom (d_dirties d2) - insert h P) < k" using assms(7) cores_dom [OF rel(1)] by simp
  from drops_each [OF IH s2 this] obtain d3 where d3: "forM (childs n) (\<lambda>c. dereferenceN k c h) d2 = (Ok (), d3)"
    "sound r (insert h P) R d3" "frame (insert h P) d2 d3" by blast
  obtain n3 where n3: "d_dirties d3 h = Some n3" "cn_parents n3 = 0" using d3(3) n2 core_same(4) [OF n2(2)] assms(4) unfolding frame_def by auto
  have "sound r P R d4 \<and> frame P d d4" if d4: "d_dirties d4 = (d_dirties d3)(h := None)" "d_disk d4 = d_disk d3" "d_oldest d4 = d_oldest d3" "d_newest d4 = d_newest d3" for d4
  proof
    show "sound r P R d4" by (rule sound_leave [OF d3(2) assms(6) n3 d4])
    show "frame P d d4" by (rule frame_collect [OF rel d3(3) d4(1,2) assms(6)])
  qed
  then show ?thesis using d2(1) n2(1) fc d3(1) n3(1) by blast
qed

lemma release_run:
  assumes "d_dirties d h = Some n" and "n' = (if 0 < cn_parents n then n\<lparr>cn_parents := cn_parents n - 1\<rparr> else n)"
    and "d1 = d\<lparr>d_dirties := (d_dirties d)(h \<mapsto> n')\<rparr>"
  shows "cn_parents n' \<noteq> 0 \<Longrightarrow> release k h d = (Ok (), d1)"
    and "cn_parents n' = 0 \<Longrightarrow> unlink h n' d1 = (Ok (), d2) \<Longrightarrow> d_dirties d2 h = Some n2 \<Longrightarrow> forChilds n2 = Ok cs \<Longrightarrow>
      forM cs (\<lambda>c. dereferenceN k c h) d2 = (Ok (), d3) \<Longrightarrow> d_dirties d3 h = Some n3 \<Longrightarrow>
      \<exists>d4. release k h d = (Ok (), d4) \<and> d_dirties d4 = (d_dirties d3)(h := None) \<and> d_disk d4 = d_disk d3 \<and> d_oldest d4 = d_oldest d3 \<and> d_newest d4 = d_newest d3"
proof -
  have start: "release k h d = bindM (entry h) (\<lambda>node. if cn_parents node = 0 then
           seqM (unlink h node) (bindM (entry h) (\<lambda>node. bindM (liftR (forChilds node)) (\<lambda>childs.
           seqM (forM childs (\<lambda>c. dereferenceN k c h)) (bindM (entry h) (\<lambda>node.
           seqM (modM (\<lambda>d. d\<lparr>d_dirties := (d_dirties d)(h := None), d_dirtiesSize := d_dirtiesSize d - int (HashLength + unat (cn_size node))\<rparr>))
             (if cn_children node \<noteq> None then modM (\<lambda>d. d\<lparr>d_childrenSize := d_childrenSize d - cachedNodeChildrenSize\<rparr>) else retM ()))))))
         else retM ()) d1"
    using setEntry_run [OF assms(1), of "\<lambda>c. if 0 < cn_parents c then c\<lparr>cn_parents := cn_parents c - 1\<rparr> else c"] assms
    by (simp add: release_def seqM_run)
  have e1: "d_dirties d1 h = Some n'" using assms(3) by simp
  show "release k h d = (Ok (), d1)" if "cn_parents n' \<noteq> 0" unfolding start using that by (simp add: bindM_entry(1) [OF e1] retM_def)
  assume run: "cn_parents n' = 0" "unlink h n' d1 = (Ok (), d2)" "d_dirties d2 h = Some n2" "forChilds n2 = Ok cs"
    "forM cs (\<lambda>c. dereferenceN k c h) d2 = (Ok (), d3)" "d_dirties d3 h = Some n3"
  show "\<exists>d4. release k h d = (Ok (), d4) \<and> d_dirties d4 = (d_dirties d3)(h := None) \<and> d_disk d4 = d_disk d3 \<and> d_oldest d4 = d_oldest d3 \<and> d_newest d4 = d_newest d3"
    unfolding start using run(1)
    by (simp add: bindM_entry(1) [OF e1] bindM_entry(1) [OF run(3)] bindM_entry(1) [OF run(6)] seqM_run [where m = "unlink h n'" and s = d1, OF run(2)]
        seqM_run [where m = "forM cs (\<lambda>c. dereferenceN k c h)" and s = d2, OF run(5)] run(4) bindM_liftR)
      (simp add: seqM_def retM_def modM_def bindM_def)
qed

lemma frame_release:
  assumes "d_dirties d h = Some n" and "h \<notin> P" and "cn_node n' = cn_node n" and "cn_children n' = cn_children n"
  shows "frame P d (d\<lparr>d_dirties := (d_dirties d)(h \<mapsto> n')\<rparr>)"
  using assms by (auto simp: frame_def)

lemma drops_release:
  assumes IH: "\<And>P c parent. parent \<in> P \<Longrightarrow> c \<noteq> zeroHash \<Longrightarrow> \<forall>p \<in> P. r c < r p \<Longrightarrow> drops r k P c (dereferenceN k c parent)"
    and "h \<noteq> zeroHash" and "\<forall>p \<in> P. r h < r p"
  shows "drops r (Suc k) P h (release k h)"
  unfolding drops_def
proof (intro allI impI)
  fix R d assume s: "sound r P (add_mset h R) d" and card: "card (dom (d_dirties d) - P) < Suc k"
  have hP: "h \<notin> P" using assms(3) by auto
  show "\<exists>d'. release k h d = (Ok (), d') \<and> sound r P R d' \<and> frame P d d'"
  proof (cases "d_dirties d h")
    case None
    then show ?thesis using sound_weaken [OF s] frame_refl by (simp add: release_def retM_def)
  next
    case (Some n)
    define n' where "n' = (if 0 < cn_parents n then n\<lparr>cn_parents := cn_parents n - 1\<rparr> else n)"
    define d1 where "d1 = d\<lparr>d_dirties := (d_dirties d)(h \<mapsto> n')\<rparr>"
    note run = release_run [OF Some n'_def d1_def]
    have s1: "sound r P R d1" unfolding d1_def n'_def by (rule sound_release [OF s Some])
    have f1: "frame P d d1" unfolding d1_def by (rule frame_release [OF Some hP]) (simp_all add: n'_def)
    have e1: "d_dirties d1 h = Some n'" by (simp add: d1_def)
    have card1: "card (dom (d_dirties d1) - P) < Suc k" using card_frame [OF f1 soundD(9) [OF s]] card by simp
    show ?thesis
    proof (cases "cn_parents n' = 0")
      case False
      then show ?thesis using run(1) s1 f1 by blast
    next
      case True
      have "drops r k (insert h P) c (dereferenceN k c h)" if "c \<in> set (childs n')" for c
      proof (rule IH)
        have c: "c \<noteq> zeroHash" "r c < r h" using soundD(6) [OF s1 e1] that assms(2) by (auto simp: well_placed_def)
        then show "c \<noteq> zeroHash" "\<forall>p \<in> insert h P. r c < r p" using assms(3) by (auto intro: less_trans)
      qed simp
      from collect [OF this s1 e1 True assms(2) hP card1] obtain d2 n2 d3 n3 where c: "unlink h n' d1 = (Ok (), d2)" "d_dirties d2 h = Some n2" "forChilds n2 = Ok (childs n')"
        "forM (childs n') (\<lambda>c. dereferenceN k c h) d2 = (Ok (), d3)" "d_dirties d3 h = Some n3"
        "\<forall>d4. d_dirties d4 = (d_dirties d3)(h := None) \<longrightarrow> d_disk d4 = d_disk d3 \<longrightarrow> d_oldest d4 = d_oldest d3 \<longrightarrow> d_newest d4 = d_newest d3 \<longrightarrow> sound r P R d4 \<and> frame P d1 d4"
        by blast
      from run(2) [OF True c(1-5)] c(6) show ?thesis using frame_trans [OF f1] by blast
    qed
  qed
qed

lemma drops_dereferenceN:
  "parent \<in> P \<Longrightarrow> h \<noteq> zeroHash \<Longrightarrow> \<forall>p \<in> P. r h < r p \<Longrightarrow> drops r k P h (dereferenceN k h parent)"
proof (induction k arbitrary: P h parent)
  case 0
  then show ?case by (simp add: drops_def)
next
  case (Suc k)
  have rel: "drops r (Suc k) P h (release k h)" by (rule drops_release [OF Suc.IH Suc.prems(2,3)])
  show ?case
    unfolding drops_def dereferenceN_release
  proof (intro allI impI)
    fix R d assume s: "sound r P (add_mset h R) d" and card: "card (dom (d_dirties d) - P) < Suc k"
    obtain d1 where d1: "dropChild h parent d = (Ok (), d1)" "sound r P (add_mset h R) d1" "frame P d d1"
      using dropChild_in [OF s Suc.prems(1)] by blast
    have "card (dom (d_dirties d1) - P) < Suc k" using card_frame [OF d1(3) soundD(9) [OF s]] card by simp
    then show "\<exists>d'. seqM (dropChild h parent) (release k h) d = (Ok (), d') \<and> sound r P R d' \<and> frame P d d'"
      using rel d1 frame_trans [OF d1(3)] unfolding drops_def seqM_run [where m = "dropChild h parent" and s = d, OF d1(1)] by blast
  qed
qed

section \<open>Dropping a root\<close>

lemma dropChild_root:
  assumes "sound r {} {#} d" and "d_dirties d zeroHash = Some m" and "0 < childCount root m" and "root \<noteq> zeroHash"
  shows "\<exists>d'. dropChild root zeroHash d = (Ok (), d') \<and> sound r {} {#root#} d' \<and> d_disk d' = d_disk d \<and> (\<exists>m'. d_dirties d' = (d_dirties d)(zeroHash \<mapsto> m'))"
proof -
  note D = soundD [OF assms(1)]
  from dropChild_run [OF assms(2), of root] obtain d' m' where d': "dropChild root zeroHash d = (Ok (), d')" "d_dirties d' = (d_dirties d)(zeroHash \<mapsto> m')" "d_disk d' = d_disk d"
    "d_oldest d' = d_oldest d" "d_newest d' = d_newest d" and m': "m' = m\<lparr>cn_children := cn_children m'\<rparr>" and keys: "set (map fst (childList m')) \<subseteq> set (map fst (childList m))"
    and count: "\<forall>c. childCount c m' = (if c = root \<and> 0 < childCount root m then childCount c m - 1 else childCount c m)" by blast
  have same: "cn_node m' = cn_node m" "cn_parents m' = cn_parents m" "cn_flushNext m' = cn_flushNext m" "cn_flushPrev m' = cn_flushPrev m"
    by (subst m', simp)+
  have minus: "unat (childCount root m - 1) = unat (childCount root m) - 1" "0 < unat (childCount root m)"
    using assms(3) by (auto simp: unat_minus_one unat_gt_0)
  have refs: "refs zeroHash m' c + count {#root#} c = refs zeroHash m c" for c
    using count assms(3) minus by (cases "c = root") (simp_all add: refs_def)
  have tot: "total {} (d_dirties d') c + count {#root#} c = total {} (d_dirties d) c" for c
    using total_upd [OF D(9) assms(2), of "{}" m' c] refs [of c] unfolding d'(2) by simp
  have "sound r {} {#root#} d'"
  proof (rule sound_update [OF assms(1,2) d'(2-5) same(3,4)])
    show "well_placed r zeroHash m'" by (rule childs_children [OF keys same(1) D(6) [OF assms(2)]])
    show "0 < refs zeroHash m c \<or> d_dirties d c \<noteq> None" if "0 < refs zeroHash m' c" for c using that refs [of c] by simp
  qed (use tot D(7) [OF assms(2)] same(2) in auto)
  then show ?thesis using d' by blast
qed

lemma sound_cong:
  assumes "sound r P R d" and "d_dirties d' = d_dirties d" and "d_disk d' = d_disk d" and "d_oldest d' = d_oldest d" and "d_newest d' = d_newest d"
  shows "sound r P R d'"
  using assms unfolding sound_def flush_list_def disk_at_def by simp

lemma Dereference_sound:
  assumes "sound r {} {#} d" and "d_dirties d zeroHash = Some m" and "0 < childCount root m" and "root \<noteq> zeroHash"
  shows "\<exists>d'. Dereference root d = (Ok (), d') \<and> sound r {} {#} d' \<and> d_disk d' = d_disk d \<and>
    (\<forall>h n'. h \<noteq> zeroHash \<longrightarrow> d_dirties d' h = Some n' \<longrightarrow> (\<exists>n. d_dirties d h = Some n \<and> cn_node n' = cn_node n \<and> cn_children n' = cn_children n))"
proof -
  let ?k = "card (dom (d_dirties d))"
  obtain d1 m' where d1: "dropChild root zeroHash d = (Ok (), d1)" "sound r {} {#root#} d1" "d_disk d1 = d_disk d" "d_dirties d1 = (d_dirties d)(zeroHash \<mapsto> m')"
    using dropChild_root [OF assms] by blast
  have dom: "dom (d_dirties d1) = dom (d_dirties d)" using d1(4) assms(2) by auto
  have "drops r (Suc ?k) {} root (release ?k root)"
    by (rule drops_release [OF drops_dereferenceN assms(4)]) auto
  from dropsD [OF this d1(2)] obtain d2 where d2: "release ?k root d1 = (Ok (), d2)" "sound r {} {#} d2" "frame {} d1 d2"
    unfolding dom by auto
  have run: "dereference root zeroHash d = (Ok (), d2)"
    using d2(1) by (simp add: dereference_def dereferenceN_release seqM_run [where m = "dropChild root zeroHash" and s = d, OF d1(1)] del: dereferenceN.simps)
  define d3 where "d3 = d2\<lparr>d_gcnodes := d_gcnodes d2 + (?k - card (dom (d_dirties d2))), d_gcsize := d_gcsize d2 + (d_dirtiesSize d - d_dirtiesSize d2)\<rparr>"
  have "Dereference root d = (Ok (), d3)"
    using assms(4) by (simp add: Dereference_def modM_def d3_def seqM_run [where m = "dereference root zeroHash" and s = d, OF run])
  moreover have "sound r {} {#} d3" by (rule sound_cong [OF d2(2)]) (simp_all add: d3_def)
  moreover have "\<exists>n. d_dirties d h = Some n \<and> cn_node n' = cn_node n \<and> cn_children n' = cn_children n"
    if "h \<noteq> zeroHash" "d_dirties d3 h = Some n'" for h n'
    using frame_entry [OF d2(3), of h n'] that d1(4) by (simp add: d3_def)
  ultimately show ?thesis using d2(3) d1(3) by (auto simp: d3_def frame_def)
qed

section \<open>Inserting a node\<close>

lemma nxt_append: "distinct (hs @ [h]) \<Longrightarrow> g \<in> set hs \<Longrightarrow> nxt (hs @ [h]) g = (if g = last hs then h else nxt hs g)"
  by (induction hs g rule: nxt.induct) auto

lemma nxt_append_new: "h \<notin> set hs \<Longrightarrow> nxt (hs @ [h]) h = zeroHash"
  by (induction hs h rule: nxt.induct) auto

lemma prv_append: "distinct (hs @ [h]) \<Longrightarrow> g \<in> set hs \<Longrightarrow> g \<noteq> hd hs \<Longrightarrow> prv (hs @ [h]) g = prv hs g"
  by (induction hs g rule: prv.induct) auto

lemma prv_append_new: "distinct (hs @ [h]) \<Longrightarrow> hs \<noteq> [] \<Longrightarrow> prv (hs @ [h]) h = last hs"
  by (induction hs h rule: prv.induct) auto

text \<open>The cache after a new entry: its children have one parent more for each mention, the entry is the
  newest of the flush list.\<close>

definition moreParents :: "hash list \<Rightarrow> hash \<Rightarrow> cachedNode \<Rightarrow> cachedNode" where
  "moreParents cs h n = n\<lparr>cn_parents := cn_parents n + of_nat (count_list cs h)\<rparr>"

lemma addParents_run:
  "forM cs addParent d = (Ok (), d\<lparr>d_dirties := \<lambda>h. map_option (moreParents cs h) (d_dirties d h)\<rparr>)"
proof (induction cs arbitrary: d)
  case Nil
  have "map_option (moreParents [] h) (d_dirties d h) = d_dirties d h" for h
    by (cases "d_dirties d h") (simp_all add: moreParents_def)
  then show ?case by (simp add: retM_def)
next
  case (Cons c cs)
  obtain d1 where run: "addParent c d = (Ok (), d1)" by (simp add: addParent_def modM_def)
  have other: "d1 = d\<lparr>d_dirties := d_dirties d1\<rparr>" using run by (auto simp: addParent_def modM_def split: option.splits)
  have "map_option (moreParents cs h) (d_dirties d1 h) = map_option (moreParents (c # cs) h) (d_dirties d h)" for h
    using run by (cases "d_dirties d c"; cases "d_dirties d h") (auto simp: addParent_def modM_def moreParents_def algebra_simps)
  then have "d1\<lparr>d_dirties := \<lambda>h. map_option (moreParents cs h) (d_dirties d1 h)\<rparr> = d\<lparr>d_dirties := \<lambda>h. map_option (moreParents (c # cs) h) (d_dirties d h)\<rparr>"
    by (subst other) simp
  then show ?case using Cons.IH [of d1] run by (simp add: bindM_def)
qed

definition newEntry :: "rawnode \<Rightarrow> byte list \<Rightarrow> hash \<Rightarrow> cachedNode" where
  "newEntry node blob newest = \<lparr>cn_node = node, cn_size = of_nat (length blob), cn_parents = 0, cn_children = None,
     cn_flushPrev = newest, cn_flushNext = zeroHash\<rparr>"

definition grown :: "hash list \<Rightarrow> hash \<Rightarrow> cachedNode \<Rightarrow> Database \<Rightarrow> Database \<Rightarrow> bool" where
  "grown cs h e d d' \<longleftrightarrow> d_disk d' = d_disk d \<and> d_preimages d' = d_preimages d \<and> d_newest d' = h \<and>
     d_oldest d' = (if d_oldest d = zeroHash then h else d_oldest d) \<and> d_dirties d' h = Some e \<and>
     (\<forall>g. g \<noteq> h \<longrightarrow> d_dirties d' g = map_option (\<lambda>n. (moreParents cs g n)
        \<lparr>cn_flushNext := if d_oldest d \<noteq> zeroHash \<and> g = d_newest d then h else cn_flushNext n\<rparr>) (d_dirties d g))"

lemma db_insert_run:
  assumes "d_dirties d h = None" and "e = newEntry node blob (d_newest d)" and "forChilds e = Ok cs"
    and "d_oldest d = zeroHash \<or> d_newest d \<noteq> h \<and> d_dirties d (d_newest d) \<noteq> None"
  shows "\<exists>d'. db_insert h blob (Ok node) d = (Ok (), d') \<and> grown cs h e d d'"
proof -
  define d1 where "d1 = d\<lparr>d_dirties := (\<lambda>g. map_option (moreParents cs g) (d_dirties d g))(h \<mapsto> e)\<rparr>"
  define d2 where "d2 = (if d_oldest d = zeroHash then d1\<lparr>d_oldest := h, d_newest := h\<rparr>
    else d1\<lparr>d_dirties := (d_dirties d1)(d_newest d \<mapsto> (the (d_dirties d1 (d_newest d)))\<lparr>cn_flushNext := h\<rparr>), d_newest := h\<rparr>)"
  define d3 where "d3 = d2\<lparr>d_dirtiesSize := d_dirtiesSize d2 + int (unat (of_nat HashLength + cn_size e))\<rparr>"
  have "db_insert h blob (Ok node) d = (Ok (), d3)"
  proof (cases "d_oldest d = zeroHash")
    case True
    then show ?thesis using assms(1,3)
      by (simp add: db_insert_def Let_def bindM_liftR addParents_run seqM_def bindM_def modM_def liftR_def getsM_def d3_def d2_def d1_def newEntry_def [symmetric] assms(2) [symmetric])
  next
    case False
    then obtain m where m: "d_dirties d1 (d_newest d) = Some m" using assms(4) by (auto simp: d1_def)
    then show ?thesis using assms(1,3) False setEntry_run [OF m, of "\<lambda>n. n\<lparr>cn_flushNext := h\<rparr>"]
      by (simp add: db_insert_def Let_def bindM_liftR addParents_run seqM_def bindM_def modM_def liftR_def getsM_def d3_def d2_def d1_def newEntry_def [symmetric] assms(2) [symmetric])
  qed
  moreover have "grown cs h e d d3"
    using assms(4) by (auto simp: grown_def d3_def d2_def d1_def moreParents_def [abs_def] option.map_comp comp_def)
  ultimately show ?thesis by blast
qed

lemma grown_entry:
  assumes "grown cs h e d d'" and "g \<noteq> h"
  shows "d_dirties d' g = Some n' \<longleftrightarrow> (\<exists>n. d_dirties d g = Some n \<and> n' = (moreParents cs g n)
        \<lparr>cn_flushNext := if d_oldest d \<noteq> zeroHash \<and> g = d_newest d then h else cn_flushNext n\<rparr>)"
  using assms by (auto simp: grown_def)

lemma grown_same:
  assumes "n' = (moreParents cs g n)\<lparr>cn_flushNext := x\<rparr>"
  shows "refs h n' = refs h n" and "well_placed r h n' = well_placed r h n" and "cn_flushPrev n' = cn_flushPrev n"
proof -
  have node: "cn_node n' = cn_node n" "cn_children n' = cn_children n" and "cn_flushPrev n' = cn_flushPrev n" by (simp_all add: assms moreParents_def)
  then show "cn_flushPrev n' = cn_flushPrev n" by simp
  have fc: "forChilds n' = forChilds n" by (rule forChilds_same [OF node])
  then have ch: "childs n' = childs n" by (simp add: childs_def)
  show "refs h n' = refs h n" using ch node(2) by (auto simp: refs_def childCount_def childList_def fun_eq_iff)
  show "well_placed r h n' = well_placed r h n" using fc ch by (simp add: well_placed_def)
qed

lemma grown_list:
  assumes "grown cs h e d d'" and "flush_list hs d" and "h \<notin> set hs" and "h \<noteq> zeroHash" and "cn_flushNext e = zeroHash" and "cn_flushPrev e = d_newest d"
  shows "flush_list (hs @ [h]) d'"
proof -
  have hs: "distinct hs" "zeroHash \<notin> set hs" "d_oldest d = hd (hs @ [zeroHash])" and new: "hs \<noteq> [] \<Longrightarrow> d_newest d = last hs" using assms(2) by (auto simp: flush_list_def)
  have empty: "d_oldest d = zeroHash \<longleftrightarrow> hs = []" using hs(2,3) by (cases hs) auto
  have old: "\<exists>n'. d_dirties d' g = Some n' \<and> cn_flushNext n' = nxt (hs @ [h]) g \<and> (g \<noteq> hd (hs @ [h]) \<longrightarrow> cn_flushPrev n' = prv (hs @ [h]) g)" if g: "g \<in> set hs" for g
  proof -
    from g have ne: "hs \<noteq> []" "g \<noteq> h" using assms(3) by auto
    obtain n where n: "d_dirties d g = Some n" "cn_flushNext n = nxt hs g" "g \<noteq> hd hs \<longrightarrow> cn_flushPrev n = prv hs g"
      using assms(2) g unfolding flush_list_def by blast
    define n' where "n' = (moreParents cs g n)\<lparr>cn_flushNext := if d_oldest d \<noteq> zeroHash \<and> g = d_newest d then h else cn_flushNext n\<rparr>"
    have "d_dirties d' g = Some n'" using grown_entry [OF assms(1) ne(2), of n'] n(1) n'_def by blast
    moreover have "cn_flushNext n' = nxt (hs @ [h]) g" using nxt_append [of hs h g] g hs(1) assms(3) n(2) empty ne(1) new by (simp add: n'_def)
    moreover have "cn_flushPrev n' = cn_flushPrev n" by (rule grown_same(3)) (rule n'_def)
    ultimately show ?thesis using prv_append [of hs h g] g hs(1) assms(3) n(3) ne(1) by auto
  qed
  have "cn_flushPrev e = prv (hs @ [h]) h" if "h \<noteq> hd (hs @ [h])" using that prv_append_new [of hs h] hs(1) assms(3,6) new by (cases hs) auto
  then have last: "\<exists>n'. d_dirties d' h = Some n' \<and> cn_flushNext n' = nxt (hs @ [h]) h \<and> (h \<noteq> hd (hs @ [h]) \<longrightarrow> cn_flushPrev n' = prv (hs @ [h]) h)"
    using assms(1,5) nxt_append_new [OF assms(3)] by (simp add: grown_def)
  show ?thesis
  proof (rule flush_listI)
    show "d_oldest d' = hd ((hs @ [h]) @ [zeroHash])" using assms(1) hs(3) empty by (cases hs) (simp_all add: grown_def)
    show "d_newest d' = last (hs @ [h])" using assms(1) by (simp add: grown_def)
    show "\<exists>n. d_dirties d' g = Some n \<and> cn_flushNext n = nxt (hs @ [h]) g \<and> (g \<noteq> hd (hs @ [h]) \<longrightarrow> cn_flushPrev n = prv (hs @ [h]) g)"
      if "g \<in> set (hs @ [h])" for g using that old last by (cases "g = h") simp_all
  qed (use hs(1,2) assms(3,4) in auto)
qed

lemma grown_dom:
  assumes "grown cs h e d d'"
  shows "dom (d_dirties d') = insert h (dom (d_dirties d))"
proof (rule set_eqI)
  fix g
  show "g \<in> dom (d_dirties d') \<longleftrightarrow> g \<in> insert h (dom (d_dirties d))"
    using assms by (cases "g = h"; cases "d_dirties d g") (auto simp: grown_def)
qed

lemma total_grown:
  assumes "grown cs h e d d'" and "d_dirties d h = None" and "finite (dom (d_dirties d))"
  shows "total {} (d_dirties d') c = refs h e c + total {} (d_dirties d) c"
proof -
  note dom = grown_dom [OF assms(1)]
  have "refs g (the (d_dirties d' g)) c = refs g (the (d_dirties d g)) c" if g: "g \<in> dom (d_dirties d)" for g
  proof -
    obtain n where n: "d_dirties d g = Some n" using g by blast
    have ne: "g \<noteq> h" using n assms(2) by auto
    define n' where "n' = (moreParents cs g n)\<lparr>cn_flushNext := if d_oldest d \<noteq> zeroHash \<and> g = d_newest d then h else cn_flushNext n\<rparr>"
    have "d_dirties d' g = Some n'" using grown_entry [OF assms(1) ne, of n'] n n'_def by blast
    then show ?thesis using n grown_same(1) [OF n'_def, of g] by simp
  qed
  then have "total {h} (d_dirties d') c = total {} (d_dirties d) c"
    unfolding total_def dom using assms(2) by (intro sum.cong) auto
  moreover have "d_dirties d' h = Some e" using assms(1) by (simp add: grown_def)
  moreover have "finite (dom (d_dirties d'))" using dom assms(3) by simp
  ultimately show ?thesis using total_insert [of "d_dirties d'" h e "{}" c] by simp
qed

definition insertable :: "(hash \<Rightarrow> nat) \<Rightarrow> hash \<Rightarrow> rawnode \<Rightarrow> byte list \<Rightarrow> Database \<Rightarrow> bool" where
  "insertable r h node blob d \<longleftrightarrow> (let e = newEntry node blob (d_newest d) in
     well_placed r h e \<and> length h = 32 \<and> (\<forall>c \<in> set (childs e). d_dirties d c \<noteq> None \<or> disk_at d c \<noteq> None) \<and>
     (\<forall>c m. d_dirties d c = Some m \<longrightarrow> unat (cn_parents m) + count_list (childs e) c < 2 ^ 32))"

lemma moreParents_unat:
  assumes "unat (cn_parents m) + count_list cs c < 2 ^ 32"
  shows "unat (cn_parents ((moreParents cs c m)\<lparr>cn_flushNext := x\<rparr>)) = unat (cn_parents m) + count_list cs c"
proof -
  have "unat (of_nat (count_list cs c) :: 32 word) = count_list cs c" using assms by (simp add: unat_of_nat take_bit_nat_eq_self)
  then show ?thesis using assms by (simp add: moreParents_def unat_word_ariths(1))
qed

lemma dangling_none:
  assumes "sound r {} R d" and "d_dirties d h = None" and "disk_at d h = None"
  shows "total {} (d_dirties d) h = 0"
proof -
  have "refs g (the (d_dirties d g)) h = 0" if "g \<in> dom (d_dirties d)" for g
    using soundD(8) [OF assms(1), of g _ h] that assms(2,3) by fastforce
  then show ?thesis by (simp add: total_def)
qed

lemma grown_counts:
  assumes "sound r {} {#} d" and "grown cs h e d d'" and "d_dirties d h = None" and "\<And>c. refs h e c = count_list cs c" and "h \<notin> set cs"
    and "\<And>c m. d_dirties d c = Some m \<Longrightarrow> unat (cn_parents m) + count_list cs c < 2 ^ 32"
    and "d_dirties d' c = Some m" and "disk_at d c = None"
  shows "total {} (d_dirties d') c \<le> unat (cn_parents m)"
proof (cases "c = h")
  case True
  have "count_list cs h = 0" using assms(5) by simp
  then show ?thesis using True assms(4,8) total_grown [OF assms(2,3) soundD(9) [OF assms(1)], of h] dangling_none [OF assms(1,3)] by simp
next
  case False
  then obtain n where n: "d_dirties d c = Some n" "m = (moreParents cs c n)\<lparr>cn_flushNext := if d_oldest d \<noteq> zeroHash \<and> c = d_newest d then h else cn_flushNext n\<rparr>"
    using assms(7) grown_entry [OF assms(2)] by blast
  show ?thesis using soundD(7) [OF assms(1) n(1) assms(8)] moreParents_unat [OF assms(6) [OF n(1)]]
    unfolding n(2) total_grown [OF assms(2,3) soundD(9) [OF assms(1)]] assms(4) by simp
qed

lemma grown_closed:
  assumes "sound r {} {#} d" and "grown cs h e d d'" and "\<And>c. refs h e c = count_list cs c"
    and "\<And>c. c \<in> set cs \<Longrightarrow> d_dirties d c \<noteq> None \<or> disk_at d c \<noteq> None" and "d_dirties d' k = Some m" and "0 < refs k m c"
  shows "d_dirties d' c \<noteq> None \<or> disk_at d' c \<noteq> None"
proof -
  have "d_dirties d c \<noteq> None \<or> disk_at d c \<noteq> None"
  proof (cases "k = h")
    case True
    then have "m = e" using assms(2,5) by (simp add: grown_def)
    then have "count_list cs c \<noteq> 0" using True assms(3,6) by simp
    then show ?thesis using assms(4) by (simp add: count_list_0_iff)
  next
    case False
    then obtain n where n: "d_dirties d k = Some n" "m = (moreParents cs k n)\<lparr>cn_flushNext := if d_oldest d \<noteq> zeroHash \<and> k = d_newest d then h else cn_flushNext n\<rparr>"
      using assms(5) grown_entry [OF assms(2)] by blast
    then show ?thesis using soundD(8) [OF assms(1) n(1), of c] assms(6) grown_same(1) [OF n(2), of k] by simp
  qed
  moreover have "d_disk d' = d_disk d" using assms(2) by (simp add: grown_def)
  ultimately show ?thesis using grown_dom [OF assms(2)] disk_at_cong by (metis domIff insertI2)
qed

lemma grown_placed:
  assumes "sound r {} {#} d" and "grown cs h e d d'" and "well_placed r h e" and "d_dirties d' k = Some m"
  shows "well_placed r k m"
proof (cases "k = h")
  case True
  then show ?thesis using assms(2-4) by (simp add: grown_def)
next
  case False
  then obtain n where n: "d_dirties d k = Some n" "m = (moreParents cs k n)\<lparr>cn_flushNext := if d_oldest d \<noteq> zeroHash \<and> k = d_newest d then h else cn_flushNext n\<rparr>"
    using assms(4) grown_entry [OF assms(2)] by blast
  then show ?thesis using soundD(6) [OF assms(1) n(1)] grown_same(2) [OF n(2)] by simp
qed

lemma newest_cached:
  assumes "flush_list hs d" and "set hs = dom (d_dirties d) - {zeroHash}" and "d_dirties d h = None"
  shows "d_oldest d = zeroHash \<or> d_newest d \<noteq> h \<and> d_dirties d (d_newest d) \<noteq> None"
proof (cases "hs = []")
  case False
  then have "d_newest d \<in> set hs" using assms(1) by (simp add: flush_list_def)
  then show ?thesis using assms(2,3) by auto
qed (use assms(1) in \<open>simp add: flush_list_def\<close>)

lemma db_insert_sound:
  assumes "sound r {} {#} d" and "d_dirties d h = None" and "insertable r h node blob d"
  shows "\<exists>d'. db_insert h blob (Ok node) d = (Ok (), d') \<and> sound r {} {#} d' \<and> d_disk d' = d_disk d \<and> d_preimages d' = d_preimages d \<and>
    dom (d_dirties d') = insert h (dom (d_dirties d))"
proof -
  note D = soundD [OF assms(1)]
  define e where "e = newEntry node blob (d_newest d)"
  define cs where "cs = childs e"
  have ins: "well_placed r h e" "\<And>c. c \<in> set cs \<Longrightarrow> d_dirties d c \<noteq> None \<or> disk_at d c \<noteq> None"
    "\<And>c m. d_dirties d c = Some m \<Longrightarrow> unat (cn_parents m) + count_list cs c < 2 ^ 32"
    using assms(3) by (simp_all add: insertable_def Let_def e_def cs_def)
  have hz: "h \<noteq> zeroHash" using D(2) assms(2) by auto
  obtain hs where hs: "flush_list hs d" "set hs = dom (d_dirties d) - {zeroHash}" using D(1) by auto
  have "forChilds e = Ok cs" using ins(1) by (cases "forChilds e") (simp_all add: well_placed_def cs_def childs_def)
  from db_insert_run [OF assms(2) e_def this newest_cached [OF hs assms(2)]] obtain d' where d': "db_insert h blob (Ok node) d = (Ok (), d')" and g: "grown cs h e d d'" by blast
  have same: "d_disk d' = d_disk d" "d_preimages d' = d_preimages d" using g by (simp_all add: grown_def)
  have list: "flush_list (hs @ [h]) d'"
    by (rule grown_list [OF g hs(1)]) (use hs(2) assms(2) hz in \<open>auto simp: e_def newEntry_def\<close>)
  have refs: "refs h e c = count_list cs c" for c using hz by (simp add: refs_def cs_def)
  have hcs: "h \<notin> set cs" using ins(1) hz by (auto simp: well_placed_def cs_def)
  have "sound r {} {#} d'"
    unfolding sound_def
  proof (intro conjI exI [of _ "hs @ [h]"] allI impI)
    show "set (hs @ [h]) = dom (d_dirties d') - {zeroHash} - {}" using hs(2) hz grown_dom [OF g] by auto
    show "d_dirties d' zeroHash \<noteq> None" using D(2) grown_dom [OF g] by (metis domIff insertI2)
  next
    fix c m assume "d_dirties d' c = Some m" "disk_at d' c = None"
    then show "total {} (d_dirties d') c + count {#} c \<le> unat (cn_parents m)"
      using grown_counts [OF assms(1) g assms(2) refs hcs ins(3)] disk_at_cong [OF same(1)] by simp
  qed (use list grown_placed [OF assms(1) g ins(1)] grown_closed [OF assms(1) g refs ins(2)] in auto)
  then show ?thesis using d' same grown_dom [OF g] by blast
qed

section \<open>Adding a reference\<close>

definition withChild :: "hash \<Rightarrow> cachedNode \<Rightarrow> cachedNode" where
  "withChild child p = p\<lparr>cn_children := Some (AList.update child (childCount child p + 1) (childList p))\<rparr>"

lemma reference_run:
  assumes "d_dirties d child = Some n" and "d_dirties d parent = Some p" and "child \<noteq> parent"
    and "\<not> (cn_children p \<noteq> None \<and> map_of (childList p) child \<noteq> None \<and> parent \<noteq> zeroHash)"
  shows "\<exists>d'. reference child parent d = (Ok (), d') \<and>
    d_dirties d' = (d_dirties d)(child \<mapsto> n\<lparr>cn_parents := cn_parents n + 1\<rparr>, parent \<mapsto> withChild child p) \<and>
    d_disk d' = d_disk d \<and> d_oldest d' = d_oldest d \<and> d_newest d' = d_newest d \<and> d_preimages d' = d_preimages d"
proof (cases "cn_children p")
  case None
  then have "childList p = []" by (simp add: childList_def)
  then show ?thesis using assms None
    by (auto simp: reference_def bindM_entry setEntry_run seqM_def bindM_def modM_def retM_def getsM_def childCount_def childList_def withChild_def fun_upd_twist entry_def)
next
  case (Some xs)
  then show ?thesis using assms
    by (auto simp: reference_def bindM_entry setEntry_run seqM_def bindM_def modM_def retM_def getsM_def childCount_def childList_def withChild_def fun_upd_twist entry_def)
qed

lemma withChild_refs:
  assumes "well_placed r parent p" and "parent \<noteq> zeroHash \<Longrightarrow> map_of (childList p) child = None"
  shows "refs parent (withChild child p) c \<le> refs parent p c + count {#child#} c"
    and "is_ok (forChilds (withChild child p))" and "set (childs (withChild child p)) \<subseteq> insert child (set (childs p))"
proof -
  obtain hs where hs: "forChilds p = Ok (map fst (childList p) @ hs)" "forChilds (withChild child p) = Ok (map fst (childList (withChild child p)) @ hs)"
    using forChilds_keys [of "withChild child p" p] assms(1) by (auto simp: well_placed_def withChild_def)
  have xs: "childList (withChild child p) = AList.update child (childCount child p + 1) (childList p)" by (simp add: withChild_def childList_def)
  show "is_ok (forChilds (withChild child p))" using hs(2) by simp
  show "set (childs (withChild child p)) \<subseteq> insert child (set (childs p))"
    using hs dom_update [of child "childCount child p + 1" "childList p"] by (auto simp: childs_def xs dom_map_of_conv_image_fst)
  show "refs parent (withChild child p) c \<le> refs parent p c + count {#child#} c"
  proof (cases "parent = zeroHash")
    case True
    have "unat (childCount child p + 1) \<le> unat (childCount child p) + 1" by (simp add: unat_word_ariths(1))
    then show ?thesis using True by (auto simp: refs_def childCount_def [of _ "withChild child p"] xs update_conv' childCount_def [of c p])
  next
    case False
    then have "child \<notin> set (map fst (childList p))" using assms(2) by (simp add: map_of_eq_None_iff)
    then have "map fst (childList (withChild child p)) = map fst (childList p) @ [child]" by (simp add: xs update_keys)
    then show ?thesis using False hs by (simp add: refs_def childs_def)
  qed
qed

text \<open>What a caller of \<open>Reference\<close> has to see to.\<close>

definition referable :: "(hash \<Rightarrow> nat) \<Rightarrow> hash \<Rightarrow> hash \<Rightarrow> Database \<Rightarrow> bool" where
  "referable r child parent d \<longleftrightarrow> child \<noteq> zeroHash \<and> length child = 32 \<and> (parent \<noteq> zeroHash \<longrightarrow> r child < r parent) \<and> d_dirties d parent \<noteq> None \<and>
     (\<forall>n. d_dirties d child = Some n \<longrightarrow> cn_parents n \<noteq> - 1)"

lemma bump_sound:
  assumes "sound r {} {#} d" and "d_dirties d h = Some n" and "cn_parents n \<noteq> - 1"
  shows "sound r {} {#h#} (d\<lparr>d_dirties := (d_dirties d)(h \<mapsto> n\<lparr>cn_parents := cn_parents n + 1\<rparr>)\<rparr>)"
proof -
  let ?n = "n\<lparr>cn_parents := cn_parents n + 1\<rparr>"
  note D = soundD [OF assms(1)]
  have tot: "total {} ((d_dirties d)(h \<mapsto> ?n)) c = total {} (d_dirties d) c" for c
    by (rule total_same [where n = n]) (use assms(2) D(9) in auto)
  have "unat (cn_parents n + 1) = Suc (unat (cn_parents n))" using assms(3) by (metis add.commute add_neg_numeral_simps(1) add_eq_0_iff unatSuc)
  then show ?thesis
    by (intro sound_update [OF assms(1,2), where n' = ?n]) (use tot D(6,7) [OF assms(2)] in auto)
qed

lemma withChild_sound:
  assumes "sound r {} {#child#} d" and "d_dirties d parent = Some p" and "d_dirties d child \<noteq> None" and "child \<noteq> parent"
    and "child \<noteq> zeroHash" and "length child = 32" and "parent \<noteq> zeroHash \<Longrightarrow> r child < r parent"
    and "parent \<noteq> zeroHash \<Longrightarrow> map_of (childList p) child = None"
    and "d_dirties d' = (d_dirties d)(parent \<mapsto> withChild child p)" and "d_disk d' = d_disk d" and "d_oldest d' = d_oldest d" and "d_newest d' = d_newest d"
  shows "sound r {} {#} d'"
proof -
  note D = soundD [OF assms(1)]
  note W = withChild_refs [OF D(6) [OF assms(2)] assms(8)]
  have tot: "total {} (d_dirties d') c \<le> total {} (d_dirties d) c + count {#child#} c" for c
    using total_upd [OF D(9) assms(2), of "{}" "withChild child p" c] W(1) [of c] unfolding assms(9) by simp
  show ?thesis
  proof (rule sound_update [OF assms(1,2,9-12)])
    show "well_placed r parent (withChild child p)" using D(6) [OF assms(2)] W(2,3) assms(5-7) by (auto simp: well_placed_def)
    show "total {} (d_dirties d') parent + count {#} parent \<le> unat (cn_parents (withChild child p))" if "disk_at d parent = None"
      using D(7) [OF assms(2) that] tot [of parent] assms(4) by (simp add: withChild_def)
    show "0 < refs parent p c \<or> d_dirties d c \<noteq> None" if "0 < refs parent (withChild child p) c" for c
      using that W(1) [of c] assms(3) by (cases "c = child") auto
  qed (use tot in \<open>auto simp: withChild_def\<close>)
qed

lemma Reference_sound:
  assumes "sound r {} {#} d" and "referable r child parent d"
  shows "\<exists>d'. Reference child parent d = (Ok (), d') \<and> sound r {} {#} d' \<and> d_disk d' = d_disk d \<and> d_preimages d' = d_preimages d \<and>
    dom (d_dirties d') = dom (d_dirties d)"
proof (cases "d_dirties d child")
  case None
  then show ?thesis using assms(1) by (simp add: Reference_def reference_def retM_def)
next
  case (Some n)
  obtain p where p: "d_dirties d parent = Some p" using assms(2) by (auto simp: referable_def)
  have ref: "child \<noteq> zeroHash" "length child = 32" "parent \<noteq> zeroHash \<Longrightarrow> r child < r parent" "child \<noteq> parent" "cn_parents n \<noteq> - 1"
    using assms(2) Some by (auto simp: referable_def)
  show ?thesis
  proof (cases "cn_children p \<noteq> None \<and> map_of (childList p) child \<noteq> None \<and> parent \<noteq> zeroHash")
    case True
    then show ?thesis using Some p assms(1) by (simp add: Reference_def reference_def bindM_entry retM_def)
  next
    case False
    from reference_run [OF Some p ref(4) False] obtain d' where d': "reference child parent d = (Ok (), d')"
      "d_dirties d' = (d_dirties d)(child \<mapsto> n\<lparr>cn_parents := cn_parents n + 1\<rparr>, parent \<mapsto> withChild child p)"
      "d_disk d' = d_disk d" "d_oldest d' = d_oldest d" "d_newest d' = d_newest d" "d_preimages d' = d_preimages d" by blast
    let ?d1 = "d\<lparr>d_dirties := (d_dirties d)(child \<mapsto> n\<lparr>cn_parents := cn_parents n + 1\<rparr>)\<rparr>"
    have "sound r {} {#} d'"
    proof (rule withChild_sound [OF bump_sound [OF assms(1) Some ref(5)]])
      show "parent \<noteq> zeroHash \<Longrightarrow> map_of (childList p) child = None" using False by (auto simp: childList_def)
    qed (use d' p ref in auto)
    moreover have "dom (d_dirties d') = dom (d_dirties d)" using d'(2) Some p by auto
    ultimately show ?thesis using d' by (simp add: Reference_def)
  qed
qed

end
