(* ===== verification/Trie_Run.thy ===== *)
theory Trie_Run
  imports Trie_GC
begin

text \<open>
  The node database over whole runs: \<open>Cap\<close> and \<open>Commit\<close> return on a database in good order and leave
  one, so that no sequence of operations reaches a nil pointer or loses a node that is still referred to.
\<close>

section \<open>Good order\<close>

definition linked :: "Database \<Rightarrow> bool" where
  "linked d \<longleftrightarrow> d_dirties d zeroHash \<noteq> None \<and> (\<exists>hs. flush_list hs d \<and> set hs = dom (d_dirties d) - {zeroHash})"

lemma sound_linked: "sound r {} {#} d \<Longrightarrow> linked d"
  using soundD(1,2) [of r "{}" "{#}" d] by (simp add: linked_def)

lemma refs_child:
  assumes "well_placed r h n" and "0 < refs h n c"
  shows "c \<in> set (childs n)"
proof (cases "h = zeroHash")
  case True
  obtain hs where "forChilds n = Ok (map fst (childList n) @ hs)" using forChilds_keys [of n n] assms(1) by (auto simp: well_placed_def)
  moreover have "c \<in> set (map fst (childList n))" using True assms(2)
    by (force simp: refs_def childCount_def split: option.splits dest!: map_of_SomeD)
  ultimately show ?thesis by (simp add: childs_def)
next
  case False
  then show ?thesis using assms(2) by (metis count_list_0_iff less_irrefl refs_def)
qed

lemma same_node:
  assumes "cn_node n' = cn_node n" and "cn_children n' = cn_children n"
  shows "refs h n' = refs h n" and "well_placed r h n' = well_placed r h n" and "childs n' = childs n" and "forChilds n' = forChilds n"
proof -
  show fc: "forChilds n' = forChilds n" by (rule forChilds_same [OF assms])
  then show ch: "childs n' = childs n" by (simp add: childs_def)
  show "refs h n' = refs h n" using ch assms(2) by (auto simp: refs_def childCount_def childList_def fun_eq_iff)
  show "well_placed r h n' = well_placed r h n" using fc ch by (simp add: well_placed_def)
qed

lemma avail_cached:
  assumes "avail d0 d" and "d_dirties d h = Some n"
  shows "\<exists>n0. d_dirties d0 h = Some n0 \<and> cn_node n = cn_node n0 \<and> cn_children n = cn_children n0 \<and> cn_parents n = cn_parents n0"
  using avail_entry [OF assms(1) avail_dom [OF assms]] assms(2) by (auto simp: cached_def)

lemma total_avail:
  assumes "avail d0 d" and "finite (dom (d_dirties d0))"
  shows "total {} (d_dirties d) c \<le> total {} (d_dirties d0) c"
proof -
  have "refs h (the (d_dirties d h)) c = refs h (the (d_dirties d0 h)) c" if h: "h \<in> dom (d_dirties d)" for h
  proof -
    obtain n where n: "d_dirties d h = Some n" using h by blast
    then obtain n0 where n0: "d_dirties d0 h = Some n0" "cn_node n = cn_node n0" "cn_children n = cn_children n0" using avail_cached [OF assms(1) n] by blast
    then show ?thesis using n same_node(1) [OF n0(2,3)] by simp
  qed
  then have "total {} (d_dirties d) c = (\<Sum>h \<in> dom (d_dirties d). refs h (the (d_dirties d0 h)) c)"
    unfolding total_def by (intro sum.cong) auto
  also have "\<dots> \<le> total {} (d_dirties d0) c"
    unfolding total_def using assms avail_dom [OF assms(1)] by (intro sum_mono2) auto
  finally show ?thesis .
qed

text \<open>A flushed database with a flush list in order is sound.\<close>

lemma avail_sound:
  assumes "sound r {} {#} d0" and "avail d0 d" and "linked d"
  shows "sound r {} {#} d"
proof -
  note D = soundD [OF assms(1)]
  have disk: "disk_at d c \<noteq> None" if "disk_at d0 c \<noteq> None" "length c = 32" for c
    using avail_disk [OF assms(2) that(2)] that(1) by (auto simp: written_def)
  have counts: "total {} (d_dirties d) c \<le> unat (cn_parents n)" if n: "d_dirties d c = Some n" "disk_at d c = None" for c n
  proof -
    obtain n0 where n0: "d_dirties d0 c = Some n0" "cn_parents n = cn_parents n0" using avail_cached [OF assms(2) n(1)] by blast
    have "length c = 32" using avail_length [OF assms(2), of c] n0(1) by simp
    then have "disk_at d0 c = None" using disk [of c] n(2) by blast
    then show ?thesis using D(7) [OF n0(1)] total_avail [OF assms(2) D(9), of c] n0(2) by simp
  qed
  have closed: "d_dirties d c \<noteq> None \<or> disk_at d c \<noteq> None" if n: "d_dirties d h = Some n" "0 < refs h n c" for h n c
  proof -
    obtain n0 where n0: "d_dirties d0 h = Some n0" "cn_node n = cn_node n0" "cn_children n = cn_children n0" using avail_cached [OF assms(2) n(1)] by blast
    have c: "0 < refs h n0 c" using n(2) same_node(1) [OF n0(2,3)] by simp
    have len: "length c = 32" using refs_child [OF D(6) [OF n0(1)] c] D(6) [OF n0(1)] by (simp add: well_placed_def)
    consider "d_dirties d0 c \<noteq> None" | "disk_at d0 c \<noteq> None" using D(8) [OF n0(1) _ c] by auto
    then show ?thesis
    proof cases
      case 1
      then show ?thesis using avail_entry [OF assms(2) 1] by (auto simp: cached_def written_def)
    qed (use disk len in blast)
  qed
  have "well_placed r h n" if n: "d_dirties d h = Some n" for h n
  proof -
    obtain n0 where n0: "d_dirties d0 h = Some n0" "cn_node n = cn_node n0" "cn_children n = cn_children n0" using avail_cached [OF assms(2) n] by blast
    then show ?thesis using D(6) [OF n0(1)] same_node(2) [OF n0(2,3)] by simp
  qed
  then show ?thesis using assms(3) counts closed unfolding sound_def linked_def by simp
qed

section \<open>Cap\<close>

text \<open>Every cached node but the meta root has an encoding.\<close>

definition has_rlp :: "Database \<Rightarrow> bool" where
  "has_rlp d \<longleftrightarrow> (\<forall>h n. d_dirties d h = Some n \<longrightarrow> h \<noteq> zeroHash \<longrightarrow> is_ok (cachedNode_rlp n))"

definition disk_step :: "Database \<Rightarrow> Database \<Rightarrow> bool" where
  "disk_step d d' \<longleftrightarrow> d_disk d' \<noteq> None \<and> d_dirties d' = d_dirties d \<and> d_oldest d' = d_oldest d \<and> d_newest d' = d_newest d"

lemma onDisk_step: "disk_step d0 d \<Longrightarrow> \<exists>d'. onDisk (batch_Write b) d = (Ok (), d') \<and> disk_step d0 d'"
  by (cases "d_disk d") (auto simp: disk_step_def onDisk_Write)

lemma putPreimages_step: "disk_step d0 d \<Longrightarrow> \<exists>b' d'. putPreimages ps b d = (Ok b', d') \<and> disk_step d0 d'"
proof (induction ps b arbitrary: d rule: putPreimages.induct)
  case (1 b)
  then show ?case by (simp add: retM_def)
next
  case (2 h p ps b)
  let ?b = "batch_Put (secureKey h) p b"
  obtain d1 where d1: "onDisk (batch_Write ?b) d = (Ok (), d1)" "disk_step d0 d1" using onDisk_step [OF 2(3)] by blast
  show ?case using 2(1) [OF refl _ d1(2)] 2(2) [OF refl _ 2(3)] d1(1) by (auto simp: Let_def seqM_run)
qed

lemma flush_path:
  assumes "distinct hs" and "\<And>g. g \<in> set hs \<Longrightarrow> \<exists>n. M g = Some n \<and> cn_flushNext n = nxt hs g"
  shows "path M (hd (hs @ [zeroHash])) hs zeroHash"
  using assms
proof (induction hs)
  case (Cons h hs)
  have "\<exists>n. M g = Some n \<and> cn_flushNext n = nxt hs g" if "g \<in> set hs" for g
    using Cons.prems(2) [of g] nxt_tl [OF Cons.prems(1), of g] that by simp
  then have "path M (hd (hs @ [zeroHash])) hs zeroHash" using Cons.IH Cons.prems(1) by simp
  moreover obtain n where "M h = Some n" "cn_flushNext n = nxt (h # hs) h" using Cons.prems(2) [of h] by auto
  ultimately show ?case using nxt_hd [of "h # hs"] by simp
qed simp

lemma path_outside: "path M x hs y \<Longrightarrow> h \<notin> set hs \<Longrightarrow> path (M(h := None)) x hs y"
  by (induction hs arbitrary: x) auto

lemma path_append: "path M x (xs @ ys) z \<longleftrightarrow> (\<exists>y. path M x xs y \<and> path M y ys z)"
  by (induction xs arbitrary: x) auto

lemma capFlush_step:
  assumes "disk_step d0 d" and "path (d_dirties d0) oldest hs zeroHash" and "zeroHash \<notin> set hs" and "length hs < fuel"
    and "\<forall>h \<in> set hs. \<forall>n. d_dirties d0 h = Some n \<longrightarrow> is_ok (cachedNode_rlp n)"
  shows "\<exists>b' old d' xs ys. capFlush fuel sz limit oldest b d = (Ok (b', old), d') \<and> disk_step d0 d' \<and> hs = xs @ ys \<and> old = hd (ys @ [zeroHash])"
  using assms
proof (induction fuel arbitrary: hs oldest d b sz)
  case (Suc fuel)
  have old: "oldest = hd (hs @ [zeroHash])" using Suc.prems(2) by (cases hs) auto
  show ?case
  proof (cases "limit < sz \<and> oldest \<noteq> zeroHash")
    case False
    then show ?thesis using Suc.prems(1) old by (intro exI [of _ b] exI [of _ oldest] exI [of _ d] exI [of _ "[]"] exI [of _ hs]) (auto simp: retM_def)
  next
    case True
    then obtain hs' where hs': "hs = oldest # hs'" using Suc.prems(2) path_cons by blast
    then obtain n where n: "d_dirties d0 oldest = Some n" "path (d_dirties d0) (cn_flushNext n) hs' zeroHash" using Suc.prems(2) by auto
    obtain v where v: "cachedNode_rlp n = Ok v" using Suc.prems(5) n(1) hs' by (cases "cachedNode_rlp n") auto
    have e: "d_dirties d oldest = Some n" using n(1) Suc.prems(1) by (simp add: disk_step_def)
    have pre: "zeroHash \<notin> set hs'" "length hs' < fuel" "\<forall>h \<in> set hs'. \<forall>n. d_dirties d0 h = Some n \<longrightarrow> is_ok (cachedNode_rlp n)"
      using Suc.prems(3-5) hs' by auto
    let ?b = "batch_Put (disk_key oldest) v b"
    have IH: "\<exists>b' old d' xs ys. capFlush fuel sz' limit (cn_flushNext n) b1 d1 = (Ok (b', old), d') \<and> disk_step d0 d' \<and> hs = xs @ ys \<and> old = hd (ys @ [zeroHash])"
      if "disk_step d0 d1" for sz' b1 d1
    proof -
      obtain b' old d' xs ys where "capFlush fuel sz' limit (cn_flushNext n) b1 d1 = (Ok (b', old), d')" "disk_step d0 d'" "hs' = xs @ ys" "old = hd (ys @ [zeroHash])"
        using Suc.IH [where sz = sz' and b = b1, OF \<open>disk_step d0 d1\<close> n(2) pre] by blast
      then show ?thesis unfolding hs' by (metis append_Cons)
    qed
    obtain d1 where d1: "onDisk (batch_Write ?b) d = (Ok (), d1)" "disk_step d0 d1" using onDisk_step [OF Suc.prems(1)] by blast
    show ?thesis using True v IH [OF Suc.prems(1)] IH [OF d1(2)] d1(1)
      by (simp add: bindM_entry(1) [OF e] bindM_liftR Let_def seqM_run)
  qed
qed simp

lemma capClear_step:
  assumes "path (d_dirties d) (d_oldest d) xs old" and "distinct xs" and "old \<notin> set xs" and "length xs < fuel"
  shows "\<exists>d'. capClear fuel old d = (Ok (), d') \<and> d_dirties d' = d_dirties d |` (- set xs) \<and> d_oldest d' = old \<and> d_newest d' = d_newest d"
  using assms
proof (induction fuel arbitrary: xs d)
  case (Suc fuel)
  show ?case
  proof (cases xs)
    case Nil
    then show ?thesis using Suc.prems(1) by (intro exI [of _ d]) (simp add: retM_def)
  next
    case (Cons x xs')
    then obtain n where n: "d_oldest d = x" "d_dirties d x = Some n" "path (d_dirties d) (cn_flushNext n) xs' old" using Suc.prems(1) by auto
    define d1 where "d1 = d\<lparr>d_dirties := (d_dirties d)(x := None), d_oldest := cn_flushNext n,
           d_dirtiesSize := d_dirtiesSize d - int (HashLength + unat (cn_size n)),
           d_childrenSize := (if cn_children n \<noteq> None
             then d_childrenSize d - (cachedNodeChildrenSize + int (length (childList n)) * int (HashLength + 2)) else d_childrenSize d)\<rparr>"
    have "path (d_dirties d1) (d_oldest d1) xs' old" using path_outside [OF n(3), of x] Suc.prems(2) Cons by (simp add: d1_def)
    then have "\<exists>d'. capClear fuel old d1 = (Ok (), d') \<and> d_dirties d' = d_dirties d1 |` (- set xs') \<and> d_oldest d' = old \<and> d_newest d' = d_newest d1"
      by (rule Suc.IH) (use Suc.prems(2-4) Cons in simp_all)
    moreover have "x \<noteq> old" using Suc.prems(3) Cons by auto
    then have "capClear (Suc fuel) old d = capClear fuel old d1"
      using n(1) by (simp add: bindM_entry(1) [OF n(2)] d1_def)
    moreover have "d_dirties d1 |` (- set xs') = d_dirties d |` (- set xs)" "d_newest d1 = d_newest d"
      by (auto simp: d1_def Cons restrict_map_def fun_eq_iff)
    ultimately show ?thesis by simp
  qed
qed simp

lemma suffix_links:
  assumes "distinct (xs @ ys)" and "g \<in> set ys"
  shows "nxt (xs @ ys) g = nxt ys g" and "g \<noteq> hd ys \<Longrightarrow> prv (xs @ ys) g = prv ys g"
  using assms
proof (induction xs)
  case (Cons x xs)
  { case 1
    then show ?case using nxt_tl [of "x # xs @ ys" g] Cons.IH(1) by simp
  next
    case 2
    have "g \<noteq> hd (xs @ ys)" using 2 by (cases xs) auto
    then show ?case using 2 prv_tl [of "x # xs @ ys" g] Cons.IH(2) by simp }
qed simp_all

text \<open>The list that is left when the first part is gone.\<close>

lemma flush_list_suffix:
  assumes "flush_list (xs @ ys) d" and "d_dirties d' = d_dirties d |` (- set xs)" and "d_oldest d' = hd (ys @ [zeroHash])" and "d_newest d' = d_newest d"
  shows "flush_list ys d'"
proof (rule flush_listI)
  have dis: "distinct (xs @ ys)" "zeroHash \<notin> set (xs @ ys)" "xs @ ys \<noteq> [] \<Longrightarrow> d_newest d = last (xs @ ys)" using assms(1) by (simp_all add: flush_list_def)
  then show "distinct ys" "zeroHash \<notin> set ys" "ys \<noteq> [] \<Longrightarrow> d_newest d' = last ys" using assms(4) by auto
  fix g assume g: "g \<in> set ys"
  then have "g \<in> set (xs @ ys)" by simp
  then obtain n where n: "d_dirties d g = Some n" "cn_flushNext n = nxt (xs @ ys) g" "g \<noteq> hd (xs @ ys) \<longrightarrow> cn_flushPrev n = prv (xs @ ys) g"
    using assms(1) unfolding flush_list_def by blast
  have "g \<noteq> hd ys \<longrightarrow> g \<noteq> hd (xs @ ys)" using g dis(1) by (cases xs) auto
  moreover have "g \<notin> set xs" using g dis(1) by auto
  then have "d_dirties d' g = Some n" using n(1) assms(2) by (simp add: restrict_map_def)
  ultimately show "\<exists>n. d_dirties d' g = Some n \<and> cn_flushNext n = nxt ys g \<and> (g \<noteq> hd ys \<longrightarrow> cn_flushPrev n = prv ys g)"
    using n(2,3) suffix_links [OF dis(1) g] by auto
qed (rule assms(3))

lemma flush_list_prev:
  assumes "flush_list hs d" and "d_oldest d \<noteq> zeroHash"
  shows "flush_list hs (d\<lparr>d_dirties := (d_dirties d)(d_oldest d \<mapsto> (the (d_dirties d (d_oldest d)))\<lparr>cn_flushPrev := zeroHash\<rparr>)\<rparr>)"
proof -
  have hs: "hs \<noteq> []" "d_oldest d = hd hs" using assms by (cases hs; simp add: flush_list_def)+
  show ?thesis
  proof (rule flush_listI)
    fix g assume g: "g \<in> set hs"
    then obtain n where "d_dirties d g = Some n" "cn_flushNext n = nxt hs g" "g \<noteq> hd hs \<longrightarrow> cn_flushPrev n = prv hs g"
      using assms(1) unfolding flush_list_def by blast
    then show "\<exists>n. d_dirties (d\<lparr>d_dirties := (d_dirties d)(d_oldest d \<mapsto> (the (d_dirties d (d_oldest d)))\<lparr>cn_flushPrev := zeroHash\<rparr>)\<rparr>) g = Some n \<and>
      cn_flushNext n = nxt hs g \<and> (g \<noteq> hd hs \<longrightarrow> cn_flushPrev n = prv hs g)" unfolding hs(2) by (cases "g = hd hs") simp_all
  qed (use assms(1) in \<open>simp_all add: flush_list_def\<close>)
qed

text \<open>The end of \<open>Cap\<close>.\<close>

lemma cap_rest:
  assumes "flush_list hs d" and "set hs = dom (d_dirties d) - {zeroHash}" and "d_dirties d zeroHash \<noteq> None"
    and "\<And>d. d_dirties (g d) = d_dirties d \<and> d_oldest (g d) = d_oldest d \<and> d_newest (g d) = d_newest d"
  shows "\<exists>d'. bindM (getsM d_oldest) (\<lambda>oldest.
     seqM (if oldest \<noteq> zeroHash then setEntry oldest (\<lambda>n. n\<lparr>cn_flushPrev := zeroHash\<rparr>) else retM ()) (modM g)) d = (Ok (), d') \<and> linked d'"
proof (cases "d_oldest d = zeroHash")
  case True
  have "linked (g d)" using assms by (auto simp: linked_def intro!: exI [of _ hs] flush_list_cong [OF assms(1)])
  then show ?thesis using True by (simp add: seqM_def modM_def)
next
  case False
  let ?d = "d\<lparr>d_dirties := (d_dirties d)(d_oldest d \<mapsto> (the (d_dirties d (d_oldest d)))\<lparr>cn_flushPrev := zeroHash\<rparr>)\<rparr>"
  have "d_oldest d \<in> set hs" using assms(1) False by (cases hs) (auto simp: flush_list_def)
  then obtain n where n: "d_dirties d (d_oldest d) = Some n" using assms(2) by blast
  have list: "flush_list hs ?d" by (rule flush_list_prev [OF assms(1) False])
  have "flush_list hs (g ?d)" by (rule flush_list_cong [OF list]) (use assms(4) [of ?d] in simp_all)
  moreover have "dom (d_dirties (g ?d)) = dom (d_dirties d)" using assms(4) [of ?d] n by auto
  ultimately have "linked (g ?d)" using assms(2,3) unfolding linked_def by (metis domIff)
  moreover have "seqM (setEntry (d_oldest d) (\<lambda>n. n\<lparr>cn_flushPrev := zeroHash\<rparr>)) (modM g) d = (Ok (), g ?d)"
    using n by (simp add: seqM_def bindM_def setEntry_run modM_def)
  ultimately show ?thesis using False by simp
qed

lemma capPreimages_step:
  assumes "disk_step d0 d"
  shows "\<exists>b d'. (if flush then putPreimages ps NewBatch else retM NewBatch) d = (Ok b, d') \<and> disk_step d0 d'"
  using putPreimages_step [OF assms] assms by (auto simp: retM_def)

lemma cap_run:
  assumes "capFlush k sz limit (d_oldest d) b d = (Ok (b1, o1), d1)" and "onDisk (batch_Write b1) d1 = (Ok (), d2)"
    and "capClear k o1 (if flush then d2\<lparr>d_preimages := [], d_preimagesSize := 0\<rparr> else d2) = (Ok (), d3)" and "rest d3 = (Ok (), d4)"
  shows "bindM (getsM d_oldest) (\<lambda>oldest. bindM (capFlush k sz limit oldest b) (\<lambda>(b, oldest).
    seqM (onDisk (batch_Write b)) (
    seqM (if flush then modM (\<lambda>d. d\<lparr>d_preimages := [], d_preimagesSize := 0\<rparr>) else retM ()) (
    seqM (capClear k oldest) rest)))) d = (Ok (), d4)"
proof -
  define d' where "d' = (if flush then d2\<lparr>d_preimages := [], d_preimagesSize := 0\<rparr> else d2)"
  have reset: "seqM (if flush then modM (\<lambda>d. d\<lparr>d_preimages := [], d_preimagesSize := 0\<rparr>) else retM ()) n d2 = n d'" for n :: "(Database, unit) sm"
    by (rule seqM_run) (simp add: modM_def retM_def d'_def)
  have "seqM (capClear k o1) rest d' = (Ok (), d4)"
    using seqM_run [where m = "capClear k o1" and s = d' and n = rest, OF assms(3) [folded d'_def]] assms(4) by simp
  with reset have "seqM (onDisk (batch_Write b1)) (seqM (if flush then modM (\<lambda>d. d\<lparr>d_preimages := [], d_preimagesSize := 0\<rparr>) else retM ())
      (seqM (capClear k o1) rest)) d1 = (Ok (), d4)"
    by (simp only: seqM_run [where m = "onDisk (batch_Write b1)" and s = d1, OF assms(2)])
  then show ?thesis by (simp add: bindM_run [where m = "capFlush k sz limit (d_oldest d) b" and s = d, OF assms(1)])
qed

lemma cap_middle:
  assumes "linked d0" and "has_rlp d0" and "disk_step d0 d" and "card (dom (d_dirties d0)) = nodes"
    and "\<And>d. d_dirties (g d) = d_dirties d \<and> d_oldest (g d) = d_oldest d \<and> d_newest (g d) = d_newest d"
  shows "\<exists>d'. bindM (getsM d_oldest) (\<lambda>oldest. bindM (capFlush (Suc nodes) sz limit oldest b) (\<lambda>(b, oldest).
    seqM (onDisk (batch_Write b)) (
    seqM (if flush then modM (\<lambda>d. d\<lparr>d_preimages := [], d_preimagesSize := 0\<rparr>) else retM ()) (
    seqM (capClear (Suc nodes) oldest) (bindM (getsM d_oldest) (\<lambda>oldest.
    seqM (if oldest \<noteq> zeroHash then setEntry oldest (\<lambda>n. n\<lparr>cn_flushPrev := zeroHash\<rparr>) else retM ()) (modM g))))))) d = (Ok (), d') \<and> linked d'"
proof -
  obtain hs where hs: "flush_list hs d0" "set hs = dom (d_dirties d0) - {zeroHash}" and zero: "d_dirties d0 zeroHash \<noteq> None" using assms(1) by (auto simp: linked_def)
  have dis: "distinct hs" "zeroHash \<notin> set hs" and old: "d_oldest d0 = hd (hs @ [zeroHash])" using hs(1) by (simp_all add: flush_list_def)
  have "path (d_dirties d0) (hd (hs @ [zeroHash])) hs zeroHash" by (rule flush_path [OF dis(1)]) (use hs(1) in \<open>auto simp: flush_list_def\<close>)
  then have path: "path (d_dirties d0) (d_oldest d0) hs zeroHash" using old by simp
  have fin: "finite (dom (d_dirties d0))" using hs(2) by (metis List.finite_set finite_Diff2 finite.emptyI finite_insert)
  have len: "length hs < Suc nodes" using card_mono [OF fin, of "set hs"] hs(2) distinct_card [OF dis(1)] assms(4) by auto
  have "\<forall>h \<in> set hs. \<forall>n. d_dirties d0 h = Some n \<longrightarrow> is_ok (cachedNode_rlp n)" using assms(2) dis(2) by (auto simp: has_rlp_def)
  from capFlush_step [OF assms(3) path dis(2) len this, of sz limit b] obtain b1 o1 d1 xs ys
    where f: "capFlush (Suc nodes) sz limit (d_oldest d0) b d = (Ok (b1, o1), d1)" "disk_step d0 d1" "hs = xs @ ys" "o1 = hd (ys @ [zeroHash])" by blast
  obtain d2 where w: "onDisk (batch_Write b1) d1 = (Ok (), d2)" "disk_step d0 d2" using onDisk_step [OF f(2)] by blast
  define d3 where "d3 = (if flush then d2\<lparr>d_preimages := [], d_preimagesSize := 0\<rparr> else d2)"
  have d3: "d_dirties d3 = d_dirties d0" "d_oldest d3 = d_oldest d0" "d_newest d3 = d_newest d0" using w(2) by (auto simp: disk_step_def d3_def)
  have "path (d_dirties d0) (d_oldest d0) xs o1" using path f(3,4) path_append by (cases ys) auto
  moreover have "o1 \<notin> set xs" using dis f(3,4) by (cases ys) auto
  ultimately have "\<exists>d4. capClear (Suc nodes) o1 d3 = (Ok (), d4) \<and> d_dirties d4 = d_dirties d3 |` (- set xs) \<and> d_oldest d4 = o1 \<and> d_newest d4 = d_newest d3"
    using dis(1) len f(3) d3 by (intro capClear_step) auto
  then obtain d4 where c: "capClear (Suc nodes) o1 d3 = (Ok (), d4)" "d_dirties d4 = d_dirties d0 |` (- set xs)" "d_oldest d4 = o1" "d_newest d4 = d_newest d0"
    using d3 by auto
  have "flush_list ys d4" by (rule flush_list_suffix [of xs ys d0]) (use hs(1) f(3,4) c in auto)
  moreover have "set ys = dom (d_dirties d4) - {zeroHash}" using hs(2) f(3) dis(1) c(2) by (auto simp: dom_def restrict_map_def)
  moreover have "d_dirties d4 zeroHash \<noteq> None" using zero dis(2) f(3) c(2) by (simp add: restrict_map_def)
  ultimately obtain d5 where "bindM (getsM d_oldest) (\<lambda>oldest. seqM (if oldest \<noteq> zeroHash then setEntry oldest (\<lambda>n. n\<lparr>cn_flushPrev := zeroHash\<rparr>) else retM ()) (modM g)) d4 = (Ok (), d5)" "linked d5"
    using cap_rest [OF _ _ _ assms(5)] by blast
  moreover have "d_oldest d = d_oldest d0" using assms(3) by (simp add: disk_step_def)
  ultimately show ?thesis using cap_run [of "Suc nodes" sz limit d b, OF _ w(1) c(1) [unfolded d3_def]] f(1) by auto
qed

lemma Cap_ok:
  assumes "linked d" and "has_rlp d" and "d_disk d \<noteq> None"
  shows "\<exists>d'. Cap limit d = (Ok (), d') \<and> linked d'"
proof -
  obtain root where root: "d_dirties d zeroHash = Some root" using assms(1) by (auto simp: linked_def)
  have "disk_step d d" using assms(3) by (simp add: disk_step_def)
  from capPreimages_step [OF this, of "4 * 1024 * 1024 < d_preimagesSize d" "d_preimages d"] obtain b d1
    where p: "(if 4 * 1024 * 1024 < d_preimagesSize d then putPreimages (d_preimages d) NewBatch else retM NewBatch) d = (Ok b, d1)" "disk_step d d1" by blast
  let ?g = "\<lambda>d'. d'\<lparr>d_flushnodes := d_flushnodes d' + (card (dom (d_dirties d)) - card (dom (d_dirties d'))), d_flushsize := d_flushsize d' + (d_dirtiesSize d - d_dirtiesSize d')\<rparr>"
  have g: "d_dirties (?g d') = d_dirties d' \<and> d_oldest (?g d') = d_oldest d' \<and> d_newest (?g d') = d_newest d'" for d' by simp
  show ?thesis
    using cap_middle [OF assms(1,2) p(2) refl g, where limit = limit and b = b and flush = "4 * 1024 * 1024 < d_preimagesSize d" and
      sz = "d_dirtiesSize d + (int (card (dom (d_dirties d))) - 1) * cachedNodeSize + (d_childrenSize d - int (length (childList root)) * int (HashLength + 2))"]
    unfolding Cap_def bindM_gets prod.case bindM_entry(1) [OF root]
      bindM_run [where m = "if 4 * 1024 * 1024 < d_preimagesSize d then putPreimages (d_preimages d) NewBatch else retM NewBatch" and s = d, OF p(1)] .
qed

section \<open>Commit\<close>

definition shrunk :: "Database \<Rightarrow> Database \<Rightarrow> bool" where
  "shrunk d0 d \<longleftrightarrow> linked d \<and> d_disk d \<noteq> None \<and>
     (\<forall>h n. d_dirties d h = Some n \<longrightarrow> (\<exists>n0. d_dirties d0 h = Some n0 \<and> cn_node n = cn_node n0 \<and> cn_children n = cn_children n0))"

definition node_puts :: "batch \<Rightarrow> bool" where
  "node_puts b \<longleftrightarrow> (\<forall>kv \<in> set (b_writes b). \<not> kv_delete kv \<and> (\<exists>h. kv_key kv = disk_key h \<and> length h = 32 \<and> h \<noteq> zeroHash))"

lemma node_puts_simps [simp]: "node_puts NewBatch" "node_puts (batch_Reset b)"
  by (simp_all add: node_puts_def NewBatch_def batch_Reset_def)

lemma node_puts_Put: "node_puts b \<Longrightarrow> length h = 32 \<Longrightarrow> h \<noteq> zeroHash \<Longrightarrow> node_puts (batch_Put (disk_key h) v b)"
  by (auto simp: node_puts_def batch_Put_def)

lemma unlink_shrunk:
  assumes "shrunk d0 d" and "d_dirties d h = Some n" and "h \<noteq> zeroHash"
  shows "\<exists>d1. unlink h n d = (Ok (), d1) \<and> (\<forall>d'. d_dirties d' = (d_dirties d1)(h := None) \<longrightarrow> d_disk d' = d_disk d1 \<longrightarrow>
    d_oldest d' = d_oldest d1 \<longrightarrow> d_newest d' = d_newest d1 \<longrightarrow> shrunk d0 d')"
proof -
  obtain hs where hs: "flush_list hs d" "set hs = dom (d_dirties d) - {zeroHash}" and zero: "d_dirties d zeroHash \<noteq> None"
    using assms(1) by (auto simp: shrunk_def linked_def)
  have mem: "h \<in> set hs" using hs(2) assms(2,3) by auto
  obtain d1 where d1: "unlink h n d = (Ok (), d1)" "relinked (remove1 h hs) d d1" using unlink_ok [OF hs(1) mem assms(2) zero] by blast
  then have rel: "flush_list (remove1 h hs) d1" "cores d1 = cores d" "d_disk d1 = d_disk d" by (simp_all add: relinked_def)
  have "shrunk d0 d'" if d': "d_dirties d' = (d_dirties d1)(h := None)" "d_disk d' = d_disk d1" "d_oldest d' = d_oldest d1" "d_newest d' = d_newest d1" for d'
  proof -
    have dis: "distinct hs" using hs(1) by (simp add: flush_list_def)
    have "flush_list (remove1 h hs) d'" by (rule flush_list_cong [OF rel(1) d'(3,4)]) (use dis d'(1) in auto)
    moreover have "set (remove1 h hs) = dom (d_dirties d') - {zeroHash}" using dis hs(2) d'(1) cores_dom [OF rel(2)] by auto
    moreover have "d_dirties d' zeroHash \<noteq> None" using zero assms(3) d'(1) cores_dom [OF rel(2)] by (metis domIff fun_upd_other)
    moreover have "\<exists>n0. d_dirties d0 g = Some n0 \<and> cn_node m = cn_node n0 \<and> cn_children m = cn_children n0" if m: "d_dirties d' g = Some m" for g m
    proof -
      have "d_dirties d1 g = Some m" using m d'(1) by (auto split: if_splits)
      from cores_entry [OF rel(2) [symmetric] this] obtain m1 where m1: "d_dirties d g = Some m1" "core m1 = core m" by blast
      then show ?thesis using assms(1) core_same(5,6) [OF m1(2)] unfolding shrunk_def by metis
    qed
    ultimately show ?thesis using assms(1) rel(3) d'(2) unfolding shrunk_def linked_def by auto
  qed
  then show ?thesis using d1(1) by blast
qed

lemma cleaner_shrunk:
  assumes "length h = 32" and "h \<noteq> zeroHash"
  shows "ensures (shrunk d0) (cleaner_Put (disk_key h)) (\<lambda>_. shrunk d0) (\<lambda>_. False)"
  unfolding ensures_def
proof (intro allI impI)
  fix d assume d: "shrunk d0 d"
  show "case cleaner_Put (disk_key h) d of (Ok _, d') \<Rightarrow> shrunk d0 d' | _ \<Rightarrow> False"
  proof (cases "d_dirties d h")
    case None
    then show ?thesis using d assms(1) by (simp add: cleaner_Put_def retM_def)
  next
    case (Some n)
    obtain d1 where d1: "unlink h n d = (Ok (), d1)" "\<forall>d'. d_dirties d' = (d_dirties d1)(h := None) \<longrightarrow> d_disk d' = d_disk d1 \<longrightarrow>
      d_oldest d' = d_oldest d1 \<longrightarrow> d_newest d' = d_newest d1 \<longrightarrow> shrunk d0 d'" using unlink_shrunk [OF d Some assms(2)] by blast
    then show ?thesis using Some assms(1) by (simp add: cleaner_Put_def seqM_def bindM_def modM_def getsM_def)
  qed
qed

lemma uncache_shrunk: "node_puts b \<Longrightarrow> ensures (shrunk d0) (uncache b) (\<lambda>_. shrunk d0) (\<lambda>_. False)"
  unfolding uncache_def
  by (rule ensures_forM) (auto simp: node_puts_def intro!: ensures_if cleaner_shrunk)

lemma linked_cong:
  "linked d \<Longrightarrow> d_dirties d' = d_dirties d \<Longrightarrow> d_oldest d' = d_oldest d \<Longrightarrow> d_newest d' = d_newest d \<Longrightarrow> linked d'"
  unfolding linked_def flush_list_def by simp

lemma shrunk_cong:
  assumes "shrunk d0 d" and "d_disk d' \<noteq> None" and "d_dirties d' = d_dirties d" and "d_oldest d' = d_oldest d" and "d_newest d' = d_newest d"
  shows "shrunk d0 d'"
proof -
  have "linked d'" by (rule linked_cong [OF _ assms(3-5)]) (use assms(1) in \<open>simp add: shrunk_def\<close>)
  then show ?thesis using assms(1-3) unfolding shrunk_def by simp
qed

lemma Write_shrunk: "ensures (shrunk d0) (onDisk (batch_Write b)) (\<lambda>_. shrunk d0) (\<lambda>_. False)"
  unfolding ensures_def
proof (intro allI impI)
  fix d assume d: "shrunk d0 d"
  then obtain m where "d_disk d = Some m" by (auto simp: shrunk_def)
  then show "case onDisk (batch_Write b) d of (Ok _, d') \<Rightarrow> shrunk d0 d' | _ \<Rightarrow> False"
    using shrunk_cong [OF d, of "d\<lparr>d_disk := Some (last_write (b_writes b) m)\<rparr>"] by (simp add: onDisk_Write)
qed

lemma putPreimages_shrunk: "ensures (shrunk d0) (putPreimages ps b) (\<lambda>_. shrunk d0) (\<lambda>_. False)"
proof (induction ps b rule: putPreimages.induct)
  case (2 h p ps b)
  let ?b = "batch_Put (secureKey h) p b"
  show ?case using ensures_seqM [OF Write_shrunk 2(1) [OF refl]] 2(2) [OF refl] by (simp add: Let_def)
qed (simp add: ensures_def retM_def)

text \<open>One node with everything below it, when the recursive calls are known to do their work.\<close>

lemma commitEach_shrunk:
  assumes "\<And>c b. c \<in> set cs \<Longrightarrow> node_puts b \<Longrightarrow> ensures (shrunk d0) (f c b) (\<lambda>b d. node_puts b \<and> shrunk d0 d) (\<lambda>_. False)" and "node_puts b"
  shows "ensures (shrunk d0) (commitEach f cs b) (\<lambda>b d. node_puts b \<and> shrunk d0 d) (\<lambda>_. False)"
  using assms
proof (induction cs arbitrary: b)
  case (Cons c cs)
  have "ensures (shrunk d0) (f c b) (\<lambda>b d. node_puts b \<and> shrunk d0 d) (\<lambda>_. False)" by (rule Cons.prems(1)) (use Cons.prems(2) in auto)
  moreover have "ensures (\<lambda>d. node_puts b' \<and> shrunk d0 d) (commitEach f cs b') (\<lambda>b d. node_puts b \<and> shrunk d0 d) (\<lambda>_. False)" for b'
    using Cons.IH [of b'] Cons.prems(1) by (cases "node_puts b'") (auto simp: ensures_def)
  ultimately show ?case by (auto intro: ensures_bindM)
qed (simp add: ensures_def retM_def)

lemma commit_one:
  assumes "node_puts b" and "length h = 32" and "h \<noteq> zeroHash"
  shows "ensures (shrunk d0) (let b = batch_Put (disk_key h) v b in
       if IdealBatchSize \<le> batch_ValueSize b then seqM (onDisk (batch_Write b)) (seqM (uncache b) (retM (batch_Reset b))) else retM b)
    (\<lambda>b d. node_puts b \<and> shrunk d0 d) (\<lambda>_. False)"
proof -
  let ?b = "batch_Put (disk_key h) v b"
  have b: "node_puts ?b" by (rule node_puts_Put [OF assms])
  have "ensures (shrunk d0) (retM (batch_Reset ?b)) (\<lambda>b d. node_puts b \<and> shrunk d0 d) (\<lambda>_. False)"
    "ensures (shrunk d0) (retM ?b) (\<lambda>b d. node_puts b \<and> shrunk d0 d) (\<lambda>_. False)" using b by (simp_all add: ensures_def retM_def)
  then show ?thesis
    unfolding Let_def by (intro ensures_if ensures_seqM [OF Write_shrunk] ensures_seqM [OF uncache_shrunk [OF b]])
qed

lemma commitN_shrunk:
  assumes "finite (dom (d_dirties d0))" and "\<And>h n. d_dirties d0 h = Some n \<Longrightarrow> well_placed r h n \<and> length h = 32" and "has_rlp d0"
    and "h \<noteq> zeroHash" and "\<forall>a \<in> A. r h < r a" and "card (dom (d_dirties d0) - A) < k" and "node_puts b"
  shows "ensures (shrunk d0) (commitN k h b) (\<lambda>b d. node_puts b \<and> shrunk d0 d) (\<lambda>_. False)"
  using assms(4-7)
proof (induction k arbitrary: h A b)
  case (Suc k)
  show ?case
    unfolding ensures_def
  proof (intro allI impI)
    fix d assume d: "shrunk d0 d"
    show "case commitN (Suc k) h b d of (Ok b, d) \<Rightarrow> node_puts b \<and> shrunk d0 d | _ \<Rightarrow> False"
    proof (cases "d_dirties d h")
      case None
      then show ?thesis using d Suc.prems(4) by (simp add: retM_def)
    next
      case (Some n)
      then obtain n0 where n0: "d_dirties d0 h = Some n0" "cn_node n = cn_node n0" "cn_children n = cn_children n0" using d unfolding shrunk_def by blast
      have wp: "well_placed r h n" and len: "length h = 32" using assms(2) [OF n0(1)] same_node(2) [OF n0(2,3)] by auto
      have "is_ok (cachedNode_rlp n)" using assms(3) n0(1) Suc.prems(1) unfolding has_rlp_def rlp_same [OF n0(2)] by blast
      then obtain v where v: "cachedNode_rlp n = Ok v" by (cases "cachedNode_rlp n") auto
      have fc: "forChilds n = Ok (childs n)" using wp by (cases "forChilds n") (simp_all add: well_placed_def childs_def)
      have card: "card (dom (d_dirties d0) - insert h A) < k"
        using card_out [of "dom (d_dirties d0)" h A] assms(1) n0(1) Suc.prems(2,3) by fastforce
      have IH: "ensures (shrunk d0) (commitN k c b) (\<lambda>b d. node_puts b \<and> shrunk d0 d) (\<lambda>_. False)" if "c \<in> set (childs n)" "node_puts b" for c b
        by (rule Suc.IH [of _ "insert h A"]) (use wp that Suc.prems(1,2) card in \<open>auto simp: well_placed_def intro: less_trans\<close>)
      let ?last = "\<lambda>b. let b = batch_Put (disk_key h) v b in
        if IdealBatchSize \<le> batch_ValueSize b then seqM (onDisk (batch_Write b)) (seqM (uncache b) (retM (batch_Reset b))) else retM b"
      have "ensures (\<lambda>d. node_puts b' \<and> shrunk d0 d) (?last b') (\<lambda>b d. node_puts b \<and> shrunk d0 d) (\<lambda>_. False)" for b'
        using commit_one [OF _ len Suc.prems(1), of b' d0 v] by (cases "node_puts b'") (auto simp: ensures_def)
      from ensures_bindM [OF commitEach_shrunk [OF IH Suc.prems(4)] this]
      have "ensures (shrunk d0) (bindM (commitEach (commitN k) (childs n) b) ?last) (\<lambda>b d. node_puts b \<and> shrunk d0 d) (\<lambda>_. False)" .
      moreover have "commitN (Suc k) h b d = bindM (commitEach (commitN k) (childs n) b) ?last d" using Some fc v by (simp add: bindM_liftOk)
      ultimately show ?thesis using ensures_use d by fastforce
    qed
  qed
qed simp

lemma Commit_ok:
  assumes "linked d" and "has_rlp d" and "typed d" and "finite (dom (d_dirties d))" and "\<And>h n. d_dirties d h = Some n \<Longrightarrow> well_placed r h n" and "root \<noteq> zeroHash"
  shows "\<exists>d'. Commit root d = (Ok (), d') \<and> linked d'"
proof -
  have start: "shrunk d d" using assms(1,3) by (simp add: shrunk_def typed_def)
  have len: "length h = 32" if "d_dirties d h = Some n" for h n using assms(3) that by (auto simp: typed_def)
  let ?last = "\<lambda>b. seqM (onDisk (batch_Write b)) (seqM (uncache b)
    (modM (\<lambda>d. d\<lparr>d_preimages := [], d_preimagesSize := 0, d_gcnodes := 0, d_gcsize := 0, d_flushnodes := 0, d_flushsize := 0\<rparr>)))"
  have "ensures (shrunk d) (modM (\<lambda>d. d\<lparr>d_preimages := [], d_preimagesSize := 0, d_gcnodes := 0, d_gcsize := 0, d_flushnodes := 0, d_flushsize := 0\<rparr>)) (\<lambda>_. shrunk d) (\<lambda>_. False)"
    by (rule ensures_basic) (rule shrunk_cong, auto simp: shrunk_def)
  then have "node_puts b \<Longrightarrow> ensures (shrunk d) (?last b) (\<lambda>_. shrunk d) (\<lambda>_. False)" for b
    by (intro ensures_seqM [OF Write_shrunk] ensures_seqM [OF uncache_shrunk])
  then have last: "ensures (\<lambda>s. node_puts b \<and> shrunk d s) (?last b) (\<lambda>_. shrunk d) (\<lambda>_. False)" for b
    by (cases "node_puts b") (auto simp: ensures_def)
  have "ensures (shrunk d) (commitN (Suc (card (dom (d_dirties d)))) root (batch_Reset b)) (\<lambda>b s. node_puts b \<and> shrunk d s) (\<lambda>_. False)" for b
    by (rule commitN_shrunk [where A = "{}" and r = r]) (use assms len in auto)
  from ensures_bindM [OF this last]
  have body: "ensures (shrunk d) (bindM (commitN (Suc (card (dom (d_dirties d)))) root (batch_Reset b)) ?last) (\<lambda>_. shrunk d) (\<lambda>_. False)" for b .
  have "disk_step d d" using assms(3) by (simp add: disk_step_def typed_def)
  from putPreimages_step [OF this] obtain b d1 where p: "putPreimages (d_preimages d) NewBatch d = (Ok b, d1)" "disk_step d d1" by blast
  obtain d2 where w: "onDisk (batch_Write b) d1 = (Ok (), d2)" "disk_step d d2" using onDisk_step [OF p(2)] by blast
  have "shrunk d d2" by (rule shrunk_cong [OF start]) (use w(2) in \<open>simp_all add: disk_step_def\<close>)
  then obtain d3 where "bindM (commitN (Suc (card (dom (d_dirties d)))) root (batch_Reset b)) ?last d2 = (Ok (), d3)" "shrunk d d3"
    using ensures_use [OF body] by (fastforce split: prod.splits res.splits)
  moreover have "d_dirties d2 = d_dirties d" using w(2) by (simp add: disk_step_def)
  ultimately show ?thesis
    unfolding Commit_def bindM_gets bindM_run [where m = "putPreimages (d_preimages d) NewBatch" and s = d, OF p(1)]
      seqM_run [where m = "onDisk (batch_Write b)" and s = d1, OF w(1)] by (auto simp: shrunk_def simp del: commitN.simps)
qed

section \<open>Operations\<close>

datatype dbOp = OpInsert hash "byte list" rawnode | OpPreimage hash "byte list" | OpReference hash hash | OpDereference hash | OpCap int | OpCommit hash

primrec db_exec :: "dbOp \<Rightarrow> (Database, unit) sm" where
  "db_exec (OpInsert h blob node) = db_insert h blob (Ok node)"
| "db_exec (OpPreimage h p) = insertPreimage h p"
| "db_exec (OpReference child parent) = Reference child parent"
| "db_exec (OpDereference root) = Dereference root"
| "db_exec (OpCap limit) = Cap limit"
| "db_exec (OpCommit root) = Commit root"

text \<open>What the callers in \<open>l2geth\<close> see to: children are inserted before their parents, a root is dereferenced
  after it was referenced, and no counter is at its limit.\<close>

primrec admissible :: "(hash \<Rightarrow> nat) \<Rightarrow> dbOp \<Rightarrow> Database \<Rightarrow> bool" where
  "admissible r (OpInsert h blob node) d \<longleftrightarrow> d_dirties d h = None \<longrightarrow> insertable r h node blob d \<and> is_ok (cachedNode_rlp (newEntry node blob (d_newest d)))"
| "admissible r (OpPreimage h p) d \<longleftrightarrow> length h = 32"
| "admissible r (OpReference child parent) d \<longleftrightarrow> referable r child parent d"
| "admissible r (OpDereference root) d \<longleftrightarrow> root \<noteq> zeroHash \<longrightarrow> (\<exists>m. d_dirties d zeroHash = Some m \<and> 0 < childCount root m)"
| "admissible r (OpCap limit) d \<longleftrightarrow> True"
| "admissible r (OpCommit root) d \<longleftrightarrow> root \<noteq> zeroHash"

definition well_formed :: "(hash \<Rightarrow> nat) \<Rightarrow> Database \<Rightarrow> bool" where
  "well_formed r d \<longleftrightarrow> sound r {} {#} d \<and> typed d \<and> has_rlp d"

text \<open>Preimages.\<close>

abbreviation preimages_typed :: "Database \<Rightarrow> bool" where
  "preimages_typed d \<equiv> \<forall>(h, p) \<in> set (d_preimages d). length h = 32"

lemma typed_iff: "typed d \<longleftrightarrow> d_disk d \<noteq> None \<and> (\<forall>h \<in> dom (d_dirties d). length h = 32) \<and> preimages_typed d"
  by (simp add: typed_def)

lemma keeps_preimages_basic [keeps_intros]:
  "keeps preimages_typed (entry h)" "keeps preimages_typed (setEntry h f)" "keeps preimages_typed (onDisk m)"
  by (auto simp: keeps_def entry_def setEntry_def bindM_def modM_def onDisk_def split: option.splits prod.splits)

lemma keeps_preimages_unlink [keeps_intros]: "keeps preimages_typed (unlink h n)"
  unfolding unlink_def by (intro keeps_intros keeps_modM) simp_all

lemma keeps_preimages_dropChild [keeps_intros]: "keeps preimages_typed (dropChild c p)"
  unfolding dropChild_def by (intro keeps_intros keeps_modM) simp_all

lemma keeps_preimages_dereferenceN: "keeps preimages_typed (dereferenceN k c p)"
proof (induction k arbitrary: c p)
  case (Suc k)
  then show ?case by (simp only: dereferenceN.simps) (intro keeps_intros keeps_modM; simp)
qed (simp add: keeps_def)

lemma keeps_preimages_Dereference: "keeps preimages_typed (Dereference root)"
  unfolding Dereference_def dereference_def by (intro keeps_intros keeps_modM keeps_preimages_dereferenceN) simp_all

lemma keeps_preimages_put [keeps_intros]: "keeps preimages_typed (putPreimages ps b)"
  by (induction ps b rule: putPreimages.induct) (auto simp: Let_def intro!: keeps_intros)

lemma keeps_preimages_cap [keeps_intros]: "keeps preimages_typed (capFlush k sz limit old b)" "keeps preimages_typed (capClear k old)"
proof -
  show "keeps preimages_typed (capFlush k sz limit old b)"
    by (induction k arbitrary: sz old b) (simp add: keeps_def, simp only: capFlush.simps Let_def, intro keeps_intros)
  show "keeps preimages_typed (capClear k old)"
    by (induction k arbitrary: old) (simp add: keeps_def, simp only: capClear.simps, intro keeps_intros keeps_modM, simp_all)
qed

lemma keeps_preimages_Cap: "keeps preimages_typed (Cap limit)"
  unfolding Cap_def by (intro keeps_intros keeps_modM) simp_all

lemma keeps_preimages_cleaner [keeps_intros]: "keeps preimages_typed (cleaner_Put k)"
  unfolding cleaner_Put_def Let_def by (intro keeps_intros keeps_modM) simp_all

lemma keeps_preimages_uncache [keeps_intros]: "keeps preimages_typed (uncache b)"
  unfolding uncache_def by (intro keeps_intros)

lemma keeps_preimages_commitEach: "(\<And>c b. keeps preimages_typed (f c b)) \<Longrightarrow> keeps preimages_typed (commitEach f cs b)"
  by (induction cs arbitrary: b) (auto intro!: keeps_intros)

lemma keeps_preimages_commitN [keeps_intros]: "keeps preimages_typed (commitN k h b)"
  by (induction k arbitrary: h b) (simp add: keeps_def, simp only: commitN.simps Let_def, intro keeps_intros keeps_preimages_commitEach)

lemma keeps_preimages_Commit: "keeps preimages_typed (Commit root)"
  unfolding Commit_def by (intro keeps_intros keeps_modM) simp_all

text \<open>Encodings.\<close>

lemma keeps_has_rlp_setEntry [keeps_intros]:
  assumes "\<And>n. cn_node (f n) = cn_node n"
  shows "keeps has_rlp (setEntry h f)"
  unfolding keeps_def
proof (intro allI impI)
  fix d assume d: "has_rlp d"
  show "has_rlp (snd (setEntry h f d))"
  proof (cases "d_dirties d h")
    case (Some n)
    then show ?thesis using d rlp_same [OF assms, of n] by (auto simp: setEntry_run has_rlp_def)
  qed (use d in \<open>simp add: setEntry_def entry_def bindM_def\<close>)
qed

lemma keeps_has_rlp_entry [keeps_intros]: "keeps has_rlp (entry h)"
  by (auto simp: keeps_def entry_def split: option.splits)

lemma keeps_has_rlp_unlink [keeps_intros]: "keeps has_rlp (unlink h n)"
  unfolding unlink_def by (intro keeps_intros keeps_modM) (simp_all add: has_rlp_def)

lemma keeps_has_rlp_dropChild [keeps_intros]: "keeps has_rlp (dropChild c p)"
  unfolding dropChild_def by (intro keeps_intros keeps_modM) (simp_all add: has_rlp_def)

lemma keeps_has_rlp_dereferenceN: "keeps has_rlp (dereferenceN k c p)"
proof (induction k arbitrary: c p)
  case (Suc k)
  then show ?case by (simp only: dereferenceN.simps) (intro keeps_intros keeps_modM; simp add: has_rlp_def)
qed (simp add: keeps_def)

lemma keeps_has_rlp_Dereference: "keeps has_rlp (Dereference root)"
  unfolding Dereference_def dereference_def by (intro keeps_intros keeps_modM keeps_has_rlp_dereferenceN) (simp_all add: has_rlp_def)

lemma keeps_has_rlp_Reference: "keeps has_rlp (Reference c p)"
  unfolding Reference_def reference_def by (intro keeps_intros keeps_modM) (simp_all add: has_rlp_def)

lemma keeps_has_rlp_insert:
  assumes "is_ok (cachedNode_rlp (newEntry node blob x))"
  shows "keeps has_rlp (db_insert h blob (Ok node))"
proof -
  have rlp: "is_ok (cachedNode_rlp \<lparr>cn_node = node, cn_size = of_nat (length blob), cn_parents = 0, cn_children = None, cn_flushPrev = newest, cn_flushNext = zeroHash\<rparr>)" for newest
    using assms by (simp add: cachedNode_rlp_def newEntry_def)
  have "keeps has_rlp (addParent c)" for c
    unfolding addParent_def by (rule keeps_modM) (auto simp: has_rlp_def cachedNode_rlp_def split: option.splits)
  then show ?thesis
    unfolding db_insert_def bindM_liftOk Let_def using rlp
    by (intro keeps_intros keeps_modM) (auto simp: has_rlp_def)
qed

lemma has_rlp_avail:
  assumes "has_rlp d0" and "avail d0 d"
  shows "has_rlp d"
  unfolding has_rlp_def
proof (intro allI impI)
  fix h n assume h: "d_dirties d h = Some n" "h \<noteq> zeroHash"
  obtain n0 where n0: "d_dirties d0 h = Some n0" "cn_node n = cn_node n0" using avail_cached [OF assms(2) h(1)] by blast
  then show "is_ok (cachedNode_rlp n)" using assms(1) h(2) rlp_same [OF n0(2)] by (simp add: has_rlp_def)
qed

lemma well_formed_avail:
  assumes "well_formed r d0" and "avail d0 d" and "linked d" and "preimages_typed d"
  shows "well_formed r d"
proof -
  have "sound r {} {#} d" by (rule avail_sound [OF _ assms(2,3)]) (use assms(1) in \<open>simp add: well_formed_def\<close>)
  moreover have "typed d"
    unfolding typed_iff using avail_open [OF assms(2)] avail_dom [OF assms(2)] avail_length [OF assms(2)] assms(4) by auto
  moreover have "has_rlp d" by (rule has_rlp_avail [OF _ assms(2)]) (use assms(1) in \<open>simp add: well_formed_def\<close>)
  ultimately show ?thesis by (simp add: well_formed_def)
qed

lemma well_formedD:
  assumes "well_formed r d"
  shows "sound r {} {#} d" and "typed d" and "has_rlp d" and "linked d" and "d_disk d \<noteq> None" and "preimages_typed d"
    and "\<And>h. h \<in> dom (d_dirties d) \<Longrightarrow> length h = 32"
  using assms sound_linked [of r d] by (auto simp: well_formed_def typed_iff)

lemma well_formed_insert:
  assumes "well_formed r d" and "admissible r (OpInsert h blob node) d"
  shows "\<exists>d'. db_insert h blob (Ok node) d = (Ok (), d') \<and> well_formed r d'"
proof (cases "d_dirties d h")
  case None
  note W = well_formedD [OF assms(1)]
  have ins: "insertable r h node blob d" "is_ok (cachedNode_rlp (newEntry node blob (d_newest d)))" using assms(2) None by simp_all
  from db_insert_sound [OF W(1) None ins(1)] obtain d' where d': "db_insert h blob (Ok node) d = (Ok (), d')" "sound r {} {#} d'" "d_disk d' = d_disk d" "d_preimages d' = d_preimages d"
    "dom (d_dirties d') = insert h (dom (d_dirties d))" by blast
  have "has_rlp d'" using keepsD [OF keeps_has_rlp_insert [OF ins(2)] W(3), of h] d'(1) by simp
  moreover have "typed d'" using W(5-7) d'(3-5) ins(1) by (auto simp: typed_iff insertable_def Let_def)
  ultimately show ?thesis using d'(1,2) by (simp add: well_formed_def)
qed (use assms(1) in \<open>simp add: db_insert_def retM_def\<close>)

lemma well_formed_preimage:
  assumes "well_formed r d" and "length h = 32"
  shows "\<exists>d'. insertPreimage h p d = (Ok (), d') \<and> well_formed r d'"
proof -
  note W = well_formedD [OF assms(1)]
  obtain d' where run: "insertPreimage h p d = (Ok (), d')" by (simp add: insertPreimage_def modM_def)
  then have same: "d_dirties d' = d_dirties d" "d_disk d' = d_disk d" "d_oldest d' = d_oldest d" "d_newest d' = d_newest d"
    by (auto simp: insertPreimage_def modM_def)
  have "d_preimages d' = d_preimages d \<or> d_preimages d' = AList.update h p (d_preimages d)" using run by (auto simp: insertPreimage_def modM_def split: if_splits)
  then have sub: "fst ` set (d_preimages d') \<subseteq> insert h (fst ` set (d_preimages d))" using dom_update [of h p "d_preimages d"] by (elim disjE) (simp_all add: subset_insertI)
  have "length k = 32" if "(k, q) \<in> set (d_preimages d')" for k q
  proof -
    have "k \<in> insert h (fst ` set (d_preimages d))" using sub that by (metis fst_conv image_eqI subsetD)
    then show ?thesis using W(6) assms(2) by auto
  qed
  then have "preimages_typed d'" by blast
  then show ?thesis using run sound_cong [OF W(1) same] W(3,5,7) same by (auto simp: well_formed_def typed_iff has_rlp_def)
qed

lemma well_formed_reference:
  assumes "well_formed r d" and "referable r child parent d"
  shows "\<exists>d'. Reference child parent d = (Ok (), d') \<and> well_formed r d'"
proof -
  note W = well_formedD [OF assms(1)]
  from Reference_sound [OF W(1) assms(2)] obtain d' where d': "Reference child parent d = (Ok (), d')" "sound r {} {#} d'" "d_disk d' = d_disk d" "d_preimages d' = d_preimages d"
    "dom (d_dirties d') = dom (d_dirties d)" by blast
  have "has_rlp d'" using keepsD [OF keeps_has_rlp_Reference W(3), of child parent] d'(1) by simp
  then show ?thesis using d' W(5-7) by (simp add: well_formed_def typed_iff)
qed

lemma well_formed_dereference:
  assumes "well_formed r d" and "admissible r (OpDereference root) d"
  shows "\<exists>d'. Dereference root d = (Ok (), d') \<and> well_formed r d'"
proof (cases "root = zeroHash")
  case False
  note W = well_formedD [OF assms(1)]
  obtain m where m: "d_dirties d zeroHash = Some m" "0 < childCount root m" using assms(2) False by auto
  from Dereference_sound [OF W(1) m False] obtain d' where d': "Dereference root d = (Ok (), d')" "sound r {} {#} d'" "d_disk d' = d_disk d"
    "\<And>h n'. h \<noteq> zeroHash \<Longrightarrow> d_dirties d' h = Some n' \<Longrightarrow> \<exists>n. d_dirties d h = Some n" by metis
  have "length h = 32" if h: "h \<in> dom (d_dirties d')" for h
    using h d'(4) [of h] W(7) [of h] by (cases "h = zeroHash") (auto simp: zeroHash_def)
  moreover have "preimages_typed d'" using keepsD [OF keeps_preimages_Dereference W(6), of root] d'(1) by simp
  moreover have "has_rlp d'" using keepsD [OF keeps_has_rlp_Dereference W(3), of root] d'(1) by simp
  ultimately show ?thesis using d'(1-3) W(5) by (simp add: well_formed_def typed_iff)
qed (use assms(1) in \<open>simp add: Dereference_def retM_def\<close>)

lemma well_formed_cap:
  assumes "well_formed r d"
  shows "\<exists>d'. Cap limit d = (Ok (), d') \<and> well_formed r d'"
proof -
  note W = well_formedD [OF assms(1)]
  obtain d' where d': "Cap limit d = (Ok (), d')" "linked d'" using Cap_ok [OF W(4,3,5)] by blast
  have "well_formed r d'"
    by (rule well_formed_avail [OF assms _ d'(2)]) (use Cap_safe [OF W(2), of limit] keepsD [OF keeps_preimages_Cap W(6), of limit] d'(1) in auto)
  then show ?thesis using d'(1) by simp
qed

lemma well_formed_commit:
  assumes "well_formed r d" and "root \<noteq> zeroHash"
  shows "\<exists>d'. Commit root d = (Ok (), d') \<and> well_formed r d'"
proof -
  note W = well_formedD [OF assms(1)]
  note D = soundD [OF W(1)]
  obtain d' where d': "Commit root d = (Ok (), d')" "linked d'" using Commit_ok [OF W(4,3,2) D(9) D(6) assms(2)] by blast
  have "well_formed r d'"
    by (rule well_formed_avail [OF assms(1) Commit_safe(1) [OF W(2) d'(1)] d'(2)]) (use keepsD [OF keeps_preimages_Commit W(6), of root] d'(1) in auto)
  then show ?thesis using d'(1) by simp
qed

lemma well_formed_exec:
  "well_formed r d \<Longrightarrow> admissible r op d \<Longrightarrow> \<exists>d'. db_exec op d = (Ok (), d') \<and> well_formed r d'"
  using well_formed_insert well_formed_preimage well_formed_reference well_formed_dereference well_formed_cap well_formed_commit
  by (cases op) auto

section \<open>Runs\<close>

primrec admissible_run :: "(hash \<Rightarrow> nat) \<Rightarrow> dbOp list \<Rightarrow> Database \<Rightarrow> bool" where
  "admissible_run r [] d \<longleftrightarrow> True"
| "admissible_run r (op # ops) d \<longleftrightarrow> admissible r op d \<and> admissible_run r ops (snd (db_exec op d))"

lemma well_formed_run:
  "well_formed r d \<Longrightarrow> admissible_run r ops d \<Longrightarrow> \<exists>d'. forM ops db_exec d = (Ok (), d') \<and> well_formed r d'"
proof (induction ops arbitrary: d)
  case (Cons op ops)
  obtain d1 where d1: "db_exec op d = (Ok (), d1)" "well_formed r d1" using well_formed_exec [OF Cons.prems(1)] Cons.prems(2) by auto
  then show ?case using Cons.IH [OF d1(2)] Cons.prems(2) by (simp add: bindM_def)
qed (simp add: retM_def)

lemma well_formed_new: "well_formed r (NewDatabase (Some disk))"
proof -
  let ?d = "NewDatabase (Some disk)"
  have "flush_list [] ?d" by (simp add: flush_list_def NewDatabase_def)
  moreover have "childs \<lparr>cn_node = RawNil, cn_size = 0, cn_parents = 0, cn_children = Some [], cn_flushPrev = zeroHash, cn_flushNext = zeroHash\<rparr> = []"
    by (simp add: childs_def forChilds_def childList_def)
  ultimately show ?thesis
    by (auto simp: well_formed_def sound_def NewDatabase_def typed_def has_rlp_def well_placed_def refs_def total_def childCount_def childList_def forChilds_def zeroHash_def split: if_splits intro!: exI [of _ "[]"])
qed

section \<open>Properties\<close>

text \<open>C21: Well-formedness of the node database is kept by every operation: on a well-formed database each
  operation that its caller may make returns, without touching a nil pointer, and leaves a
  well-formed database: the flush list links exactly the cached nodes in both directions, the
  counters cover the references, every reference leads to a node in the cache or on disk, keys have
  32 bytes and every node has an encoding.\<close>

theorem database_exec_safe:
  assumes "well_formed r d" and "admissible r op d"
  shows "\<exists>d'. db_exec op d = (Ok (), d') \<and> well_formed r d'"
  using assms by (rule well_formed_exec)

text \<open>A database with one node, and the same after two blocks with that root.\<close>

abbreviation h1 :: hash where
  "h1 \<equiv> replicate 32 1"

lemma one_node_insert: "db_insert h1 [0xc2, 0x80, 0x80] (Ok (RawBlob [0xc2, 0x80, 0x80])) (NewDatabase (Some Map.empty)) = (Ok (), one_node)"
  by (simp add: one_node_def InsertBlob_def db_insert_def NewDatabase_def zeroHash_def forChilds_def childList_def HashLength_def seqM_def Let_def res_simps)

lemma one_node_admissible: "admissible (\<lambda>_. 0) (OpInsert h1 [0xc2, 0x80, 0x80] (RawBlob [0xc2, 0x80, 0x80])) (NewDatabase (Some Map.empty))"
  by (auto simp: insertable_def Let_def newEntry_def well_placed_def childs_def forChilds_def childList_def cachedNode_rlp_def NewDatabase_def split: if_splits)

lemma one_node_well_formed: "well_formed (\<lambda>_. 0) one_node"
  using well_formed_insert [OF well_formed_new one_node_admissible] one_node_insert by simp

theorem database_exec_safe_witness: "\<exists>d'. db_exec (OpCap 0) one_node = (Ok (), d') \<and> well_formed (\<lambda>_. 0) d'"
  by (rule database_exec_safe [OF one_node_well_formed]) simp

text \<open>C9: Over any run of operations on a new database all operations return, the flush list is in order, and no
  cached node, nor the meta root with the roots it holds, refers to a node that is gone.\<close>

theorem database_run_safe:
  assumes "admissible_run r ops (NewDatabase (Some disk))"
  shows "\<exists>d. forM ops db_exec (NewDatabase (Some disk)) = (Ok (), d) \<and> linked d \<and>
    (\<forall>h n c. d_dirties d h = Some n \<longrightarrow> 0 < refs h n c \<longrightarrow> d_dirties d c \<noteq> None \<or> is_ok (db_Get (disk_key c) (d_disk d)))"
proof -
  obtain d where d: "forM ops db_exec (NewDatabase (Some disk)) = (Ok (), d)" "well_formed r d" using well_formed_run [OF well_formed_new assms] by blast
  note W = well_formedD [OF d(2)]
  have "is_ok (db_Get (disk_key c) (d_disk d))" if "disk_at d c \<noteq> None" for c using that disk_at_Get by fastforce
  then have "d_dirties d c \<noteq> None \<or> is_ok (db_Get (disk_key c) (d_disk d))" if "d_dirties d h = Some n" "0 < refs h n c" for h n c
    using soundD(8) [OF W(1) that(1) _ that(2)] by blast
  then show ?thesis using d(1) W(4) by blast
qed

lemma live_step:
  assumes "sound r {} {#} d'" and "\<And>h n'. h \<noteq> zeroHash \<Longrightarrow> d_dirties d' h = Some n' \<Longrightarrow> \<exists>n. d_dirties d h = Some n \<and> cn_node n' = cn_node n \<and> cn_children n' = cn_children n"
    and "d_dirties d' g = Some m" and "0 < refs g m h"
  shows "h \<noteq> zeroHash \<and> (disk_at d' h \<noteq> None \<or> (\<exists>n n'. d_dirties d h = Some n \<and> d_dirties d' h = Some n' \<and> cn_node n' = cn_node n \<and> cn_children n' = cn_children n))"
proof
  note D = soundD [OF assms(1)]
  show h: "h \<noteq> zeroHash" using refs_child [OF D(6) [OF assms(3)] assms(4)] D(6) [OF assms(3)] by (auto simp: well_placed_def)
  have "d_dirties d' h \<noteq> None \<or> disk_at d' h \<noteq> None" using D(8) [OF assms(3) _ assms(4)] by simp
  then show "disk_at d' h \<noteq> None \<or> (\<exists>n n'. d_dirties d h = Some n \<and> d_dirties d' h = Some n' \<and> cn_node n' = cn_node n \<and> cn_children n' = cn_children n)"
    using assms(2) [OF h] by (cases "d_dirties d' h") auto
qed

lemma Dereference_keeps:
  assumes "well_formed r d" and "admissible r (OpDereference root) d" and "Dereference root d = (Ok (), d')"
  shows "sound r {} {#} d'" and "d_disk d' = d_disk d"
    and "h \<noteq> zeroHash \<Longrightarrow> d_dirties d' h = Some n' \<Longrightarrow> \<exists>n. d_dirties d h = Some n \<and> cn_node n' = cn_node n \<and> cn_children n' = cn_children n"
proof -
  have s: "sound r {} {#} d" using assms(1) by (simp add: well_formed_def)
  have "sound r {} {#} d' \<and> d_disk d' = d_disk d \<and> (\<forall>h n'. h \<noteq> zeroHash \<longrightarrow> d_dirties d' h = Some n' \<longrightarrow>
    (\<exists>n. d_dirties d h = Some n \<and> cn_node n' = cn_node n \<and> cn_children n' = cn_children n))"
  proof (cases "root = zeroHash")
    case True
    then show ?thesis using assms(3) s by (simp add: Dereference_def retM_def)
  next
    case False
    then obtain m where "d_dirties d zeroHash = Some m" "0 < childCount root m" using assms(2) by auto
    from Dereference_sound [OF s this False] assms(3) show ?thesis by auto
  qed
  then show "sound r {} {#} d'" "d_disk d' = d_disk d"
    "h \<noteq> zeroHash \<Longrightarrow> d_dirties d' h = Some n' \<Longrightarrow> \<exists>n. d_dirties d h = Some n \<and> cn_node n' = cn_node n \<and> cn_children n' = cn_children n" by blast+
qed

text \<open>C20: Garbage collection spares what is alive: when a root is dropped, every node that was reachable from a
  root that is still held is afterwards in the cache with the same content, or on disk, provided the
  nodes on disk have their children there.\<close>

theorem live_nodes_survive:
  assumes "well_formed r d" and "admissible r (OpDereference root) d" and "Dereference root d = (Ok (), d')"
    and "\<forall>h c. c \<in> kids d h \<longrightarrow> disk_at d h \<noteq> None \<longrightarrow> disk_at d c \<noteq> None"
    and "d_dirties d' zeroHash = Some m" and "0 < childCount live m" and "(child_of d)\<^sup>*\<^sup>* live h"
  shows "disk_at d' h \<noteq> None \<or> (\<exists>n n'. d_dirties d h = Some n \<and> d_dirties d' h = Some n' \<and> cn_node n' = cn_node n \<and> cn_children n' = cn_children n)"
proof -
  note K = Dereference_keeps [OF assms(1-3)]
  let ?kept = "\<lambda>h. h \<noteq> zeroHash \<and> (disk_at d' h \<noteq> None \<or> (\<exists>n n'. d_dirties d h = Some n \<and> d_dirties d' h = Some n' \<and> cn_node n' = cn_node n \<and> cn_children n' = cn_children n))"
  have "?kept h" using assms(7)
  proof (induction rule: rtranclp_induct)
    case base
    show ?case by (rule live_step [OF K(1,3) assms(5)]) (use assms(6) in \<open>simp_all add: refs_def unat_gt_0\<close>)
  next
    case (step h c)
    then obtain n where n: "d_dirties d h = Some n" "c \<in> set (childs n)" by (auto simp: kids_def childs_def split: option.splits res.splits)
    show ?case
    proof (cases "disk_at d' h")
      case None
      then obtain n' where n': "d_dirties d' h = Some n'" "cn_node n' = cn_node n" "cn_children n' = cn_children n" using step.IH n(1) by auto
      have pos: "0 < refs h n' c" using n(2) step.IH same_node(3) [OF n'(2,3)] by (simp add: refs_def count_list_0_iff zero_less_iff_neq_zero)
      show ?thesis by (rule live_step [OF K(1,3) n'(1)]) (simp_all add: pos)
    next
      case (Some v)
      have "disk_at d c \<noteq> None" using assms(4) step.hyps(2) Some disk_at_cong [OF K(2)] by auto
      moreover have "c \<noteq> zeroHash" using soundD(6) [OF well_formedD(1) [OF assms(1)] n(1)] n(2) by (auto simp: well_placed_def)
      ultimately show ?thesis using disk_at_cong [OF K(2)] by simp
    qed
  qed
  then show ?thesis by blast
qed

definition two_blocks :: Database where
  "two_blocks = snd (Reference h1 zeroHash (snd (Reference h1 zeroHash one_node)))"

lemma one_node_ref: "Reference h1 zeroHash one_node = (Ok (), one_node\<lparr>d_dirties := (d_dirties one_node)(
     h1 \<mapsto> (the (d_dirties one_node h1))\<lparr>cn_parents := 1\<rparr>, zeroHash \<mapsto> (the (d_dirties one_node zeroHash))\<lparr>cn_children := Some [(h1, 1)]\<rparr>),
     d_childrenSize := 34\<rparr>)"
  by (simp add: one_node_eq NewDatabase_def zeroHash_def Reference_def reference_def setEntry_def entry_def bindM_def seqM_def getsM_def modM_def retM_def childCount_def childList_def HashLength_def)

lemma two_blocks_eq: "two_blocks = one_node\<lparr>d_dirties := (d_dirties one_node)(
     h1 \<mapsto> (the (d_dirties one_node h1))\<lparr>cn_parents := 2\<rparr>, zeroHash \<mapsto> (the (d_dirties one_node zeroHash))\<lparr>cn_children := Some [(h1, 2)]\<rparr>),
     d_childrenSize := 34\<rparr>"
  unfolding two_blocks_def one_node_ref snd_conv
  by (simp add: one_node_eq NewDatabase_def zeroHash_def Reference_def reference_def setEntry_def entry_def bindM_def seqM_def getsM_def modM_def retM_def childCount_def childList_def HashLength_def)

lemma two_blocks_ok: "referable (\<lambda>_. 0) h1 zeroHash one_node" "referable (\<lambda>_. 0) h1 zeroHash (snd (Reference h1 zeroHash one_node))"
  "admissible (\<lambda>_. 0) (OpDereference h1) two_blocks"
  unfolding one_node_ref two_blocks_eq
  by (simp_all add: referable_def one_node_eq NewDatabase_def zeroHash_def childCount_def childList_def)

lemma two_blocks_well_formed: "well_formed (\<lambda>_. 0) two_blocks"
  using well_formed_reference [OF one_node_well_formed two_blocks_ok(1)] well_formed_reference [OF _ two_blocks_ok(2)]
  by (auto simp: two_blocks_def)

lemma two_blocks_drop:
  "fst (Dereference h1 two_blocks) = Ok ()"
  "\<exists>m. d_dirties (snd (Dereference h1 two_blocks)) zeroHash = Some m \<and> 0 < childCount h1 m"
  unfolding two_blocks_eq
  by (simp_all add: one_node_eq NewDatabase_def zeroHash_def Dereference_def dereference_def dropChild_def setEntry_def entry_def
      seqM_def bindM_def getsM_def modM_def retM_def childCount_def childList_def HashLength_def)

theorem database_run_safe_witness:
  "\<exists>d. forM [OpInsert h1 [0xc2, 0x80, 0x80] (RawBlob [0xc2, 0x80, 0x80]), OpReference h1 zeroHash, OpReference h1 zeroHash, OpDereference h1]
     db_exec (NewDatabase (Some Map.empty)) = (Ok (), d) \<and> linked d"
proof -
  have "admissible (\<lambda>_. 0) (OpInsert h1 [0xc2, 0x80, 0x80] (RawBlob [0xc2, 0x80, 0x80])) (NewDatabase (Some Map.empty))" by (rule one_node_admissible)
  then have "admissible_run (\<lambda>_. 0) [OpInsert h1 [0xc2, 0x80, 0x80] (RawBlob [0xc2, 0x80, 0x80]), OpReference h1 zeroHash, OpReference h1 zeroHash, OpDereference h1]
      (NewDatabase (Some Map.empty))"
    using two_blocks_ok by (simp add: one_node_insert two_blocks_def)
  from database_run_safe [OF this] show ?thesis by blast
qed

theorem live_nodes_survive_witness:
  "(\<exists>v. disk_at (snd (Dereference h1 two_blocks)) h1 = Some v) \<or>
   (\<exists>n. d_dirties (snd (Dereference h1 two_blocks)) h1 = Some n)"
proof -
  obtain m where m: "d_dirties (snd (Dereference h1 two_blocks)) zeroHash = Some m" "0 < childCount h1 m" using two_blocks_drop(2) by blast
  have run: "Dereference h1 two_blocks = (Ok (), snd (Dereference h1 two_blocks))" using two_blocks_drop(1) by (metis prod.collapse)
  have "\<forall>h c. c \<in> kids two_blocks h \<longrightarrow> disk_at two_blocks h \<noteq> None \<longrightarrow> disk_at two_blocks c \<noteq> None"
    by (simp add: two_blocks_eq one_node_eq NewDatabase_def disk_at_def)
  from live_nodes_survive [OF two_blocks_well_formed two_blocks_ok(3) run this m rtranclp.rtrancl_refl] show ?thesis by auto
qed

end
