(* ===== verification/Spec2Isabelle.thy ===== *)
theory Spec2Isabelle
  imports Batch_Service Proposer Sync_Tip Trie_Run
begin

text \<open>
  A verification library for the Go services of Mantle, a rollup of Ethereum.

  \<^bold>\<open>The program.\<close> The batch submitter posts the transactions of the rollup to the canonical
  transaction chain on the first layer and the state roots of its blocks to the rollup contract. It
  runs one service per kind of batch: a driver finds the blocks that are due and crafts the
  transaction, and a transaction manager publishes it at rising gas prices until it is confirmed. A data transport layer serves what was posted. In l2geth, the
  execution node, a client fetches queue elements, transactions and batches from it, and the sync
  service applies them: a verifier follows the posted batches, a sequencer orders the transactions of
  its users after it has checked that they pay the rollup fee. The rollup indices (last transaction,
  queue element, verified transaction, batch, EigenDA batch) are kept in the key-value store, the
  metadata of each transaction beside it. The state is a Merkle Patricia trie, whose nodes are RLP
  encoded and live in a reference-counting node database in front of the store.

  \<^bold>\<open>Conventions\<close> (\<open>Go_Prelude\<close>). Machine integers are words and wrap around as in Go; \<open>big.Int\<close>
  is \<open>int\<close>; a struct is a record, a nil pointer \<open>None\<close>. A call gives \<open>Ok\<close>, an error value
  (\<open>Fail\<close>), a panic (\<open>Panic\<close>) or, where the model runs out of its fuel, \<open>Diverge\<close>; code with state
  is a function from the state to such an outcome and a new state, composed by \<open>bindM\<close>, \<open>seqM\<close>,
  \<open>forM\<close>. Errors keep their wrapping. Three collections of rules carry the proofs about
  computations: what they keep (\<open>keeps\<close>), what they ensure on each kind of outcome (\<open>ensures\<close>),
  and that they return (\<open>returns\<close>). Code outside \<open>src/\<close> (the signature scheme, the keccak hash,
  zlib, the HTTP server, the virtual machine behind the sync service) is an argument of the
  definitions that use it.

  \<^bold>\<open>The theories.\<close>
  \<^item> \<open>Batch_Encoding\<close>: \<open>batch-submitter/drivers/sequencer/encoding.go\<close> and \<open>cached_tx.go\<close>.
    A serialised header and its transactions are read back, also compressed; reading returns on every
    input; what short and incomplete inputs give.
  \<^item> \<open>Sequencer_Batch\<close>: \<open>batch-submitter/drivers/sequencer/batch.go\<close>. The contexts generated for
    a list of elements describe exactly these elements, and no shorter list of contexts does.
  \<^item> \<open>Tx_Manager\<close>: \<open>bss-core/txmgr\<close>. \<open>Send\<close> is a step relation labelled with the answers of the
    node and of the callbacks, so that a run is an interleaving of the background publications with
    the main loop. A returned receipt belongs to a published transaction and is confirmed; giving up
    has a reason; a confirmed receipt can always be delivered.
  \<^item> \<open>Batch_Driver\<close>, \<open>Batch_Service\<close>: \<open>batch-submitter/drivers/sequencer/driver.go\<close>,
    \<open>bss-core/drivers\<close> and \<open>bss-core/service.go\<close>. A crafted batch describes the blocks of its range, a
    resubmission carries the same batch, and a round of the service that reports a published batch
    has the batch of the blocks due on chain. What a failing key service does.
  \<^item> \<open>Tx_Batch\<close>, \<open>Proposer\<close>: \<open>fraud-proof/rollup/types\<close> and
    \<open>batch-submitter/drivers/proposer/driver.go\<close>. A state batch asserts the roots of consecutive blocks
    and the state of the last one; decoding of a transaction batch reads one transaction repeatedly.
  \<^item> \<open>Tx_Meta\<close>: \<open>l2geth/common/varbytes.go\<close>, \<open>l2geth/core/types/transaction_meta.go\<close>,
    the accessors of \<open>transaction.go\<close>. Round trips of variable-length integers and of the metadata.
  \<^item> \<open>Rollup_Index\<close>: \<open>l2geth/ethdb/memorydb/memorydb.go\<close> and
    \<open>l2geth/core/rawdb/rollup_indexes.go\<close>. Each index reads back its last write; batches.
  \<^item> \<open>Big_Float\<close>, \<open>Fees\<close>: the part of \<open>math/big.Float\<close> the fee code uses,
    \<open>l2geth/rollup/fees/rollup_fee.go\<close> and \<open>l2geth/eth/gasprice/rollup_gasprice.go\<close>. The fee at
    admission is the fee at execution; accuracy and wrap-around of the scaling.
  \<^item> \<open>Rollup_Client\<close>: \<open>l2geth/rollup/client.go\<close> and \<open>types.go\<close>. Replies are decoded faithfully; the
    search for the last confirmed queue element.
  \<^item> \<open>Sync_State\<close>, \<open>Sync_Apply\<close>, \<open>Sync_Admission\<close>, \<open>Sync_Tip\<close>:
    \<open>l2geth/rollup/sync_service.go\<close> over an abstract world: the indices and the oracle cache; applying
    transactions in order and undoing rejected ones; the checks on a user's transaction; the loops,
    start-up and recovery. Over any run the context of the first layer never goes back and
    the verified index stays behind the processed one.
  \<^item> \<open>Trie_Encoding\<close>, \<open>Trie\<close>, \<open>Trie_Map\<close>: \<open>l2geth/trie/encoding.go\<close> and \<open>trie.go\<close>. Lookup, update
    and deletion refine a map, return, and leave nodes that depend on the content alone.
  \<^item> \<open>Rlp_Encode\<close>, \<open>Rlp_Raw\<close>, \<open>Trie_Node\<close>: \<open>l2geth/rlp/encode.go\<close>, \<open>raw.go\<close>,
    \<open>l2geth/trie/node.go\<close>. The encoder writes the recursive encoding; splitting accepts exactly
    the canonical encodings; a stored node reads from disk as from the cache.
  \<^item> \<open>Trie_Database\<close>, \<open>Trie_Flush\<close>: \<open>l2geth/trie/database.go\<close>. \<open>Cap\<close> and \<open>Commit\<close> lose no node at
    any moment, and a \<open>Commit\<close> that returns has brought a whole trie to disk.
  \<^item> \<open>Flush_List\<close>, \<open>Trie_GC\<close>, \<open>Trie_Run\<close>: the same file. The flush list stays linked both ways and
    in order, the reference counters cover the references, and over any run of operations no operation
    panics, no reference dangles, and dropping a root spares the nodes of the roots still held.

  \<^bold>\<open>Interfaces.\<close> Locales state what one part relies on: \<open>wire_reader\<close> and \<open>wire_codec\<close> for fields on
  the wire, \<open>index_slot\<close> for a rollup index in the store, \<open>keyed_store\<close> for a store of values under
  keys, \<open>state_preorder\<close> for a monotone part of a state. Each is interpreted on the operations of
  the model.

  \<^bold>\<open>Bounds and fuel.\<close> A loop over a list or range is a fold. The loops of the batch reader and of
  \<open>CountValues\<close> take as many rounds as there are bytes, which is enough since each round reads one.
  The trie operations are partial functions (a database of nodes may be cyclic), shown to be defined
  on well-formed tries. The walks of the node database take as many rounds as there are cached nodes.
  A wait for a receipt consumes a list of answers of the node, the service a number of ticks.
  The polling loops of the sync service and the search of the client have a fuel argument; the
  theorems about them hold for every fuel, or say which fuel is enough.

  \<^bold>\<open>Not modelled.\<close> Concurrency outside the transaction manager: a round of a loop, and each operation
  under its lock, is one atomic step. Subscriptions and metrics, but for two counters, are left out;
  a ticker may fire at any time. Clients, contract bindings and signers of the drivers are records of
  calls. The virtual machine, block production,
  networking, RPC and account management inherited from go-ethereum, the contract bindings, the
  Solidity and TypeScript packages, and the services that only move data between RPC endpoints
  and contracts (the manifest lists each with its reason). Of the trie, iterators and
  the sync scheduler; of RLP, the decoder by reflection; of the node database, the optional cache of
  clean nodes, which is a library.
\<close>

end
